(* ===== verification/Srtp_Prelude.thy ===== *)
theory Srtp_Prelude
  imports Main "HOL-Library.Word"
begin

unbundle bit_operations_syntax

text \<open>
  What the components share: names for the machine types of the C code, the outcome of
  running a C function (it returns, an \<open>assert\<close> fails, or it reaches a construct the C
  standard leaves undefined), flat byte memory with block reads and writes (\<open>memcpy\<close>,
  \<open>memset\<close> and pointer arithmetic on \<open>uint8_t *\<close>), and the byte images of 16 and 32 bit
  integers in network order and in host order.

  The host is little endian, as every machine the Makefiles target is. \<open>size_t\<close> is \<open>nat\<close>:
  every \<open>size_t\<close> of the code counts bytes of an object in memory, and the sums the code
  forms (a length plus at most 28) do not reach \<open>2 ^ 64\<close> for such a count. The one
  narrowing of a \<open>size_t\<close>, the \<open>int\<close> parameters of \<open>div\<close> in \<open>do_ctr_crypt\<close>, and the one
  subtraction that can go below zero, in \<open>srtp_recv\<close>, are written out where they occur.
\<close>

section \<open>Machine types\<close>

type_synonym byte = "8 word"
type_synonym u16 = "16 word"
type_synonym u32 = "32 word"
type_synonym u64 = "64 word"
type_synonym bytes = "byte list"

named_theorems byte_simps \<open>lengths and contents of byte images and memory blocks\<close>
named_theorems srtp_defs \<open>definitions a component proof unfolds together\<close>

section \<open>Outcomes\<close>

datatype 'a outcome =
  Done 'a        \<comment> \<open>the function returns\<close>
| Aborted        \<comment> \<open>an \<open>assert\<close> fails, the process ends\<close>
| Undefined      \<comment> \<open>a shift count, division or access the C standard leaves undefined\<close>

fun obind :: "'a outcome \<Rightarrow> ('a \<Rightarrow> 'b outcome) \<Rightarrow> 'b outcome" where
  "obind (Done x) f = f x"
| "obind Aborted f = Aborted"
| "obind Undefined f = Undefined"

lemma obind_DoneE [elim!]:
  assumes "obind r f = Done y"
  obtains x where "r = Done x" and "f x = Done y"
  using assms by (cases r) auto

fun returns :: "'a outcome \<Rightarrow> bool" where
  "returns (Done x) = True"
| "returns _ = False"

lemma returns_iff: "returns r \<longleftrightarrow> (\<exists>x. r = Done x)"
  by (cases r) auto

lemma returnsI: "(\<And>x. r = Done x \<Longrightarrow> returns (f x)) \<Longrightarrow> returns r \<Longrightarrow> returns (obind r f)"
  by (cases r) auto

lemma obind_Undefined_iff:
  "obind r f = Undefined \<longleftrightarrow> r = Undefined \<or> (\<exists>x. r = Done x \<and> f x = Undefined)"
  by (cases r) auto

lemma obind_Aborted_iff:
  "obind r f = Aborted \<longleftrightarrow> r = Aborted \<or> (\<exists>x. r = Done x \<and> f x = Aborted)"
  by (cases r) auto

section \<open>Flat memory\<close>

text \<open>
  A \<open>uint8_t *\<close> is a view of memory from the pointer on: \<open>m i\<close> is the byte at \<open>p + i\<close>. Reads
  and writes past the object the pointer belongs to are reads and writes of what lies
  behind it; that the code stays inside is a theorem (or fails to be one), not a
  convention of the model.
\<close>

type_synonym mem = "nat \<Rightarrow> byte"

definition mread :: "mem \<Rightarrow> nat \<Rightarrow> nat \<Rightarrow> bytes" where
  "mread m a n = map m [a..<a + n]"

definition mwrite :: "mem \<Rightarrow> nat \<Rightarrow> bytes \<Rightarrow> mem" where
  "mwrite m a bs = (\<lambda>i. if a \<le> i \<and> i < a + length bs then bs ! (i - a) else m i)"

lemma length_mread [simp]: "length (mread m a n) = n"
  by (simp add: mread_def)

lemma nth_mread [simp]: "i < n \<Longrightarrow> mread m a n ! i = m (a + i)"
  by (simp add: mread_def)

lemma mread_0 [simp]: "mread m a 0 = []"
  by (simp add: mread_def)

lemma mread_eq_Nil [simp]: "mread m a n = [] \<longleftrightarrow> n = 0"
  by (auto simp: mread_def)

lemma mread_cong: "(\<And>i. a \<le> i \<Longrightarrow> i < a + n \<Longrightarrow> m i = m' i) \<Longrightarrow> mread m a n = mread m' a n"
  by (simp add: mread_def)

lemma mread_split: "mread m a (k + n) = mread m a k @ mread m (a + k) n"
  by (rule nth_equalityI) (auto simp: nth_append)

lemma take_mread: "k \<le> n \<Longrightarrow> take k (mread m a n) = mread m a k"
  by (simp add: mread_def take_map)

lemma drop_mread: "k \<le> n \<Longrightarrow> drop k (mread m a n) = mread m (a + k) (n - k)"
  by (simp add: mread_def drop_map)

lemma mwrite_Nil [simp]: "mwrite m a [] = m"
  by (rule ext) (auto simp: mwrite_def)

lemma mwrite_outside: "i < a \<or> a + length bs \<le> i \<Longrightarrow> mwrite m a bs i = m i"
  by (auto simp: mwrite_def)

lemma mwrite_inside: "i < length bs \<Longrightarrow> mwrite m a bs (a + i) = bs ! i"
  by (simp add: mwrite_def)

lemma mread_mwrite_same: "mread (mwrite m a bs) a (length bs) = bs"
  by (rule nth_equalityI) (simp_all add: mwrite_inside)

lemma mread_mwrite_disjoint:
  "b + n \<le> a \<or> a + length bs \<le> b \<Longrightarrow> mread (mwrite m a bs) b n = mread m b n"
  by (rule mread_cong) (auto simp: mwrite_def)

lemma mwrite_mread_id [simp]: "mwrite m a (mread m a n) = m"
  by (rule ext) (auto simp: mwrite_def)

lemma mwrite_append: "mwrite (mwrite m a xs) (a + length xs) ys = mwrite m a (xs @ ys)"
  by (rule ext) (auto simp: mwrite_def nth_append)

lemma mwrite_overwrite: "length xs = length ys \<Longrightarrow> mwrite (mwrite m a xs) a ys = mwrite m a ys"
  by (rule ext) (auto simp: mwrite_def)

text \<open>A library call that fills an array of \<open>length dst\<close> bytes with the bytes it produced.\<close>

definition fill :: "bytes \<Rightarrow> bytes \<Rightarrow> bytes" where
  "fill dst src = take (length dst) src @ drop (length src) dst"

lemma length_fill [simp]: "length (fill dst src) = length dst"
  by (simp add: fill_def)

lemma fill_same: "length src = length dst \<Longrightarrow> fill dst src = src"
  by (simp add: fill_def)

section \<open>XOR of byte blocks\<close>

definition xor_bytes :: "bytes \<Rightarrow> bytes \<Rightarrow> bytes" where
  "xor_bytes xs ys = map2 (XOR) xs ys"

lemma length_xor_bytes [simp]: "length (xor_bytes xs ys) = min (length xs) (length ys)"
  by (simp add: xor_bytes_def)

lemma nth_xor_bytes [simp]:
  "i < length xs \<Longrightarrow> i < length ys \<Longrightarrow> xor_bytes xs ys ! i = xs ! i XOR ys ! i"
  by (simp add: xor_bytes_def)

lemma xor_bytes_cancel: "length xs \<le> length ys \<Longrightarrow> xor_bytes (xor_bytes xs ys) ys = xs"
  by (rule nth_equalityI) (simp_all add: xor.assoc)

lemma word_xor_left_cancel: "a XOR b = a XOR c \<longleftrightarrow> b = (c :: 'a :: len word)"
  by (auto simp: bit_eq_iff bit_simps)

lemma xor_bytes_append:
  "length xs = length us \<Longrightarrow> xor_bytes (xs @ ys) (us @ vs) = xor_bytes xs us @ xor_bytes ys vs"
  by (simp add: xor_bytes_def)

lemma take_xor_bytes: "take n (xor_bytes xs ys) = xor_bytes (take n xs) (take n ys)"
  by (simp add: xor_bytes_def take_map take_zip)

section \<open>Integers as bytes\<close>

text \<open>Network (big endian) order: what \<open>htons\<close> and \<open>htonl\<close> store, and what the wire carries.\<close>

definition be_word16 :: "byte \<Rightarrow> byte \<Rightarrow> u16" where
  "be_word16 a b = push_bit 8 (ucast a) OR ucast b"

definition be_bytes32 :: "u32 \<Rightarrow> bytes" where
  "be_bytes32 w = [ucast (drop_bit 24 w), ucast (drop_bit 16 w), ucast (drop_bit 8 w), ucast w]"

fun be_word32 :: "bytes \<Rightarrow> u32" where
  "be_word32 [a, b, c, d] =
     push_bit 24 (ucast a) OR push_bit 16 (ucast b) OR push_bit 8 (ucast c) OR ucast d"
| "be_word32 _ = 0"

text \<open>Host order: the memory image of a \<open>uint32_t\<close>, which \<open>memcpy\<close> to and from it moves.\<close>

definition u32_store :: "u32 \<Rightarrow> bytes" where
  "u32_store w = [ucast w, ucast (drop_bit 8 w), ucast (drop_bit 16 w), ucast (drop_bit 24 w)]"

fun u32_load :: "bytes \<Rightarrow> u32" where
  "u32_load [a, b, c, d] =
     ucast a OR push_bit 8 (ucast b) OR push_bit 16 (ucast c) OR push_bit 24 (ucast d)"
| "u32_load _ = 0"

definition htonl :: "u32 \<Rightarrow> u32" where
  "htonl w = u32_load (be_bytes32 w)"

definition ntohl :: "u32 \<Rightarrow> u32" where
  "ntohl w = be_word32 (u32_store w)"

lemma length_be_bytes32 [simp]: "length (be_bytes32 w) = 4"
  by (simp add: be_bytes32_def)

lemma length_u32_store [simp]: "length (u32_store w) = 4"
  by (simp add: u32_store_def)

lemma length_4_cases:
  assumes "length xs = 4"
  obtains a b c d where "xs = [a, b, c, d]"
  using assms by (auto simp: numeral_eq_Suc length_Suc_conv)

lemma bit_byte_high [simp]: "8 \<le> n \<Longrightarrow> \<not> bit (b :: byte) n"
  by (auto dest: bit_imp_le_length)

lemma u32_load_store [simp]: "u32_load (u32_store w) = w"
proof (rule bit_word_eqI)
  fix n assume "n < LENGTH(32)"
  then consider "n < 8" | "8 \<le> n" "n < 16" | "16 \<le> n" "n < 24" | "24 \<le> n" "n < 32"
    by fastforce
  then show "bit (u32_load (u32_store w)) n = bit w n"
    by cases (auto simp: u32_store_def bit_simps)
qed

lemma u32_store_load: "length bs = 4 \<Longrightarrow> u32_store (u32_load bs) = bs"
  by (elim length_4_cases) (auto simp: u32_store_def bit_eq_iff bit_simps)

lemma be_word32_bytes [simp]: "be_word32 (be_bytes32 w) = w"
proof (rule bit_word_eqI)
  fix n assume "n < LENGTH(32)"
  then consider "n < 8" | "8 \<le> n" "n < 16" | "16 \<le> n" "n < 24" | "24 \<le> n" "n < 32"
    by fastforce
  then show "bit (be_word32 (be_bytes32 w)) n = bit w n"
    by cases (auto simp: be_bytes32_def bit_simps)
qed

lemma be_bytes32_word: "length bs = 4 \<Longrightarrow> be_bytes32 (be_word32 bs) = bs"
  by (elim length_4_cases) (auto simp: be_bytes32_def bit_eq_iff bit_simps)

lemma u32_store_htonl [simp]: "u32_store (htonl w) = be_bytes32 w"
  by (simp add: htonl_def u32_store_load)

lemma ntohl_load: "length bs = 4 \<Longrightarrow> ntohl (u32_load bs) = be_word32 bs"
  by (simp add: ntohl_def u32_store_load)

lemma ntohl_htonl [simp]: "ntohl (htonl w) = w"
  by (simp add: ntohl_def)

lemma u32_store_xor: "u32_store (a XOR b) = xor_bytes (u32_store a) (u32_store b)"
  by (auto simp: u32_store_def xor_bytes_def bit_eq_iff bit_simps)

end
