(* ===== verification/Gcrypt.thy ===== *)
theory Gcrypt
  imports Srtp_Prelude
begin

text \<open>
  libgcrypt and the allocator are not part of the repository: they are a parameter of the
  model. The record \<open>gcrypt\<close> holds one operation per library function that \<open>srtp.c\<close> calls;
  \<open>'c\<close> and \<open>'m\<close> are the states of a cipher and of a digest handle, \<open>'w\<close> is the state of the
  process outside the code (which handles and blocks are allocated). Handles are never
  copied by the code, so the session owns their states and the calls return them updated.

  What the code relies on is stated as the predicates \<open>ctr_cipher\<close>, \<open>keyed_cipher\<close>,
  \<open>hmac_md\<close>, \<open>keyed_md\<close> and \<open>resource_count\<close> over observers of the handles; theorems take
  them as hypotheses. \<open>stub_gcrypt\<close> is a small library that satisfies them all, on which
  the witnesses evaluate.
\<close>

section \<open>The interface\<close>

datatype gcry_cipher_algo = GCRY_CIPHER_NONE | GCRY_CIPHER_AES
datatype gcry_cipher_mode = GCRY_CIPHER_MODE_CTR
datatype gcry_md_algo = GCRY_MD_NONE | GCRY_MD_SHA1
datatype gcry_md_flag = GCRY_MD_FLAG_HMAC

type_synonym gcry_error = u32   \<comment> \<open>0 is success\<close>

record ('c, 'm, 'w) gcrypt =
  gcry_cipher_open :: "gcry_cipher_algo \<Rightarrow> gcry_cipher_mode \<Rightarrow> u32 \<Rightarrow> 'w \<Rightarrow> 'c option \<times> 'w"
  gcry_cipher_close :: "'c \<Rightarrow> 'w \<Rightarrow> 'w"
  gcry_cipher_setkey :: "'c \<Rightarrow> bytes \<Rightarrow> gcry_error \<times> 'c"
  gcry_cipher_setctr :: "'c \<Rightarrow> bytes \<Rightarrow> gcry_error \<times> 'c"
  gcry_cipher_encrypt :: "'c \<Rightarrow> bytes \<Rightarrow> gcry_error \<times> bytes \<times> 'c"
  gcry_md_open :: "gcry_md_algo \<Rightarrow> gcry_md_flag \<Rightarrow> 'w \<Rightarrow> 'm option \<times> 'w"
  gcry_md_close :: "'m \<Rightarrow> 'w \<Rightarrow> 'w"
  gcry_md_setkey :: "'m \<Rightarrow> bytes \<Rightarrow> gcry_error \<times> 'm"
  gcry_md_reset :: "'m \<Rightarrow> 'm"
  gcry_md_write :: "'m \<Rightarrow> bytes \<Rightarrow> 'm"
  gcry_md_read :: "'m \<Rightarrow> bytes \<times> 'm"
  gcry_md_get_algo_dlen :: "gcry_md_algo \<Rightarrow> nat"
  c_malloc :: "'w \<Rightarrow> bool \<times> 'w"   \<comment> \<open>whether a block was obtained\<close>
  c_free :: "'w \<Rightarrow> 'w"

section \<open>Documented behaviour\<close>

text \<open>
  Counter mode: \<open>key\<close> observes the key of a handle, \<open>strm\<close> the key stream it will use next,
  and \<open>ks k c\<close> is the key stream of key \<open>k\<close> from counter block \<open>c\<close> on. Encrypting whole
  blocks on a keyed handle XORs the stream and advances it.
\<close>

definition ctr_cipher ::
  "('c, 'm, 'w) gcrypt \<Rightarrow> ('c \<Rightarrow> bytes option) \<Rightarrow> ('c \<Rightarrow> nat \<Rightarrow> byte) \<Rightarrow>
   (bytes \<Rightarrow> bytes \<Rightarrow> nat \<Rightarrow> byte) \<Rightarrow> bool" where
  "ctr_cipher G key strm ks \<longleftrightarrow>
     (\<forall>h c k e h'. key h = Some k \<and> length c = 16 \<and> gcry_cipher_setctr G h c = (e, h') \<longrightarrow>
        e = 0 \<and> key h' = Some k \<and> strm h' = ks k c) \<and>
     (\<forall>h xs k e out h'. key h = Some k \<and> 16 dvd length xs \<and>
          gcry_cipher_encrypt G h xs = (e, out, h') \<longrightarrow>
        e = 0 \<and> out = xor_bytes xs (map (strm h) [0..<length xs]) \<and> key h' = Some k \<and>
        strm h' = (\<lambda>i. strm h (length xs + i)))"

definition keyed_cipher :: "('c, 'm, 'w) gcrypt \<Rightarrow> ('c \<Rightarrow> bytes option) \<Rightarrow> bool" where
  "keyed_cipher G key \<longleftrightarrow> (\<forall>h k h'. gcry_cipher_setkey G h k = (0, h') \<longrightarrow> key h' = Some k)"

text \<open>
  HMAC: \<open>mkey\<close> observes the key of a digest handle, \<open>mdata\<close> the bytes written since the
  last reset; reading gives \<open>hmac\<close> of the two, \<open>dlen\<close> bytes long, and keeps the key.
\<close>

definition hmac_md ::
  "('c, 'm, 'w) gcrypt \<Rightarrow> ('m \<Rightarrow> bytes option) \<Rightarrow> ('m \<Rightarrow> bytes) \<Rightarrow>
   (bytes \<Rightarrow> bytes \<Rightarrow> bytes) \<Rightarrow> nat \<Rightarrow> bool" where
  "hmac_md G mkey mdata hmac dlen \<longleftrightarrow>
     (\<forall>h. mkey (gcry_md_reset G h) = mkey h \<and> mdata (gcry_md_reset G h) = []) \<and>
     (\<forall>h bs. mkey (gcry_md_write G h bs) = mkey h \<and>
        mdata (gcry_md_write G h bs) = mdata h @ bs) \<and>
     (\<forall>h k. mkey h = Some k \<longrightarrow>
        fst (gcry_md_read G h) = hmac k (mdata h) \<and> mkey (snd (gcry_md_read G h)) = Some k) \<and>
     (\<forall>k d. length (hmac k d) = dlen)"

definition keyed_md :: "('c, 'm, 'w) gcrypt \<Rightarrow> ('m \<Rightarrow> bytes option) \<Rightarrow> bool" where
  "keyed_md G mkey \<longleftrightarrow> (\<forall>h k h'. gcry_md_setkey G h k = (0, h') \<longrightarrow> mkey h' = Some k)"

text \<open>
  Resources: \<open>handles\<close> counts the open library handles of the process and \<open>blocks\<close> its
  allocated blocks. A failed open or \<open>malloc\<close> takes nothing.
\<close>

definition resource_count ::
  "('c, 'm, 'w) gcrypt \<Rightarrow> ('w \<Rightarrow> int) \<Rightarrow> ('w \<Rightarrow> int) \<Rightarrow> bool" where
  "resource_count G handles blocks \<longleftrightarrow>
     (\<forall>a md f w r w'. gcry_cipher_open G a md f w = (r, w') \<longrightarrow>
        handles w' = handles w + (if r = None then 0 else 1) \<and> blocks w' = blocks w) \<and>
     (\<forall>a f w r w'. gcry_md_open G a f w = (r, w') \<longrightarrow>
        handles w' = handles w + (if r = None then 0 else 1) \<and> blocks w' = blocks w) \<and>
     (\<forall>h w. handles (gcry_cipher_close G h w) = handles w - 1 \<and>
        blocks (gcry_cipher_close G h w) = blocks w) \<and>
     (\<forall>h w. handles (gcry_md_close G h w) = handles w - 1 \<and>
        blocks (gcry_md_close G h w) = blocks w) \<and>
     (\<forall>w r w'. c_malloc G w = (r, w') \<longrightarrow>
        blocks w' = blocks w + (if r then 1 else 0) \<and> handles w' = handles w) \<and>
     (\<forall>w. blocks (c_free G w) = blocks w - 1 \<and> handles (c_free G w) = handles w)"

text \<open>A process with memory and handles to spare.\<close>

definition grants_all :: "('c, 'm, 'w) gcrypt \<Rightarrow> bool" where
  "grants_all G \<longleftrightarrow>
     (\<forall>a md f w. fst (gcry_cipher_open G a md f w) \<noteq> None) \<and>
     (\<forall>a f w. fst (gcry_md_open G a f w) \<noteq> None) \<and> (\<forall>w. fst (c_malloc G w))"

lemma ctr_setctrD:
  "ctr_cipher G key strm ks \<Longrightarrow> gcry_cipher_setctr G h c = (e, h') \<Longrightarrow> key h = Some k \<Longrightarrow>
   length c = 16 \<Longrightarrow> e = 0 \<and> key h' = Some k \<and> strm h' = ks k c"
  unfolding ctr_cipher_def by blast

lemma ctr_encryptD:
  "ctr_cipher G key strm ks \<Longrightarrow> gcry_cipher_encrypt G h xs = (e, out, h') \<Longrightarrow>
   key h = Some k \<Longrightarrow> 16 dvd length xs \<Longrightarrow>
   e = 0 \<and> out = xor_bytes xs (map (strm h) [0..<length xs]) \<and> key h' = Some k \<and>
   strm h' = (\<lambda>i. strm h (length xs + i))"
  unfolding ctr_cipher_def by blast

section \<open>A library for the witnesses\<close>

text \<open>
  Toy primitives with the documented shape: an additive key stream and a checksum in place
  of HMAC. The world is the number of open handles, the number of blocks, and how many
  handles the process may hold.
\<close>

type_synonym stub_cipher = "bytes option \<times> bytes \<times> nat"
type_synonym stub_md = "bytes option \<times> bytes"
type_synonym stub_world = "int \<times> int \<times> int"

definition stub_ks :: "bytes \<Rightarrow> bytes \<Rightarrow> nat \<Rightarrow> byte" where
  "stub_ks k c i = sum_list k + 3 * sum_list c + of_nat i"

fun stub_strm :: "stub_cipher \<Rightarrow> nat \<Rightarrow> byte" where
  "stub_strm (k, c, p) i = stub_ks (case k of None \<Rightarrow> [] | Some k' \<Rightarrow> k') c (p + i)"

definition stub_hmac :: "bytes \<Rightarrow> bytes \<Rightarrow> bytes" where
  "stub_hmac k d = replicate 20 (sum_list k + 5 * sum_list d + of_nat (length d))"

definition stub_gcrypt :: "(stub_cipher, stub_md, stub_world) gcrypt" where
  "stub_gcrypt = \<lparr>
     gcry_cipher_open = (\<lambda>a md f (n, b, cap).
       if n < cap then (Some (None, [], 0), (n + 1, b, cap)) else (None, (n, b, cap))),
     gcry_cipher_close = (\<lambda>h (n, b, cap). (n - 1, b, cap)),
     gcry_cipher_setkey = (\<lambda>(k, c, p) key.
       if length key \<in> {16, 24, 32} then (0, (Some key, [], 0)) else (44, (k, c, p))),
     gcry_cipher_setctr = (\<lambda>(k, c, p) ctr.
       if length ctr = 16 then (0, (k, ctr, 0)) else (139, (k, c, p))),
     gcry_cipher_encrypt = (\<lambda>(k, c, p) xs.
       (0, xor_bytes xs (map (stub_strm (k, c, p)) [0..<length xs]), (k, c, p + length xs))),
     gcry_md_open = (\<lambda>a f (n, b, cap).
       if n < cap then (Some (None, []), (n + 1, b, cap)) else (None, (n, b, cap))),
     gcry_md_close = (\<lambda>h (n, b, cap). (n - 1, b, cap)),
     gcry_md_setkey = (\<lambda>(k, d) key. (0, (Some key, []))),
     gcry_md_reset = (\<lambda>(k, d). (k, [])),
     gcry_md_write = (\<lambda>(k, d) bs. (k, d @ bs)),
     gcry_md_read = (\<lambda>(k, d). (stub_hmac (case k of None \<Rightarrow> [] | Some k' \<Rightarrow> k') d, (k, d))),
     gcry_md_get_algo_dlen = (\<lambda>a. case a of GCRY_MD_NONE \<Rightarrow> 0 | GCRY_MD_SHA1 \<Rightarrow> 20),
     c_malloc = (\<lambda>(n, b, cap). (True, (n, b + 1, cap))),
     c_free = (\<lambda>(n, b, cap). (n, b - 1, cap)) \<rparr>"

definition stub_rich :: "(stub_cipher, stub_md, stub_world) gcrypt" where
  "stub_rich = stub_gcrypt\<lparr>
     gcry_cipher_open := (\<lambda>a md f (n, b, cap). (Some (None, [], 0), (n + 1, b, cap))),
     gcry_md_open := (\<lambda>a f (n, b, cap). (Some (None, []), (n + 1, b, cap)))\<rparr>"

lemma stub_rich_grants_all: "grants_all stub_rich"
  by (auto simp: grants_all_def stub_rich_def stub_gcrypt_def)

lemma stub_ctr_cipher: "ctr_cipher stub_gcrypt fst stub_strm stub_ks"
  by (auto simp: ctr_cipher_def stub_gcrypt_def fun_eq_iff add.assoc)

lemma stub_keyed_cipher: "keyed_cipher stub_gcrypt fst"
  by (auto simp: keyed_cipher_def stub_gcrypt_def split: if_splits)

lemma stub_hmac_md: "hmac_md stub_gcrypt fst snd stub_hmac 20"
  by (auto simp: hmac_md_def stub_gcrypt_def stub_hmac_def split: option.splits)

lemma stub_keyed_md: "keyed_md stub_gcrypt fst"
  by (auto simp: keyed_md_def stub_gcrypt_def)

lemma stub_resource_count: "resource_count stub_gcrypt fst (\<lambda>(n, b, cap). b)"
  by (auto simp: resource_count_def stub_gcrypt_def split: if_splits)

end
