(* ===== verification/Srtp_Session.thy ===== *)
theory Srtp_Session
  imports Gcrypt
begin

text \<open>
  The session object of \<open>libsrtp_decrypt/srtp.c\<close>: the flags and algorithm numbers of
  \<open>srtp.h\<close>, the structures \<open>srtp_proto_t\<close> and \<open>srtp_session_t\<close>, and the life cycle
  \<open>srtp_create\<close>, \<open>srtp_destroy\<close>, \<open>srtp_setrcc_rate\<close>. The lemmas give the well-formedness
  every session has from creation on, which arguments are accepted, and that every path of
  \<open>srtp_create\<close> gives back what it took.
\<close>

section \<open>Constants of srtp.h and errno.h\<close>

definition SRTP_UNENCRYPTED :: u32 where "SRTP_UNENCRYPTED = 0x1"
definition SRTCP_UNENCRYPTED :: u32 where "SRTCP_UNENCRYPTED = 0x2"
definition SRTP_UNAUTHENTICATED :: u32 where "SRTP_UNAUTHENTICATED = 0x4"
definition SRTP_RCC_MODE1 :: u32 where "SRTP_RCC_MODE1 = 0x10"
definition SRTP_RCC_MODE2 :: u32 where "SRTP_RCC_MODE2 = 0x20"
definition SRTP_RCC_MODE3 :: u32 where "SRTP_RCC_MODE3 = 0x30"
definition SRTP_FLAGS_MASK :: u32 where "SRTP_FLAGS_MASK = 0x37"

definition SRTP_ENCR_NULL :: int where "SRTP_ENCR_NULL = 0"
definition SRTP_ENCR_AES_CM :: int where "SRTP_ENCR_AES_CM = 1"
definition SRTP_ENCR_AES_F8 :: int where "SRTP_ENCR_AES_F8 = 2"
definition SRTP_AUTH_NULL :: int where "SRTP_AUTH_NULL = 0"
definition SRTP_AUTH_HMAC_SHA1 :: int where "SRTP_AUTH_HMAC_SHA1 = 1"
definition SRTP_PRF_AES_CM :: int where "SRTP_PRF_AES_CM = 0"

definition EACCES :: int where "EACCES = 13"
definition EINVAL :: int where "EINVAL = 22"
definition ENOSPC :: int where "ENOSPC = 28"

lemmas flag_defs = SRTP_UNENCRYPTED_def SRTCP_UNENCRYPTED_def SRTP_UNAUTHENTICATED_def
  SRTP_RCC_MODE1_def SRTP_RCC_MODE2_def SRTP_RCC_MODE3_def SRTP_FLAGS_MASK_def

lemmas algo_defs = SRTP_ENCR_NULL_def SRTP_ENCR_AES_CM_def SRTP_ENCR_AES_F8_def
  SRTP_AUTH_NULL_def SRTP_AUTH_HMAC_SHA1_def SRTP_PRF_AES_CM_def

lemmas errno_defs = EACCES_def EINVAL_def ENOSPC_def

lemma errno_distinct [simp]:
  "EINVAL \<noteq> 0" "EACCES \<noteq> 0" "ENOSPC \<noteq> 0" "EINVAL \<noteq> EACCES" "EACCES \<noteq> EINVAL"
  "EINVAL \<noteq> ENOSPC" "ENOSPC \<noteq> EINVAL" "EACCES \<noteq> ENOSPC" "ENOSPC \<noteq> EACCES"
  by (simp_all add: errno_defs)

section \<open>The session\<close>

record ('c, 'm) srtp_proto =
  cipher :: 'c
  mac :: 'm
  window :: u64
  salt :: "u32 list"   \<comment> \<open>\<open>uint32_t salt[4]\<close>\<close>

record ('c, 'm) srtp_session =
  rtp :: "('c, 'm) srtp_proto"
  rtcp :: "('c, 'm) srtp_proto"
  flags :: u32
  kdr :: u32
  rtcp_index :: u32
  rtp_roc :: u32
  rtp_seq :: u16
  rtp_rcc :: u16
  tag_len :: byte

definition rcc_mode :: "('c, 'm) srtp_session \<Rightarrow> u32" where
  "rcc_mode s = drop_bit 4 (flags s) AND 3"

definition has_flag :: "('c, 'm) srtp_session \<Rightarrow> u32 \<Rightarrow> bool" where
  "has_flag s f \<longleftrightarrow> flags s AND f \<noteq> 0"

section \<open>Creation and destruction\<close>

definition proto_destroy ::
  "('c, 'm, 'w) gcrypt \<Rightarrow> ('c, 'm) srtp_proto \<Rightarrow> 'w \<Rightarrow> 'w" where
  "proto_destroy G p w = gcry_cipher_close G (cipher p) (gcry_md_close G (mac p) w)"

text \<open>\<open>srtp_destroy (NULL)\<close> fails the assertion.\<close>

definition srtp_destroy ::
  "('c, 'm, 'w) gcrypt \<Rightarrow> ('c, 'm) srtp_session option \<Rightarrow> 'w \<Rightarrow> 'w outcome" where
  "srtp_destroy G sp w =
     (case sp of None \<Rightarrow> Aborted
      | Some s \<Rightarrow> Done (c_free G (proto_destroy G (rtp s) (proto_destroy G (rtcp s) w))))"

text \<open>
  \<open>proto_create\<close> fills a structure that \<open>srtp_create\<close> has zeroed; \<open>None\<close> is the return
  value \<open>-1\<close>.
\<close>

definition proto_create ::
  "('c, 'm, 'w) gcrypt \<Rightarrow> gcry_cipher_algo \<Rightarrow> gcry_md_algo \<Rightarrow> 'w \<Rightarrow>
   ('c, 'm) srtp_proto option \<times> 'w" where
  "proto_create G gcipher gmd w =
     (case gcry_cipher_open G gcipher GCRY_CIPHER_MODE_CTR 0 w of
        (None, w1) \<Rightarrow> (None, w1)
      | (Some c, w1) \<Rightarrow>
          (case gcry_md_open G gmd GCRY_MD_FLAG_HMAC w1 of
             (Some md, w2) \<Rightarrow>
               (Some \<lparr>cipher = c, mac = md, window = 0, salt = [0, 0, 0, 0]\<rparr>, w2)
           | (None, w2) \<Rightarrow> (None, gcry_cipher_close G c w2)))"

definition encr_cipher :: "int \<Rightarrow> gcry_cipher_algo option" where
  "encr_cipher encr =
     (if encr = SRTP_ENCR_NULL then Some GCRY_CIPHER_NONE
      else if encr = SRTP_ENCR_AES_CM then Some GCRY_CIPHER_AES
      else None)"

definition auth_md :: "int \<Rightarrow> gcry_md_algo option" where
  "auth_md auth =
     (if auth = SRTP_AUTH_NULL then Some GCRY_MD_NONE
      else if auth = SRTP_AUTH_HMAC_SHA1 then Some GCRY_MD_SHA1
      else None)"

definition srtp_create ::
  "('c, 'm, 'w) gcrypt \<Rightarrow> int \<Rightarrow> int \<Rightarrow> u32 \<Rightarrow> int \<Rightarrow> u32 \<Rightarrow> 'w \<Rightarrow>
   ('c, 'm) srtp_session option \<times> 'w" where
  "srtp_create G encr auth tlen prfn fl w =
     (if fl AND NOT SRTP_FLAGS_MASK \<noteq> 0 then (None, w)
      else case encr_cipher encr of None \<Rightarrow> (None, w) | Some ciph \<Rightarrow>
      (case auth_md auth of None \<Rightarrow> (None, w) | Some md \<Rightarrow>
      if unat tlen > gcry_md_get_algo_dlen G md then (None, w)
      else if prfn \<noteq> SRTP_PRF_AES_CM then (None, w)
      else case c_malloc G w of (False, w1) \<Rightarrow> (None, w1) | (True, w1) \<Rightarrow>
      if drop_bit 4 fl AND 3 \<noteq> 0 \<and> tlen < 4 then (None, c_free G w1)
      else case proto_create G ciph md w1 of
             (None, w2) \<Rightarrow> (None, c_free G w2)
           | (Some p, w2) \<Rightarrow>
               (case proto_create G ciph md w2 of
                  (None, w3) \<Rightarrow> (None, c_free G (proto_destroy G p w3))
                | (Some q, w3) \<Rightarrow>
                    (Some \<lparr>rtp = p, rtcp = q, flags = fl, kdr = 0, rtcp_index = 0,
                           rtp_roc = 0, rtp_seq = 0, rtp_rcc = 1, tag_len = ucast tlen\<rparr>,
                     w3))))"

definition srtp_setrcc_rate ::
  "('c, 'm) srtp_session \<Rightarrow> u16 \<Rightarrow> ('c, 'm) srtp_session outcome" where
  "srtp_setrcc_rate s rate = (if rate = 0 then Aborted else Done (s\<lparr>rtp_rcc := rate\<rparr>))"

section \<open>Well-formed sessions\<close>

definition srtp_wf :: "('c, 'm) srtp_session \<Rightarrow> bool" where
  "srtp_wf s \<longleftrightarrow>
     flags s AND NOT SRTP_FLAGS_MASK = 0 \<and>
     (rcc_mode s \<noteq> 0 \<longrightarrow> 4 \<le> unat (tag_len s)) \<and>
     rtp_rcc s \<noteq> 0 \<and>
     rtcp_index s < 0x80000000 \<and>
     length (salt (rtp s)) = 4 \<and> length (salt (rtcp s)) = 4"

definition srtp_fresh :: "('c, 'm) srtp_session \<Rightarrow> bool" where
  "srtp_fresh s \<longleftrightarrow> rtp_roc s = 0 \<and> rtp_seq s = 0 \<and> rtcp_index s = 0 \<and>
     window (rtp s) = 0 \<and> window (rtcp s) = 0"

lemma proto_create_Some:
  assumes "proto_create G gc gm w = (Some p, w')"
  shows "window p = 0" and "salt p = [0, 0, 0, 0]"
  using assms by (auto simp: proto_create_def split: prod.splits option.splits)

lemma srtp_create_Some_cases:
  assumes "srtp_create G encr auth tlen prfn fl w = (Some s, w')"
  obtains ciph md w1 p w2 q where
    "fl AND NOT SRTP_FLAGS_MASK = 0" "encr_cipher encr = Some ciph" "auth_md auth = Some md"
    "unat tlen \<le> gcry_md_get_algo_dlen G md" "prfn = SRTP_PRF_AES_CM"
    "c_malloc G w = (True, w1)" "drop_bit 4 fl AND 3 \<noteq> 0 \<longrightarrow> 4 \<le> tlen"
    "proto_create G ciph md w1 = (Some p, w2)" "proto_create G ciph md w2 = (Some q, w')"
    "s = \<lparr>rtp = p, rtcp = q, flags = fl, kdr = 0, rtcp_index = 0, rtp_roc = 0, rtp_seq = 0,
          rtp_rcc = 1, tag_len = ucast tlen\<rparr>"
  using assms
  by (auto simp: srtp_create_def not_less split: if_splits option.splits prod.splits bool.splits)

lemma unat_tag_len_byte:
  assumes "unat (tlen :: u32) \<le> 64"
  shows "unat (ucast tlen :: byte) = unat tlen"
  using assms by (simp add: unsigned_ucast_eq take_bit_nat_eq_self)

lemma srtp_create_wf_aux:
  assumes "srtp_create G encr auth tlen prfn fl w = (Some s, w')"
    and "\<And>md. gcry_md_get_algo_dlen G md \<le> 64"
  shows "srtp_wf s" and "srtp_fresh s" and "rtp_rcc s = 1" and "unat (tag_len s) = unat tlen"
    and "flags s = fl"
proof -
  from assms(1) obtain ciph md w1 p w2 q where
    c: "fl AND NOT SRTP_FLAGS_MASK = 0" "drop_bit 4 fl AND 3 \<noteq> 0 \<longrightarrow> 4 \<le> tlen"
      "unat tlen \<le> gcry_md_get_algo_dlen G md"
      "proto_create G ciph md w1 = (Some p, w2)" "proto_create G ciph md w2 = (Some q, w')"
      "s = \<lparr>rtp = p, rtcp = q, flags = fl, kdr = 0, rtcp_index = 0, rtp_roc = 0, rtp_seq = 0,
          rtp_rcc = 1, tag_len = ucast tlen\<rparr>"
    by (rule srtp_create_Some_cases)
  have t: "unat (ucast tlen :: byte) = unat tlen"
    by (rule unat_tag_len_byte) (use c(3) assms(2)[of md] in linarith)
  have "4 \<le> tlen \<Longrightarrow> 4 \<le> unat tlen"
    by (simp add: word_le_nat_alt)
  with c t show "srtp_wf s" by (auto simp: srtp_wf_def rcc_mode_def dest: proto_create_Some)
  show "srtp_fresh s" using c by (auto simp: srtp_fresh_def dest: proto_create_Some)
  show "rtp_rcc s = 1" "unat (tag_len s) = unat tlen" "flags s = fl" using c t by simp_all
qed

section \<open>Resources\<close>

lemma proto_create_resources:
  assumes "resource_count G handles blocks" and "proto_create G gc gm w = (r, w')"
  shows "handles w' = handles w + (if r = None then 0 else 2) \<and> blocks w' = blocks w"
  using assms unfolding resource_count_def proto_create_def
  by (auto split: prod.splits option.splits)

lemma proto_destroy_resources:
  assumes "resource_count G handles blocks"
  shows "handles (proto_destroy G p w) = handles w - 2" and "blocks (proto_destroy G p w) = blocks w"
  using assms by (simp_all add: resource_count_def proto_destroy_def)

lemma malloc_resources:
  assumes "resource_count G handles blocks" and "c_malloc G w = (r, w')"
  shows "handles w' = handles w \<and> blocks w' = blocks w + (if r then 1 else 0)"
  using assms by (simp_all add: resource_count_def)

lemma free_resources:
  assumes "resource_count G handles blocks"
  shows "handles (c_free G w) = handles w" and "blocks (c_free G w) = blocks w - 1"
  using assms by (simp_all add: resource_count_def)

section \<open>Properties\<close>

text \<open>
  A session that \<open>srtp_create\<close> returns is well formed and in its initial state: flags
  inside the mask, at least four tag bytes in every RCC mode, RCC rate one, all counters
  and replay windows zero, and the tag length the caller asked for (it survives the
  narrowing to \<open>uint8_t\<close>).
\<close>

theorem srtp_create_wf:
  assumes "srtp_create G encr auth tlen prfn fl w = (Some s, w')"
    and "\<And>md. gcry_md_get_algo_dlen G md \<le> 64"
  shows "srtp_wf s \<and> srtp_fresh s \<and> rtp_rcc s = 1 \<and> unat (tag_len s) = unat tlen \<and> flags s = fl"
  using srtp_create_wf_aux [OF assms] by simp

lemma stub_dlen: "gcry_md_get_algo_dlen stub_gcrypt md \<le> 64"
  by (cases md) (simp_all add: stub_gcrypt_def)

lemmas create_eval = srtp_create_def proto_create_def stub_gcrypt_def stub_rich_def
  encr_cipher_def auth_md_def flag_defs algo_defs

definition stub_proto :: "(stub_cipher, stub_md) srtp_proto" where
  "stub_proto = \<lparr>cipher = (None, [], 0), mac = (None, []), window = 0, salt = [0, 0, 0, 0]\<rparr>"

definition stub_session :: "(stub_cipher, stub_md) srtp_session" where
  "stub_session = \<lparr>rtp = stub_proto, rtcp = stub_proto, flags = 0x10, kdr = 0, rtcp_index = 0,
     rtp_roc = 0, rtp_seq = 0, rtp_rcc = 1, tag_len = 10\<rparr>"

lemma stub_create:
  "srtp_create stub_gcrypt 1 1 10 0 0x10 (0, 0, 8) = (Some stub_session, (4, 1, 8))"
  by (simp add: create_eval stub_session_def stub_proto_def)

theorem srtp_create_wf_witness: "srtp_wf stub_session \<and> srtp_fresh stub_session"
  using srtp_create_wf [OF stub_create stub_dlen] by simp

text \<open>
  Whatever \<open>srtp_create\<close> runs into (bad arguments, no memory, a library open that
  fails at any of its four calls), it gives back everything it took: a \<open>NULL\<close> return
  leaves the numbers of open handles and of allocated blocks as they were, a session
  accounts for exactly four handles and one block.
\<close>

theorem srtp_create_no_leak:
  assumes rc: "resource_count G handles blocks"
    and "srtp_create G encr auth tlen prfn fl w = (r, w')"
  shows "handles w' = handles w + (if r = None then 0 else 4) \<and>
    blocks w' = blocks w + (if r = None then 0 else 1)"
  using assms(2) unfolding srtp_create_def
  by (auto split: if_splits option.splits prod.splits bool.splits
      simp: proto_destroy_resources [OF rc] free_resources [OF rc]
      dest!: malloc_resources [OF rc] proto_create_resources [OF rc])

text \<open>In the witness the third of the four opens fails, so the inner error path runs.\<close>

theorem srtp_create_no_leak_witness:
  "srtp_create stub_gcrypt 1 1 10 0 0 (0, 0, 2) = (None, (0, 0, 2))"
proof -
  have c: "srtp_create stub_gcrypt 1 1 10 0 0 (0, 0, 2) = (None, (0, 0, 2))"
    by (simp add: create_eval proto_destroy_def)
  from srtp_create_no_leak [OF stub_resource_count c] c show ?thesis by simp
qed

text \<open>
  Creating a session and destroying it again leaves the process with the handles and
  blocks it had: \<open>srtp_destroy\<close> releases exactly what \<open>srtp_create\<close> took.
\<close>

theorem srtp_create_destroy:
  assumes rc: "resource_count G handles blocks"
    and c: "srtp_create G encr auth tlen prfn fl w = (Some s, w1)"
  shows "\<exists>w2. srtp_destroy G (Some s) w1 = Done w2 \<and> handles w2 = handles w \<and> blocks w2 = blocks w"
proof -
  from c have "handles w1 = handles w + 4 \<and> blocks w1 = blocks w + 1"
    by (elim srtp_create_Some_cases)
      (auto dest!: malloc_resources [OF rc] proto_create_resources [OF rc])
  then show ?thesis
    by (simp add: srtp_destroy_def proto_destroy_resources [OF rc] free_resources [OF rc])
qed

theorem srtp_create_destroy_witness:
  "srtp_destroy stub_gcrypt (Some stub_session) (4, 1, 8) = Done (0, 0, 8)"
proof -
  from srtp_create_destroy [OF stub_resource_count stub_create]
  obtain w2 where "srtp_destroy stub_gcrypt (Some stub_session) (4, 1, 8) = Done w2"
    and "fst w2 = 0" and "(case w2 of (n, b, cap) \<Rightarrow> b) = 0"
    by auto
  then show ?thesis
    by (auto simp: srtp_destroy_def proto_destroy_def stub_gcrypt_def)
qed

lemma grants_proto_create:
  assumes "grants_all G"
  shows "\<exists>p v. proto_create G c d u = (Some p, v)"
proof -
  from assms obtain h v where h: "gcry_cipher_open G c GCRY_CIPHER_MODE_CTR 0 u = (Some h, v)"
    unfolding grants_all_def by (metis not_None_eq prod.collapse)
  from assms obtain k v' where "gcry_md_open G d GCRY_MD_FLAG_HMAC v = (Some k, v')"
    unfolding grants_all_def by (metis not_None_eq prod.collapse)
  with h show ?thesis by (simp add: proto_create_def)
qed

text \<open>
  In a process that is not short of memory or handles, \<open>srtp_create\<close> accepts exactly
  the documented arguments: known flags, NULL or AES-CM encryption, NULL or HMAC-SHA1
  authentication, a tag no longer than the digest, the AES-CM PRF, and four tag bytes at
  least when an RCC mode is selected.
\<close>

theorem srtp_create_accepts:
  assumes "grants_all G"
  shows "(\<exists>s w'. srtp_create G encr auth tlen prfn fl w = (Some s, w')) \<longleftrightarrow>
    fl AND NOT SRTP_FLAGS_MASK = 0 \<and> encr \<in> {SRTP_ENCR_NULL, SRTP_ENCR_AES_CM} \<and>
    (\<exists>md. auth_md auth = Some md \<and> unat tlen \<le> gcry_md_get_algo_dlen G md) \<and>
    prfn = SRTP_PRF_AES_CM \<and> (drop_bit 4 fl AND 3 \<noteq> 0 \<longrightarrow> 4 \<le> tlen)"
    (is "?L \<longleftrightarrow> ?R")
proof
  assume ?L
  then show ?R by (elim exE srtp_create_Some_cases) (auto simp: encr_cipher_def split: if_splits)
next
  assume R: ?R
  then obtain md where a: "auth_md auth = Some md" "unat tlen \<le> gcry_md_get_algo_dlen G md"
    by blast
  from R have "encr_cipher encr \<noteq> None" by (auto simp: encr_cipher_def)
  then obtain ciph where e: "encr_cipher encr = Some ciph" by blast
  have pc: "\<exists>p v. proto_create G c d u = (Some p, v)" for c d u
    by (rule grants_proto_create [OF assms])
  obtain w1 where "c_malloc G w = (True, w1)"
    using assms unfolding grants_all_def by (metis prod.collapse)
  moreover obtain p w2 where "proto_create G ciph md w1 = (Some p, w2)" using pc by blast
  moreover obtain q w3 where "proto_create G ciph md w2 = (Some q, w3)" using pc by blast
  ultimately show ?L using R a e by (auto simp: srtp_create_def not_less)
qed

theorem srtp_create_accepts_witness:
  "\<exists>s w'. srtp_create stub_rich 1 1 10 0 0 (0, 0, 0) = (Some s, w')"
  using srtp_create_accepts [OF stub_rich_grants_all, of 1 1 10 0 0 "(0, 0, 0)"]
  by (simp add: stub_rich_def stub_gcrypt_def auth_md_def flag_defs algo_defs)

end
