(* ===== verification/Srtp_Cipher.thy ===== *)
theory Srtp_Cipher
  imports Srtp_Session
begin

text \<open>
  Counter mode encryption: \<open>do_ctr_crypt\<close>, \<open>rtp_crypt\<close> and \<open>rtcp_crypt\<close> of \<open>srtp.c\<close>. On a
  keyed handle the routine, which encrypts whole blocks in place and the truncated last
  block through a stack buffer, is shown to XOR exactly the key stream onto exactly the
  bytes it was given; the counter block is shown to be the one of RFC 3711 section 4.1.1.
  The locale \<open>block_transform\<close> is the contract the packet layer relies on.
\<close>

section \<open>The code\<close>

text \<open>
  \<open>div\<close> takes \<open>int\<close>s: a length that does not fit one is outside what the code can handle.
  The last call of \<open>gcry_cipher_encrypt\<close> has \<open>dummy\<close> as its output and \<open>data\<close> as its
  input, 16 bytes of it: what \<open>memcpy\<close> and \<open>memset\<close> put into \<open>dummy\<close> is overwritten, and the
  bytes from \<open>data + len\<close> to the end of the block are read. Behind the end of the caller's array C
  leaves that undefined; memory is flat here, so that the model reads whatever bytes are there.
\<close>

definition do_ctr_crypt ::
  "('c, 'm, 'w) gcrypt \<Rightarrow> 'c \<Rightarrow> bytes \<Rightarrow> mem \<Rightarrow> nat \<Rightarrow> nat \<Rightarrow> (int \<times> 'c \<times> mem) outcome" where
  "do_ctr_crypt G h ctr m data len =
     (if \<not> len < 2 ^ 31 then Undefined
      else let quot = len div 16; rem = len mod 16 in
      case gcry_cipher_setctr G h ctr of (e1, h1) \<Rightarrow>
      if e1 \<noteq> 0 then Done (-1, h1, m)
      else case gcry_cipher_encrypt G h1 (mread m data (quot * 16)) of (e2, out, h2) \<Rightarrow>
      let m1 = mwrite m data (fill (mread m data (quot * 16)) out) in
      if e2 \<noteq> 0 then Done (-1, h2, m1)
      else if rem = 0 then Done (0, h2, m1)
      else let data1 = data + quot * 16;
               dummy = mread m1 data1 rem @ replicate (16 - rem) 0 in
      case gcry_cipher_encrypt G h2 (mread m1 data1 16) of (e3, out3, h3) \<Rightarrow>
      if e3 \<noteq> 0 then Done (-1, h3, m1)
      else Done (0, h3, mwrite m1 data1 (take rem (fill dummy out3))))"

text \<open>
  \<open>seq << 16\<close> shifts an \<open>int\<close> into its sign bit for large sequence numbers. C leaves that undefined;
  compilers give the value of the unsigned shift, as it is here.
\<close>

definition rtp_counter :: "u32 \<Rightarrow> u32 \<Rightarrow> u16 \<Rightarrow> u32 list \<Rightarrow> u32 list" where
  "rtp_counter ssrc roc seq slt =
     [slt ! 0, slt ! 1 XOR ssrc, slt ! 2 XOR htonl roc,
      slt ! 3 XOR htonl (push_bit 16 (ucast seq))]"

definition rtp_crypt ::
  "('c, 'm, 'w) gcrypt \<Rightarrow> 'c \<Rightarrow> u32 \<Rightarrow> u32 \<Rightarrow> u16 \<Rightarrow> u32 list \<Rightarrow> mem \<Rightarrow> nat \<Rightarrow> nat \<Rightarrow>
   (int \<times> 'c \<times> mem) outcome" where
  "rtp_crypt G h ssrc roc seq slt m data len =
     do_ctr_crypt G h (concat (map u32_store (rtp_counter ssrc roc seq slt))) m data len"

definition rtcp_crypt ::
  "('c, 'm, 'w) gcrypt \<Rightarrow> 'c \<Rightarrow> u32 \<Rightarrow> u32 \<Rightarrow> u32 list \<Rightarrow> mem \<Rightarrow> nat \<Rightarrow> nat \<Rightarrow>
   (int \<times> 'c \<times> mem) outcome" where
  "rtcp_crypt G h ssrc index slt m data len =
     rtp_crypt G h ssrc (drop_bit 16 index) (ucast (index AND 0xffff)) slt m data len"

section \<open>Contract: a transformation of one memory block\<close>

locale block_transform =
  fixes T :: "mem \<Rightarrow> nat \<Rightarrow> nat \<Rightarrow> mem"
  assumes outside: "i < a \<or> a + n \<le> i \<Longrightarrow> T m a n i = m i"
    and involution: "T (T m a n) a n = m"
    and local_mwrite: "b + length bs \<le> a \<or> a + n \<le> b \<Longrightarrow>
          T (mwrite m b bs) a n = mwrite (T m a n) b bs"
begin

lemma mread_outside: "b + k \<le> a \<or> a + n \<le> b \<Longrightarrow> mread (T m a n) b k = mread m b k"
  by (rule mread_cong) (auto intro!: outside)

text \<open>What follows the block (a tag, a counter) may be written between the two passes.\<close>

lemma undo_under_write:
  assumes "b + length bs \<le> a \<or> a + n \<le> b"
  shows "T (mwrite (T m a n) b bs) a n = mwrite m b bs"
  using assms by (simp add: local_mwrite involution)

lemma undo_prefix:
  assumes "a + n \<le> b"
  shows "mread (T (mwrite (T m a n) b bs) a n) 0 b = mread m 0 b"
  using assms by (simp add: undo_under_write mread_mwrite_disjoint)

end

section \<open>XOR with a key stream\<close>

definition ctr_apply :: "(nat \<Rightarrow> byte) \<Rightarrow> mem \<Rightarrow> nat \<Rightarrow> nat \<Rightarrow> mem" where
  "ctr_apply f m a n = mwrite m a (xor_bytes (mread m a n) (map f [0..<n]))"

lemma ctr_apply_at: "ctr_apply f m a n i =
    (if a \<le> i \<and> i < a + n then m i XOR f (i - a) else m i)"
  by (auto simp: ctr_apply_def mwrite_def)

interpretation ctr: block_transform "ctr_apply f" for f
  by unfold_locales (auto simp: ctr_apply_at mwrite_def fun_eq_iff xor.assoc)

lemma ctr_apply_split: "ctr_apply f m a (k + n) = ctr_apply (\<lambda>i. f (k + i)) (ctr_apply f m a k) (a + k) n"
  by (rule ext) (auto simp: ctr_apply_at)

lemma do_ctr_crypt_ctr:
  assumes G: "ctr_cipher G key strm ks" and k: "key h = Some k"
    and c: "length c = 16" and len: "len < 2 ^ 31"
  shows "\<exists>h'. do_ctr_crypt G h c m a len = Done (0, h', ctr_apply (ks k c) m a len) \<and> key h' = Some k"
proof -
  let ?q = "len div 16 * 16" and ?r = "len mod 16"
  obtain e1 h1 where 1: "gcry_cipher_setctr G h c = (e1, h1)" by fastforce
  from ctr_setctrD [OF G 1 k c] have s1: "e1 = 0" "key h1 = Some k" "strm h1 = ks k c" by auto
  obtain e2 o2 h2 where 2: "gcry_cipher_encrypt G h1 (mread m a ?q) = (e2, o2, h2)"
    by (metis prod_cases3)
  from ctr_encryptD [OF G 2 s1(2)] have s2: "e2 = 0" "key h2 = Some k"
      "strm h2 = (\<lambda>i. ks k c (?q + i))" "o2 = xor_bytes (mread m a ?q) (map (ks k c) [0..<?q])"
    by (simp_all add: s1(3))
  define m1 where "m1 = ctr_apply (ks k c) m a ?q"
  have m1: "mwrite m a (fill (mread m a ?q) o2) = m1"
    by (simp add: m1_def ctr_apply_def s2(4) fill_same)
  show ?thesis
  proof (cases "?r = 0")
    case True
    then have "?q = len" by auto
    with True show ?thesis using len s1 s2 m1 2
      by (auto simp: do_ctr_crypt_def 1 m1_def)
  next
    case False
    obtain e3 o3 h3 where 3: "gcry_cipher_encrypt G h2 (mread m1 (a + ?q) 16) = (e3, o3, h3)"
      by (metis prod_cases3)
    from ctr_encryptD [OF G 3 s2(2)] have s3: "e3 = 0" "key h3 = Some k"
        "o3 = xor_bytes (mread m1 (a + ?q) 16) (map (\<lambda>i. ks k c (?q + i)) [0..<16])"
      by (simp_all add: s2(3))
    have "take ?r o3 = xor_bytes (mread m1 (a + ?q) ?r) (map (\<lambda>i. ks k c (?q + i)) [0..<?r])"
      by (simp add: s3(3) take_xor_bytes take_mread take_map)
    then have "mwrite m1 (a + ?q) (take ?r o3) = ctr_apply (ks k c) m a (?q + ?r)"
      unfolding ctr_apply_split [of _ _ _ ?q ?r] by (simp add: m1_def flip: ctr_apply_def)
    moreover have "fill (mread m1 (a + ?q) ?r @ replicate (16 - ?r) 0) o3 = o3"
      using s3(3) by (intro fill_same) auto
    moreover have "?q + ?r = len" by simp
    ultimately show ?thesis using False len s1 s2(1,2) s3(1,2)
      by (auto simp: do_ctr_crypt_def 1 2 3 m1 Let_def)
  qed
qed

text \<open>Whatever the library does, nothing outside the data is written.\<close>

lemma do_ctr_crypt_frame:
  assumes "do_ctr_crypt G h c m a len = Done (r, h', m')" and "i < a \<or> a + len \<le> i"
  shows "m' i = m i"
proof -
  have q: "len div 16 * 16 + len mod 16 = len" by simp
  then have "a + len \<le> i \<Longrightarrow> a + len div 16 * 16 \<le> i" by linarith
  with assms q show ?thesis
    by (auto simp: do_ctr_crypt_def Let_def mwrite_outside split: if_splits prod.splits)
qed

lemma do_ctr_crypt_returns: "len < 2 ^ 31 \<Longrightarrow> returns (do_ctr_crypt G h c m a len)"
  by (simp add: do_ctr_crypt_def Let_def split: prod.splits)

section \<open>The counter block\<close>

text \<open>A byte string read as one 128 bit number, most significant byte first.\<close>

definition be_word128 :: "bytes \<Rightarrow> 128 word" where
  "be_word128 bs = foldl (\<lambda>acc b. push_bit 8 acc XOR ucast b) 0 bs"

lemma be_word128_Nil [simp]: "be_word128 [] = 0"
  by (simp add: be_word128_def)

lemma be_word128_snoc: "be_word128 (xs @ [b]) = push_bit 8 (be_word128 xs) XOR ucast b"
  by (simp add: be_word128_def)

lemma be_word128_append:
  "be_word128 (xs @ ys) = push_bit (8 * length ys) (be_word128 xs) XOR be_word128 ys"
proof (induction ys rule: rev_induct)
  case Nil
  then show ?case by simp
next
  case (snoc y ys)
  have "be_word128 (xs @ ys @ [y]) = push_bit 8 (be_word128 (xs @ ys)) XOR ucast y"
    using be_word128_snoc [of "xs @ ys" y] by simp
  then show ?case by (simp add: snoc.IH be_word128_snoc push_bit_xor xor.assoc add.commute)
qed

lemma be_word128_xor:
  "length xs = length ys \<Longrightarrow> be_word128 (xor_bytes xs ys) = be_word128 xs XOR be_word128 ys"
proof (induction xs arbitrary: ys rule: rev_induct)
  case Nil
  then show ?case by (simp add: xor_bytes_def)
next
  case (snoc x xs)
  then obtain y zs where "ys = zs @ [y]" "length zs = length xs"
    by (metis length_append_singleton length_Suc_conv_rev)
  with snoc.IH [of zs] show ?case
    by (simp add: xor_bytes_append) (simp add: xor_bytes_def be_word128_snoc push_bit_xor
      unsigned_xor_eq ac_simps)
qed

lemma be_word128_zeros [simp]: "be_word128 (replicate n 0) = 0"
  by (induction n) (simp_all add: be_word128_snoc flip: replicate_append_same)

lemma be_word128_be_bytes32: "be_word128 (be_bytes32 w) = ucast w"
proof (rule bit_word_eqI)
  fix n :: nat
  consider "n < 8" | "8 \<le> n" "n < 16" | "16 \<le> n" "n < 24" | "24 \<le> n" "n < 32" | "32 \<le> n"
    by fastforce
  then show "bit (be_word128 (be_bytes32 w)) n = bit (ucast w :: 128 word) n"
    by cases (auto simp: be_word128_def be_bytes32_def bit_simps dest: bit_imp_le_length)
qed

lemma rtp_counter_bytes:
  assumes "length slt = 4"
  shows "concat (map u32_store (rtp_counter ssrc roc seq slt)) =
    xor_bytes (concat (map u32_store slt))
      (replicate 4 0 @ u32_store ssrc @ be_bytes32 roc @ be_bytes32 (push_bit 16 (ucast seq)))"
proof -
  from assms obtain a b c d where s: "slt = [a, b, c, d]" by (rule length_4_cases)
  have z: "xor_bytes xs (replicate 4 0) = xs" if "length xs = 4" for xs
    using that by (intro nth_equalityI) auto
  show ?thesis
    by (simp add: s rtp_counter_def u32_store_xor xor_bytes_append z)
qed

lemma be_word128_seq: "ucast (push_bit 16 (ucast (seq :: u16) :: u32)) = (push_bit 16 (ucast seq) :: 128 word)"
  by (auto simp: bit_eq_iff bit_simps dest: bit_imp_le_length)

section \<open>Properties\<close>

text \<open>
  Counter block of RFC 3711: for session salt \<open>k_s\<close> (14 bytes, stored in the session
  with two zero bytes after it), \<open>rtp_crypt\<close> runs the cipher from the block
  \<open>(k_s * 2^16) XOR (SSRC * 2^64) XOR (i * 2^16)\<close>, where \<open>i = ROC * 2^16 + SEQ\<close> is the packet
  index and \<open>SSRC\<close> is the synchronisation source as the packet carries it.
\<close>

theorem rtp_counter_rfc3711:
  assumes "length slt = 4" and "concat (map u32_store slt) = k_s @ [0, 0]"
  shows "be_word128 (concat (map u32_store (rtp_counter ssrc roc seq slt))) =
    push_bit 16 (be_word128 k_s) XOR push_bit 64 (be_word128 (u32_store ssrc)) XOR
    push_bit 16 (push_bit 16 (ucast roc) XOR ucast seq)"
proof -
  have "length k_s = 14"
    using arg_cong [OF assms(2), of length] assms(1) by (auto simp: elim!: length_4_cases)
  moreover have "be_word128 (k_s @ [0, 0]) = push_bit 16 (be_word128 k_s)"
    using be_word128_append [of k_s "[0, 0]"] be_word128_zeros [of 2]
    by (simp add: numeral_eq_Suc)
  ultimately show ?thesis
    using assms
    by (simp add: rtp_counter_bytes be_word128_xor be_word128_append be_word128_be_bytes32
        be_word128_seq push_bit_xor ac_simps)
qed

theorem rtp_counter_rfc3711_witness:
  "be_word128 (concat (map u32_store (rtp_counter 0x04030201 7 9 [1, 2, 3, 4]))) =
    push_bit 16 (be_word128 [1, 0, 0, 0, 2, 0, 0, 0, 3, 0, 0, 0, 4, 0]) XOR
    push_bit 64 0x01020304 XOR push_bit 16 (7 * 65536 + 9)"
proof -
  have "concat (map u32_store [1, 2, 3, 4]) = [1, 0, 0, 0, 2, 0, 0, 0, 3, 0, 0, 0, 4, 0] @ [0, 0]"
    by (simp add: u32_store_def)
  from rtp_counter_rfc3711 [OF _ this, where ssrc = "0x04030201" and roc = 7 and seq = 9] show ?thesis
    by (simp add: be_word128_def u32_store_def)
qed

text \<open>
  (C19) \<open>rtp_crypt\<close> on a keyed handle succeeds for every payload length (whole blocks or
  not), replaces the payload by its XOR with the key stream of the counter block, changes
  nothing outside the payload, and keeps the handle keyed. In particular the bytes it
  reads behind the payload have no influence.
\<close>

theorem rtp_crypt_xors_stream:
  assumes "ctr_cipher G key strm ks" and "key h = Some k" and "length slt = 4"
    and "len < 2 ^ 31"
  shows "\<exists>h' m'. rtp_crypt G h ssrc roc seq slt m data len = Done (0, h', m') \<and> key h' = Some k \<and>
    (\<forall>i. m' i = (if data \<le> i \<and> i < data + len
                 then m i XOR ks k (concat (map u32_store (rtp_counter ssrc roc seq slt))) (i - data)
                 else m i))"
proof -
  have "length (concat (map u32_store (rtp_counter ssrc roc seq slt))) = 16"
    by (simp add: rtp_counter_def)
  from do_ctr_crypt_ctr [OF assms(1,2) this assms(4), of m data] show ?thesis
    by (auto simp: rtp_crypt_def ctr_apply_at)
qed

text \<open>In the witness 19 bytes are encrypted, one whole block and a truncated one.\<close>

theorem rtp_crypt_xors_stream_witness:
  "\<exists>h' m'. rtp_crypt stub_gcrypt (Some [1, 2], [], 0) 5 6 7 [1, 2, 3, 4] (\<lambda>i. of_nat i) 12 19 =
      Done (0, h', m') \<and> m' 11 = 11 \<and> m' 31 = 31 \<and> m' 12 \<noteq> 12"
proof -
  obtain h' m' where r: "rtp_crypt stub_gcrypt (Some [1, 2], [], 0) 5 6 7 [1, 2, 3, 4]
        (\<lambda>i. of_nat i) 12 19 = Done (0, h', m')"
    and m: "\<forall>i. m' i = (if 12 \<le> i \<and> i < 12 + 19 then of_nat i XOR
          stub_ks [1, 2] (concat (map u32_store (rtp_counter 5 6 7 [1, 2, 3, 4]))) (i - 12)
        else of_nat i)"
    using rtp_crypt_xors_stream [OF stub_ctr_cipher, of "(Some [1, 2], [], 0)" "[1, 2]"
        "[1, 2, 3, 4]" 19 5 6 7 "\<lambda>i. of_nat i" 12] by auto
  have "stub_ks [1, 2] (concat (map u32_store (rtp_counter 5 6 7 [1, 2, 3, 4]))) 0 = 87"
    by (simp add: stub_ks_def rtp_counter_def u32_store_def htonl_def be_bytes32_def)
  with r m show ?thesis by (intro exI [of _ h'] exI [of _ m']) simp
qed

text \<open>
  \<open>do_ctr_crypt\<close> reads behind the data: for the 20 byte key buffer of
  \<open>srtp_setkey\<close> two memories that agree on the buffer can lead a library to different
  results, because the last call passes 16 bytes from \<open>data + 16\<close> on. (Counter mode
  discards what it computes from them, which is why \<open>rtp_crypt_xors_stream\<close> holds.)
\<close>

theorem do_ctr_crypt_overread:
  "\<exists>(G :: (stub_cipher, stub_md, stub_world) gcrypt) h c m m' r r'.
     mread m 0 20 = mread m' 0 20 \<and>
     do_ctr_crypt G h c m 0 20 = Done r \<and> do_ctr_crypt G h c m' 0 20 = Done r' \<and>
     mread (snd (snd r)) 0 20 \<noteq> mread (snd (snd r')) 0 20"
proof -
  let ?G = "stub_gcrypt\<lparr>gcry_cipher_encrypt := (\<lambda>h xs. (0, map (\<lambda>_. last xs) xs, h))\<rparr>"
  let ?c = "replicate 16 (0 :: byte)"
  let ?m = "\<lambda>i :: nat. 0 :: byte" and ?m' = "\<lambda>i :: nat. if i < 20 then 0 else 1 :: byte"
  have *: "\<exists>r. do_ctr_crypt ?G (None, [], 0) ?c m 0 20 = Done r \<and> snd (snd r) 19 = m 31" for m
    by (simp add: do_ctr_crypt_def stub_gcrypt_def Let_def fill_same)
      (simp add: mwrite_def last_conv_nth fill_def)
  obtain r where r: "do_ctr_crypt ?G (None, [], 0) ?c ?m 0 20 = Done r" "snd (snd r) 19 = 0"
    using * [of ?m] by auto
  obtain r' where r': "do_ctr_crypt ?G (None, [], 0) ?c ?m' 0 20 = Done r'" "snd (snd r') 19 = 1"
    using * [of ?m'] by auto
  have "mread (snd (snd r)) 0 20 ! 19 \<noteq> mread (snd (snd r')) 0 20 ! 19"
    using r(2) r'(2) by simp
  then have "mread (snd (snd r)) 0 20 \<noteq> mread (snd (snd r')) 0 20" by metis
  moreover have "mread ?m 0 20 = mread ?m' 0 20" by (rule mread_cong) simp
  ultimately show ?thesis using r(1) r'(1) by (intro exI conjI)
qed

end
