(* ===== verification/Srtp_Replay.thy ===== *)
theory Srtp_Replay
  imports Srtp_Session
begin

text \<open>
  Packet indices and replay protection of \<open>srtp.c\<close>: \<open>srtp_compute_roc\<close> and the part of
  \<open>srtp_crypt\<close> that updates the roll-over counter, the highest sequence number and the 64
  packet window. The roll-over counter is shown to be the one of RFC 3711's index guess; the
  window is shown to implement a set of accepted indices. The locale \<open>replay_filter\<close> is the
  contract between a replay window and a receiver: what it promises about one packet, and
  what follows for a whole run.
\<close>

section \<open>The code\<close>

definition srtp_compute_roc :: "('c, 'm) srtp_session \<Rightarrow> u16 \<Rightarrow> u32" where
  "srtp_compute_roc s seq =
     (if (uint seq - uint (rtp_seq s)) AND 0xffff < 0x8000
      then (if seq < rtp_seq s then rtp_roc s + 1 else rtp_roc s)
      else (if seq > rtp_seq s then rtp_roc s - 1 else rtp_roc s))"

text \<open>
  The update of \<open>srtp_crypt\<close>; \<open>diff\<close> is an \<open>int16_t\<close>. Shifting the 64 bit window by 64 or
  more, or by the negative count that \<open>diff = -diff\<close> leaves for \<open>-32768\<close>, is undefined.
\<close>

definition srtp_track_seq ::
  "('c, 'm) srtp_session \<Rightarrow> u16 \<Rightarrow> u32 \<Rightarrow> (int \<times> ('c, 'm) srtp_session) outcome" where
  "srtp_track_seq s seq roc =
     (let diff = sint (seq - rtp_seq s); win = window (rtp s) in
      if diff > 0 then
        (if diff \<ge> 64 then Undefined
         else Done (0, s\<lparr>rtp := (rtp s)\<lparr>window := push_bit (nat diff) win OR 1\<rparr>,
                         rtp_seq := seq, rtp_roc := roc\<rparr>))
      else
        (let diff = sint (word_of_int (- diff) :: u16) in
         if diff \<ge> 64 then Done (EACCES, s)
         else if diff < 0 then Undefined
         else if drop_bit (nat diff) win AND 1 \<noteq> 0 then Done (EACCES, s)
         else Done (0, s\<lparr>rtp := (rtp s)\<lparr>window := win OR push_bit (nat diff) 1\<rparr>\<rparr>)))"

section \<open>Contract: a replay window\<close>

text \<open>A receiver runs its filter over packets and records what it observes of the accepted.\<close>

fun filter_run ::
  "('s \<Rightarrow> 'p \<Rightarrow> (bool \<times> 's) outcome) \<Rightarrow> ('s \<Rightarrow> 'p \<Rightarrow> 'o) \<Rightarrow> 's \<Rightarrow> 'p list \<Rightarrow>
   ('o list \<times> 's) outcome" where
  "filter_run step obs s [] = Done ([], s)"
| "filter_run step obs s (p # ps) =
     obind (step s p) (\<lambda>(ok, s').
     obind (filter_run step obs s' ps) (\<lambda>(os, s'').
       Done (if ok then obs s p # os else os, s'')))"

text \<open>
  \<open>rel s h A\<close>: the state stands for the highest index \<open>h\<close> and the accepted indices \<open>A\<close>;
  \<open>off s p\<close> is the packet's index relative to \<open>h\<close>. A step may advance the highest index by
  63 at most; an accepted packet is a new one, among the last 64 or ahead.
\<close>

locale replay_filter =
  fixes step :: "'s \<Rightarrow> 'p \<Rightarrow> (bool \<times> 's) outcome"
    and rel :: "'s \<Rightarrow> int \<Rightarrow> int set \<Rightarrow> bool"
    and off :: "'s \<Rightarrow> 'p \<Rightarrow> int"
    and obs :: "'s \<Rightarrow> 'p \<Rightarrow> 'o"
    and obs_of :: "int \<Rightarrow> 'o"
    and period :: int
  assumes step_rel: "rel s h A \<Longrightarrow> step s p = Done (ok, s') \<Longrightarrow>
      \<exists>h' A'. rel s' h' A' \<and> h \<le> h' \<and> h' \<le> h + 63 \<and> A \<subseteq> A' \<and>
        (ok \<longrightarrow> h + off s p \<notin> A \<and> h + off s p \<in> A' \<and> h - 64 < h + off s p \<and> h + off s p \<le> h')"
    and obs_off: "rel s h A \<Longrightarrow> step s p = Done (True, s') \<Longrightarrow> obs s p = obs_of (h + off s p)"
    and obs_inj: "obs_of i = obs_of j \<Longrightarrow> \<bar>i - j\<bar> < period \<Longrightarrow> i = j"
begin

lemma run_indices:
  assumes "rel s h A" and "filter_run step obs s ps = Done (os, s')"
  shows "\<exists>is. os = map obs_of is \<and> distinct is \<and> set is \<inter> A = {} \<and>
    (\<forall>i \<in> set is. h - 64 < i \<and> i \<le> h + 63 * int (length ps))"
  using assms
proof (induction ps arbitrary: s h A os)
  case Nil
  then show ?case by auto
next
  case (Cons p ps)
  from Cons.prems(2) obtain ok s1 os1 where 1: "step s p = Done (ok, s1)"
      "filter_run step obs s1 ps = Done (os1, s')" "os = (if ok then obs s p # os1 else os1)"
    by auto
  from step_rel [OF Cons.prems(1) 1(1)] obtain h1 A1 where 2: "rel s1 h1 A1" "h \<le> h1" "h1 \<le> h + 63"
      "A \<subseteq> A1" "ok \<longrightarrow> h + off s p \<notin> A \<and> h + off s p \<in> A1 \<and> h - 64 < h + off s p \<and> h + off s p \<le> h1"
    by blast
  from Cons.IH [OF 2(1) 1(2)] obtain js where 3: "os1 = map obs_of js" "distinct js"
      "set js \<inter> A1 = {}" "\<forall>i \<in> set js. h1 - 64 < i \<and> i \<le> h1 + 63 * int (length ps)"
    by blast
  have 4: "\<forall>i \<in> set js. h - 64 < i \<and> i \<le> h + 63 * int (length (p # ps))"
    using 3(4) 2(2,3) by auto
  show ?case
  proof (cases ok)
    case True
    then have "os = map obs_of ((h + off s p) # js)"
      using 1 3(1) obs_off [OF Cons.prems(1)] by simp
    moreover have "h + off s p \<notin> set js \<and> h + off s p \<notin> A" using True 2(5) 3(3) by auto
    moreover have "h - 64 < h + off s p \<and> h + off s p \<le> h + 63 * int (length (p # ps))"
      using True 2(3,5) by auto
    ultimately show ?thesis
      using 3(2,3) 2(4) 4 by (intro exI [of _ "(h + off s p) # js"]) auto
  next
    case False
    then show ?thesis using 1(3) 3 2(4) 4 by (intro exI [of _ js]) auto
  qed
qed

lemma run_distinct:
  assumes "rel s h A" and "filter_run step obs s ps = Done (os, s')"
    and "63 * int (length ps) + 64 \<le> period"
  shows "distinct os"
proof -
  from run_indices [OF assms(1,2)] obtain js where js: "os = map obs_of js" "distinct js"
      "\<forall>i \<in> set js. h - 64 < i \<and> i \<le> h + 63 * int (length ps)"
    by blast
  have "inj_on obs_of (set js)"
  proof (rule inj_onI)
    fix i j assume "i \<in> set js" "j \<in> set js" and eq: "obs_of i = obs_of j"
    then have "h - 64 < i \<and> i \<le> h + 63 * int (length ps)" "h - 64 < j \<and> j \<le> h + 63 * int (length ps)"
      using js(3) by blast+
    then have "\<bar>i - j\<bar> < period" using assms(3) by linarith
    with eq show "i = j" by (rule obs_inj)
  qed
  with js show ?thesis by (simp add: distinct_map)
qed

end

section \<open>Indices\<close>

definition local_index :: "('c, 'm) srtp_session \<Rightarrow> int" where
  "local_index s = uint (rtp_roc s) * 65536 + uint (rtp_seq s)"

definition seq_off :: "('c, 'm) srtp_session \<Rightarrow> u16 \<Rightarrow> int" where
  "seq_off s seq = sint (seq - rtp_seq s)"

lemma sint_u16: "sint (w :: u16) = (if uint w < 32768 then uint w else uint w - 65536)"
proof -
  have b: "0 \<le> uint w" "uint w < 65536" using uint_range_size [of w] by (simp_all add: word_size)
  have "bit (uint w) 15 \<longleftrightarrow> \<not> uint w < 32768"
  proof (cases "uint w < 32768")
    case True
    with b show ?thesis by (simp add: bit_iff_odd)
  next
    case False
    with b have "uint w div 32768 = 1" by linarith
    with False show ?thesis by (simp add: bit_iff_odd)
  qed
  moreover have "take_bit 16 (uint w) = uint w"
    using b by (simp add: take_bit_int_eq_self)
  ultimately show ?thesis
    by (simp add: sint_uint signed_take_bit_eq_take_bit_minus)
qed

lemma uint_u16_bounds: "0 \<le> uint (w :: u16)" "uint w < 65536"
  using uint_range_size [of w] by (simp_all add: word_size)

lemma uint_diff_u16: "uint (a - b :: u16) = (uint a - uint b) mod 65536"
  by (simp add: uint_word_ariths)

lemma mod_u16_diff:
  "(uint (a :: u16) - uint (b :: u16)) mod 65536 =
     (if uint a < uint b then uint a - uint b + 65536 else uint a - uint b)"
proof -
  note b = uint_u16_bounds [of a] uint_u16_bounds [of b]
  show ?thesis
  proof (cases "uint a < uint b")
    case True
    have "(uint a - uint b) mod 65536 = (uint a - uint b + 65536) mod 65536" by simp
    also have "\<dots> = uint a - uint b + 65536"
      by (rule mod_pos_pos_trivial) (use True b in linarith)+
    finally show ?thesis using True by simp
  next
    case False
    then have "(uint a - uint b) mod 65536 = uint a - uint b"
      by (intro mod_pos_pos_trivial) (use b in linarith)+
    then show ?thesis using False by simp
  qed
qed

lemma int_and_ffff: "(x :: int) AND 0xffff = x mod 65536"
proof -
  have "x AND mask 16 = take_bit 16 x" by (simp add: take_bit_eq_mask)
  then show ?thesis by (simp add: mask_eq_exp_minus_1 take_bit_eq_mod)
qed

lemma seq_off_eq:
  "seq_off s seq =
     (let d = uint seq - uint (rtp_seq s) in
      if d < -32768 then d + 65536 else if d < 32768 then d else d - 65536)"
  using uint_u16_bounds [of seq] uint_u16_bounds [of "rtp_seq s"]
  unfolding seq_off_def sint_u16 uint_diff_u16 mod_u16_diff Let_def
  by (simp only: split: if_split) linarith

lemma seq_off_bounds: "- 32768 \<le> seq_off s seq" "seq_off s seq < 32768"
  using uint_u16_bounds [of seq] uint_u16_bounds [of "rtp_seq s"]
  unfolding seq_off_eq Let_def by (simp_all only: split: if_split) linarith+

text \<open>The counter is the one of the index nearest to the local one with this sequence number.\<close>

lemma roc_cases:
  fixes q S :: int
  assumes "0 \<le> q" "q < 65536" "0 \<le> S" "S < 65536"
  shows "(if (if q < S then q - S + 65536 else q - S) < 32768 then if q < S then a else b
          else if S < q then c else b) =
    (if q - S < -32768 then a else if q - S < 32768 then b else c)"
  using assms by auto

lemma compute_roc_eq:
  "srtp_compute_roc s seq =
     (let d = uint seq - uint (rtp_seq s) in
      if d < -32768 then rtp_roc s + 1 else if d < 32768 then rtp_roc s else rtp_roc s - 1)"
  unfolding srtp_compute_roc_def int_and_ffff mod_u16_diff Let_def word_less_def
  by (rule roc_cases) (rule uint_u16_bounds)+

lemma local_index_off:
  "\<exists>c \<in> {-1, 0, 1}. local_index s + seq_off s seq = (uint (rtp_roc s) + c) * 65536 + uint seq \<and>
     srtp_compute_roc s seq = rtp_roc s + word_of_int c"
  unfolding local_index_def seq_off_eq compute_roc_eq Let_def
  by (auto simp: algebra_simps)

lemma div_mod_65536:
  assumes "0 \<le> (q :: int)" "q < 65536"
  shows "(k * 65536 + q) div 65536 = k" and "(k * 65536 + q) mod 65536 = q"
  using assms by simp_all

lemma compute_roc_index:
  "srtp_compute_roc s seq = word_of_int ((local_index s + seq_off s seq) div 65536)"
  "(local_index s + seq_off s seq) mod 65536 = uint seq"
proof -
  obtain c where c: "local_index s + seq_off s seq = (uint (rtp_roc s) + c) * 65536 + uint seq"
      "srtp_compute_roc s seq = rtp_roc s + word_of_int c"
    using local_index_off [of s seq] by blast
  have "(local_index s + seq_off s seq) div 65536 = uint (rtp_roc s) + c"
    unfolding c(1) by (rule div_mod_65536) (rule uint_u16_bounds)+
  with c(2) show "srtp_compute_roc s seq = word_of_int ((local_index s + seq_off s seq) div 65536)"
    by simp
  show "(local_index s + seq_off s seq) mod 65536 = uint seq"
    unfolding c(1) by (rule div_mod_65536) (rule uint_u16_bounds)+
qed

section \<open>The window\<close>

lemma sint_of_int_u16: "-32768 \<le> k \<Longrightarrow> k < 32768 \<Longrightarrow> sint (word_of_int k :: u16) = k"
  by (simp add: sint_sbintrunc' signed_take_bit_int_eq_self)

lemma sint_neg_u16:
  assumes "-32768 \<le> d" "d \<le> (0 :: int)"
  shows "sint (word_of_int (- d) :: u16) = (if d = -32768 then -32768 else - d)"
proof (cases "d = -32768")
  case True
  then show ?thesis by simp
next
  case False
  with assms have "sint (word_of_int (- d) :: u16) = - d" by (intro sint_of_int_u16) auto
  with False show ?thesis by simp
qed

lemma drop_bit_and_1: "drop_bit n w AND 1 \<noteq> 0 \<longleftrightarrow> bit (w :: u64) n"
  by (simp add: bit_iff_odd_drop_bit and_one_eq odd_iff_mod_2_eq_one)

text \<open>\<open>srtp_track_seq\<close> by the packet's distance from the highest index.\<close>

lemma srtp_track_seq_eq:
  "srtp_track_seq s seq roc =
     (let d = seq_off s seq; win = window (rtp s) in
      if 64 \<le> d \<or> d = -32768 then Undefined
      else if 0 < d then Done (0, s\<lparr>rtp := (rtp s)\<lparr>window := push_bit (nat d) win OR 1\<rparr>,
                                    rtp_seq := seq, rtp_roc := roc\<rparr>)
      else if d \<le> -64 \<or> bit win (nat (- d)) then Done (EACCES, s)
      else Done (0, s\<lparr>rtp := (rtp s)\<lparr>window := win OR push_bit (nat (- d)) 1\<rparr>\<rparr>))"
  unfolding srtp_track_seq_def Let_def seq_off_def [symmetric] drop_bit_and_1
  using sint_neg_u16 [OF seq_off_bounds(1), of s seq] by auto

lemma track_seq_cases:
  assumes "obind (srtp_track_seq s seq roc) f = Done y"
  obtains (ahead) "0 < seq_off s seq" "seq_off s seq < 64"
      "f (0, s\<lparr>rtp := (rtp s)\<lparr>window := push_bit (nat (seq_off s seq)) (window (rtp s)) OR 1\<rparr>,
             rtp_seq := seq, rtp_roc := roc\<rparr>) = Done y"
  | (late) "seq_off s seq \<le> 0" "-64 < seq_off s seq"
      "\<not> bit (window (rtp s)) (nat (- seq_off s seq))"
      "f (0, s\<lparr>rtp := (rtp s)\<lparr>window := window (rtp s) OR push_bit (nat (- seq_off s seq)) 1\<rparr>\<rparr>) = Done y"
  | (refused) "f (EACCES, s) = Done y"
  using assms unfolding srtp_track_seq_eq Let_def by (simp only: split: if_splits) auto

lemma bit_window_shift:
  assumes "0 < d" "d < 64" "k < 64"
  shows "bit (push_bit d (w :: u64) OR 1) k \<longleftrightarrow> k = 0 \<or> (d \<le> k \<and> bit w (k - d))"
  using assms by (auto simp: bit_simps)

definition rtp_rel :: "('c, 'm) srtp_session \<Rightarrow> int \<Rightarrow> int set \<Rightarrow> bool" where
  "rtp_rel s h A \<longleftrightarrow> h mod 2 ^ 48 = local_index s \<and>
     (\<forall>k < 64. bit (window (rtp s)) k \<longleftrightarrow> h - int k \<in> A) \<and> (\<forall>i \<in> A. i \<le> h)"

lemma rtp_rel_fresh: "srtp_fresh s \<Longrightarrow> rtp_rel s 0 {}"
  by (simp add: rtp_rel_def srtp_fresh_def local_index_def)

text \<open>The index modulo the 48 bits the code keeps of it.\<close>

lemma mod_2_48: "(i :: int) mod 2 ^ 48 = i div 65536 mod 2 ^ 32 * 65536 + i mod 65536"
  using zmod_zmult2_eq [of "2 ^ 32" i 65536] by simp

lemma index_split:
  assumes "h mod 2 ^ 48 = local_index s"
  shows "(h + seq_off s seq) mod 2 ^ 48 = uint (srtp_compute_roc s seq) * 65536 + uint seq"
    and "srtp_compute_roc s seq = word_of_int ((h + seq_off s seq) div 65536)"
    and "seq = word_of_int (h + seq_off s seq)"
proof -
  define i where "i = local_index s + seq_off s seq"
  define u where "u = 2 ^ 32 * (h div 2 ^ 48)"
  have h: "h + seq_off s seq = i + 65536 * u"
    using assms mult_div_mod_eq [of "2 ^ 48" h] unfolding i_def u_def by simp
  have roc: "srtp_compute_roc s seq = word_of_int (i div 65536)" and q: "i mod 65536 = uint seq"
    using compute_roc_index [of s seq] by (simp_all add: i_def)
  have "uint (srtp_compute_roc s seq) = i div 65536 mod 2 ^ 32"
    by (simp add: roc uint_word_of_int)
  moreover have "(h + seq_off s seq) mod 2 ^ 48 = i mod 2 ^ 48"
    unfolding h u_def by simp
  ultimately show "(h + seq_off s seq) mod 2 ^ 48 = uint (srtp_compute_roc s seq) * 65536 + uint seq"
    using q mod_2_48 [of i] by simp
  have "(h + seq_off s seq) div 65536 = u + i div 65536"
    unfolding h by (rule div_mult_self2) simp
  then show "srtp_compute_roc s seq = word_of_int ((h + seq_off s seq) div 65536)"
    unfolding roc u_def by (simp only: word_of_int_eq_iff take_bit_eq_mod) simp
  have "seq = word_of_int (i mod 65536)" by (simp add: q)
  also have "\<dots> = word_of_int (h + seq_off s seq)"
    unfolding h by (simp only: word_of_int_eq_iff take_bit_eq_mod) simp
  finally show "seq = word_of_int (h + seq_off s seq)" .
qed

definition roc_seq :: "int \<Rightarrow> u32 \<times> u16" where
  "roc_seq i = (word_of_int (i div 65536), word_of_int i)"

lemma roc_seq_inj:
  assumes "roc_seq i = roc_seq j" and "\<bar>i - j\<bar> < 2 ^ 48"
  shows "i = j"
proof -
  from assms(1) have "i div 65536 mod 2 ^ 32 = j div 65536 mod 2 ^ 32" "i mod 65536 = j mod 65536"
    by (simp_all add: roc_seq_def word_of_int_eq_iff take_bit_eq_mod)
  then have "i mod 2 ^ 48 = j mod 2 ^ 48"
    by (simp only: mod_2_48)
  then have "2 ^ 48 dvd i - j" by (simp add: mod_eq_dvd_iff)
  with assms(2) show ?thesis using zdvd_imp_le [of "2 ^ 48" "\<bar>i - j\<bar>"] by (cases "i = j") auto
qed

section \<open>The RTP window implements the contract\<close>

definition rtp_filter :: "('c, 'm) srtp_session \<Rightarrow> u16 \<Rightarrow> (bool \<times> ('c, 'm) srtp_session) outcome" where
  "rtp_filter s seq =
     obind (srtp_track_seq s seq (srtp_compute_roc s seq)) (\<lambda>(r, s'). Done (r = 0, s'))"

lemma track_ahead_rel:
  assumes "rtp_rel s h A" and "0 < seq_off s seq" "seq_off s seq < 64"
  shows "rtp_rel (s\<lparr>rtp := (rtp s)\<lparr>window := push_bit (nat (seq_off s seq)) (window (rtp s)) OR 1\<rparr>,
      rtp_seq := seq, rtp_roc := srtp_compute_roc s seq\<rparr>)
    (h + seq_off s seq) (insert (h + seq_off s seq) A)"
proof -
  have h: "h mod 2 ^ 48 = local_index s" and w: "\<And>k. k < 64 \<Longrightarrow> bit (window (rtp s)) k \<longleftrightarrow> h - int k \<in> A"
    and A: "\<And>i. i \<in> A \<Longrightarrow> i \<le> h"
    using assms(1) by (auto simp: rtp_rel_def)
  have "(k = 0 \<or> nat (seq_off s seq) \<le> k \<and> bit (window (rtp s)) (k - nat (seq_off s seq))) \<longleftrightarrow>
      h + seq_off s seq - int k \<in> insert (h + seq_off s seq) A" if "k < 64" for k
  proof (cases "nat (seq_off s seq) \<le> k")
    case True
    with assms(2) have eq: "h + seq_off s seq - int k = h - int (k - nat (seq_off s seq))" by simp
    have "h - int (k - nat (seq_off s seq)) \<noteq> h + seq_off s seq" "k \<noteq> 0"
      using assms(2) True by linarith+
    with w [of "k - nat (seq_off s seq)"] that True show ?thesis unfolding eq by simp
  next
    case False
    then show ?thesis using A [of "h + seq_off s seq - int k"] assms(2) by auto
  qed
  moreover have "i \<le> h + seq_off s seq" if "i \<in> A" for i using A [OF that] assms(2) by simp
  ultimately show ?thesis
    using index_split(1) [OF h, of seq] assms(2,3) bit_window_shift [of "nat (seq_off s seq)"]
    by (auto simp: rtp_rel_def local_index_def)
qed

lemma track_late_rel:
  assumes "rtp_rel s h A" and "d < 64"
  shows "rtp_rel (s\<lparr>rtp := (rtp s)\<lparr>window := window (rtp s) OR push_bit d 1\<rparr>\<rparr>) h (insert (h - int d) A)"
  using assms by (auto simp: rtp_rel_def local_index_def bit_simps)

lemma rtp_filter_rel:
  assumes rel: "rtp_rel s h A" and step: "rtp_filter s seq = Done (ok, s')"
  shows "\<exists>h' A'. rtp_rel s' h' A' \<and> h \<le> h' \<and> h' \<le> h + 63 \<and> A \<subseteq> A' \<and>
    (ok \<longrightarrow> h + seq_off s seq \<notin> A \<and> h + seq_off s seq \<in> A' \<and> h - 64 < h + seq_off s seq \<and>
      h + seq_off s seq \<le> h')"
proof -
  let ?d = "seq_off s seq"
  have up: "i \<in> A \<Longrightarrow> i \<le> h" for i using rel by (auto simp: rtp_rel_def)
  from step have "obind (srtp_track_seq s seq (srtp_compute_roc s seq))
      (\<lambda>(r, s'). Done (r = 0, s')) = Done (ok, s')"
    by (simp only: rtp_filter_def)
  then show ?thesis
  proof (cases rule: track_seq_cases)
    case ahead
    then have s': "s' = s\<lparr>rtp := (rtp s)\<lparr>window := push_bit (nat ?d) (window (rtp s)) OR 1\<rparr>,
        rtp_seq := seq, rtp_roc := srtp_compute_roc s seq\<rparr>" by simp
    show ?thesis unfolding s'
      using track_ahead_rel [OF rel ahead(1,2)] up [of "h + ?d"] ahead(1,2)
      by (intro exI [of _ "h + ?d"] exI [of _ "insert (h + ?d) A"]) auto
  next
    case late
    have d: "h + ?d = h - int (nat (- ?d))" using late(1) by simp
    have "h + ?d \<notin> A" unfolding d using rel late(2,3) by (simp add: rtp_rel_def)
    moreover from late have s': "s' = s\<lparr>rtp := (rtp s)\<lparr>window := window (rtp s) OR
        push_bit (nat (- ?d)) 1\<rparr>\<rparr>" by simp
    moreover have "rtp_rel s' h (insert (h + ?d) A)"
      unfolding s' d using late(2) by (intro track_late_rel [OF rel]) simp
    ultimately show ?thesis using late(1,2)
      by (intro exI [of _ h] exI [of _ "insert (h + ?d) A"]) auto
  next
    case refused
    then show ?thesis using rel by (intro exI [of _ h] exI [of _ A]) auto
  qed
qed

lemma rtp_obs: "rtp_rel s h A \<Longrightarrow> (srtp_compute_roc s seq, seq) = roc_seq (h + seq_off s seq)"
  unfolding roc_seq_def rtp_rel_def using index_split(2,3) by blast

interpretation rtp_window: replay_filter rtp_filter rtp_rel seq_off
  "\<lambda>s seq. (srtp_compute_roc s seq, seq)" roc_seq "2 ^ 48"
proof unfold_locales
  show "(srtp_compute_roc s seq, seq) = roc_seq (h + seq_off s seq)" if "rtp_rel s h A" for s seq h A
    using that by (rule rtp_obs)
qed (rule rtp_filter_rel roc_seq_inj, assumption+)+

section \<open>Properties\<close>

text \<open>
  (C17) \<open>srtp_compute_roc\<close> is the index guess of RFC 3711 section 3.3.1: of all 48 bit packet
  indices with the given sequence number, the one closest to the local index \<open>ROC * 2^16 +
  SEQ\<close> has the computed roll-over counter (modulo \<open>2^32\<close>), wraps in both directions included.
\<close>

theorem compute_roc_closest:
  assumes "i mod 65536 = uint seq"
    and "local_index s - 32768 \<le> i" and "i < local_index s + 32768"
  shows "srtp_compute_roc s seq = word_of_int (i div 65536)"
proof -
  let ?j = "local_index s + seq_off s seq"
  have "(i - ?j) mod 65536 = 0"
    using assms(1) compute_roc_index(2) [of s seq] by (metis mod_diff_cong diff_self mod_0)
  then have "65536 dvd i - ?j" by (simp add: mod_eq_0_iff_dvd)
  moreover have "\<bar>i - ?j\<bar> < 65536" using assms(2,3) seq_off_bounds [of s seq] by linarith
  ultimately have "i = ?j" using zdvd_imp_le [of 65536 "\<bar>i - ?j\<bar>"] by (cases "i = ?j") auto
  then show ?thesis using compute_roc_index(1) [of s seq] by simp
qed

theorem compute_roc_closest_witness:
  "srtp_compute_roc (stub_session\<lparr>rtp_seq := 65530, rtp_roc := 7\<rparr>) 5 = 8 \<and>
   srtp_compute_roc (stub_session\<lparr>rtp_seq := 5, rtp_roc := 7\<rparr>) 65530 = 6"
proof -
  have "srtp_compute_roc (stub_session\<lparr>rtp_seq := 65530, rtp_roc := 7\<rparr>) 5 =
      word_of_int ((8 * 65536 + 5) div 65536)"
    by (rule compute_roc_closest) (simp_all add: local_index_def)
  moreover have "srtp_compute_roc (stub_session\<lparr>rtp_seq := 5, rtp_roc := 7\<rparr>) 65530 =
      word_of_int ((6 * 65536 + 65530) div 65536)"
    by (rule compute_roc_closest) (simp_all add: local_index_def)
  ultimately show ?thesis by simp
qed

text \<open>
  (C18) No replay: over any sequence of fewer than \<open>2^42\<close> packets that a fresh session
  handles, the packet indices (roll-over counter and sequence number) of the packets the
  window lets through are pairwise different, whatever the order, duplication or loss, and
  across wraps of the sequence number.
\<close>

theorem window_no_replay:
  assumes "srtp_fresh s" and "length qs < 2 ^ 42"
    and "filter_run rtp_filter (\<lambda>s seq. (srtp_compute_roc s seq, seq)) s qs = Done (os, s')"
  shows "distinct os"
  by (rule rtp_window.run_distinct [OF rtp_rel_fresh [OF assms(1)] assms(3)])
    (use assms(2) in simp)

lemmas track_eval = rtp_filter_def srtp_track_seq_def srtp_compute_roc_def stub_session_def
  stub_proto_def EACCES_def

theorem window_no_replay_witness:
  "\<exists>os s'. filter_run rtp_filter (\<lambda>s seq. (srtp_compute_roc s seq, seq)) stub_session
     [1, 3, 1, 2, 3, 60, 2] = Done (os, s') \<and> os = [(0, 1), (0, 3), (0, 2), (0, 60)] \<and> distinct os"
proof -
  obtain s' where r: "filter_run rtp_filter (\<lambda>s seq. (srtp_compute_roc s seq, seq)) stub_session
     [1, 3, 1, 2, 3, 60, 2] = Done ([(0, 1), (0, 3), (0, 2), (0, 60)], s')"
    by (simp add: track_eval)
  with window_no_replay [OF _ _ r] show ?thesis
    by (simp add: srtp_fresh_def stub_session_def stub_proto_def)
qed

lemma track_seq_undefined_aux:
  "srtp_track_seq s seq roc = Undefined \<longleftrightarrow>
     (let d = (uint seq - uint (rtp_seq s)) mod 65536 in 64 \<le> d \<and> d \<le> 32768)"
proof -
  have "seq_off s seq = (let d = (uint seq - uint (rtp_seq s)) mod 65536 in
      if d < 32768 then d else d - 65536)"
    by (simp add: seq_off_def sint_u16 uint_diff_u16 Let_def)
  moreover have "0 \<le> (uint seq - uint (rtp_seq s)) mod 65536" by simp
  ultimately show ?thesis unfolding srtp_track_seq_eq Let_def by auto
qed

text \<open>
  The window update leaves defined behaviour in exactly two situations: a packet 64 or
  more ahead of the highest sequence number (the shift count reaches the width of the
  window), and one exactly 32768 behind it (\<open>diff = -diff\<close> stays negative in 16 bits).
\<close>

theorem track_seq_undefined_iff:
  "srtp_track_seq s seq roc = Undefined \<longleftrightarrow>
     (let d = (uint seq - uint (rtp_seq s)) mod 65536 in 64 \<le> d \<and> d \<le> 32768)"
  by (rule track_seq_undefined_aux)

text \<open>
  A fresh session refuses every first packet whose sequence number lies in the upper
  half of the range, its last 63 values excepted: sequence numbers are taken relative to the
  initial zero, although RFC 3711 starts from the sequence number of the first packet.
\<close>

theorem fresh_refuses_upper_half:
  assumes "srtp_fresh s" and "32768 < uint seq" and "uint seq \<le> 65472"
  shows "srtp_track_seq s seq roc = Done (EACCES, s)"
proof -
  have "seq_off s seq = uint seq - 65536"
    using assms by (simp add: seq_off_eq srtp_fresh_def Let_def)
  then show ?thesis using assms by (simp add: srtp_track_seq_eq Let_def)
qed

theorem fresh_refuses_upper_half_witness:
  "srtp_track_seq stub_session 40000 0 = Done (EACCES, stub_session)"
  by (rule fresh_refuses_upper_half) (simp_all add: srtp_fresh_def stub_session_def stub_proto_def)

end
