(* ===== verification/Srtp_Packet.thy ===== *)
theory Srtp_Packet
  imports Srtp_Cipher Srtp_Replay
begin

text \<open>
  The packet layer of \<open>srtp.c\<close>: \<open>rtp_seq\<close>, \<open>rtp_digest\<close>, \<open>srtp_crypt\<close>, \<open>srtp_send\<close> and
  \<open>srtp_recv\<close>, with the Roll-over-Counter Carry modes. The session pointer is never null
  here: the two entry points read through it before \<open>srtp_crypt\<close> asserts it. The packet
  buffer is the memory from address 0 on; the \<open>size_t *lenp\<close> parameter is an argument and a
  result.
\<close>

section \<open>The code\<close>

text \<open>\<open>rtp_seq (buf)\<close>, named apart from the session field.\<close>

definition rtp_seq_of :: "mem \<Rightarrow> u16" where
  "rtp_seq_of buf = push_bit 8 (ucast (buf 2)) OR ucast (buf 3)"

definition rtp_digest ::
  "('c, 'm, 'w) gcrypt \<Rightarrow> 'm \<Rightarrow> bytes \<Rightarrow> u32 \<Rightarrow> bytes \<times> 'm" where
  "rtp_digest G md data roc =
     gcry_md_read G (gcry_md_write G (gcry_md_write G (gcry_md_reset G md) data)
       (u32_store (htonl roc)))"

text \<open>
  The encryption offset of \<open>srtp_crypt\<close>, in \<open>uint16_t\<close> arithmetic; \<open>None\<close> is the early
  \<open>return EINVAL\<close>. The extension length of the packet is a number of 32 bit words, the code
  adds it as a number of bytes.
\<close>

definition rtp_offset :: "mem \<Rightarrow> nat \<Rightarrow> u16 option" where
  "rtp_offset buf len =
     (let o1 = 12 + ucast (buf 0 AND 0xf) * 4 in
      if buf 0 AND 0x10 \<noteq> 0 then
        (let o2 = o1 + 4 in
         if len < unat o2 then None
         else let o3 = o2 + be_word16 (buf (unat o2 - 2)) (buf (unat o2 - 1)) in
           if len < unat o3 then None else Some o3)
      else if len < unat o1 then None else Some o1)"

definition srtp_crypt ::
  "('c, 'm, 'w) gcrypt \<Rightarrow> ('c, 'm) srtp_session \<Rightarrow> mem \<Rightarrow> nat \<Rightarrow>
   (int \<times> ('c, 'm) srtp_session \<times> mem) outcome" where
  "srtp_crypt G s buf len =
     (if len < 12 then Aborted
      else if drop_bit 6 (buf 0) \<noteq> 2 then Done (EINVAL, s, buf)
      else case rtp_offset buf len of None \<Rightarrow> Done (EINVAL, s, buf) | Some offset \<Rightarrow>
      let seq = rtp_seq_of buf; roc = srtp_compute_roc s seq; ssrc = u32_load (mread buf 8 4) in
      obind (srtp_track_seq s seq roc) (\<lambda>(r, s1).
      if r \<noteq> 0 then Done (r, s1, buf)
      else if has_flag s1 SRTP_UNENCRYPTED then Done (0, s1, buf)
      else obind (rtp_crypt G (cipher (rtp s1)) ssrc roc seq (salt (rtp s1)) buf
                   (unat offset) (len - unat offset)) (\<lambda>(e, h, buf').
        Done (if e \<noteq> 0 then EINVAL else 0, s1\<lparr>rtp := (rtp s1)\<lparr>cipher := h\<rparr>\<rparr>, buf'))))"

text \<open>
  The sizes \<open>roc_len\<close> and \<open>tag_len\<close> that \<open>srtp_send\<close> and \<open>srtp_recv\<close> both compute for an
  authenticated packet. \<open>tag_len - 4\<close> may go below zero in \<open>srtp_recv\<close>, where nothing
  checks it.
\<close>

definition rcc_layout :: "('c, 'm) srtp_session \<Rightarrow> u16 \<Rightarrow> nat \<times> int" where
  "rcc_layout s seq =
     (let tlen = int (unat (tag_len s)) in
      if rcc_mode s = 0 then (0, tlen)
      else if seq mod rtp_rcc s = 0 then (4, if rcc_mode s = 3 then 0 else tlen - 4)
      else (0, if rcc_mode s AND 1 \<noteq> 0 then 0 else tlen))"

text \<open>
  \<open>srtp_send\<close>: the result is the return code, the session, the buffer and \<open>*lenp\<close>. Copying
  more tag bytes than the digest has is out of bounds.
\<close>

definition srtp_send ::
  "('c, 'm, 'w) gcrypt \<Rightarrow> ('c, 'm) srtp_session \<Rightarrow> mem \<Rightarrow> nat \<Rightarrow> nat \<Rightarrow>
   (int \<times> ('c, 'm) srtp_session \<times> mem \<times> nat) outcome" where
  "srtp_send G s buf len bufsize =
     (if len < 12 then Done (EINVAL, s, buf, len)
      else let auth = (\<not> has_flag s SRTP_UNAUTHENTICATED) in
      if auth \<and> rcc_mode s \<noteq> 0 \<and> (unat (tag_len s) < 4 \<or> rtp_rcc s = 0) then Aborted
      else case (if auth then rcc_layout s (rtp_seq_of buf) else (0, 0)) of (roc_len, tlen) \<Rightarrow>
      let lenp = (if auth then len + roc_len + nat tlen else len) in
      if bufsize < lenp then Done (ENOSPC, s, buf, lenp)
      else obind (srtp_crypt G s buf len) (\<lambda>(val, s1, buf1).
      if val \<noteq> 0 then Done (val, s1, buf1, lenp)
      else if has_flag s1 SRTP_UNAUTHENTICATED then Done (0, s1, buf1, lenp)
      else let roc = srtp_compute_roc s1 (rtp_seq_of buf1) in
        case rtp_digest G (mac (rtp s1)) (mread buf1 0 len) roc of (tag, md) \<Rightarrow>
        let s2 = s1\<lparr>rtp := (rtp s1)\<lparr>mac := md\<rparr>\<rparr> in
        case (if roc_len \<noteq> 0 then (mwrite buf1 len (u32_store (htonl (rtp_roc s2))), len + 4)
              else (buf1, len)) of (buf2, len2) \<Rightarrow>
        if int (length tag) < tlen then Undefined
        else Done (0, s2, mwrite buf2 len2 (take (nat tlen) tag), lenp)))"

text \<open>
  \<open>srtp_recv\<close>: an RCC rate of zero divides by zero, and \<open>memcmp\<close> of a tag length below zero
  (as \<open>size_t\<close>, close to \<open>2^64\<close>) or above the digest's is out of bounds.
\<close>

definition srtp_recv ::
  "('c, 'm, 'w) gcrypt \<Rightarrow> ('c, 'm) srtp_session \<Rightarrow> mem \<Rightarrow> nat \<Rightarrow>
   (int \<times> ('c, 'm) srtp_session \<times> mem \<times> nat) outcome" where
  "srtp_recv G s buf len =
     (if len < 12 then Done (EINVAL, s, buf, len)
      else if has_flag s SRTP_UNAUTHENTICATED then
        obind (srtp_crypt G s buf len) (\<lambda>(r, s', buf'). Done (r, s', buf', len))
      else if rcc_mode s \<noteq> 0 \<and> rtp_rcc s = 0 then Undefined
      else case rcc_layout s (rtp_seq_of buf) of (roc_len, tlen) \<Rightarrow>
      if int len < 12 + int roc_len + tlen then Done (EINVAL, s, buf, len)
      else let len1 = nat (int len - (int roc_len + tlen));
               roc = srtp_compute_roc s (rtp_seq_of buf);
               rcc = (if roc_len \<noteq> 0 then ntohl (u32_load (mread buf len1 4)) else roc) in
        case rtp_digest G (mac (rtp s)) (mread buf 0 len1) rcc of (tag, md) \<Rightarrow>
        let s1 = s\<lparr>rtp := (rtp s)\<lparr>mac := md\<rparr>\<rparr> in
        if tlen < 0 \<or> int (length tag) < tlen then Undefined
        else if mread buf (len1 + roc_len) (nat tlen) \<noteq> take (nat tlen) tag
        then Done (EACCES, s1, buf, len)
        else let s2 = (if roc_len \<noteq> 0 then s1\<lparr>rtp_roc := rtp_roc s1 + (rcc - roc)\<rparr> else s1) in
        if roc_len \<noteq> 0 \<and> srtp_compute_roc s2 (rtp_seq_of buf) \<noteq> rcc then Aborted
        else obind (srtp_crypt G s2 buf len1) (\<lambda>(r, s', buf'). Done (r, s', buf', len1)))"

section \<open>What the packet operations keep\<close>

text \<open>The parts of the session that no packet operation changes.\<close>

definition same_config :: "('c, 'm) srtp_session \<Rightarrow> ('c, 'm) srtp_session \<Rightarrow> bool" where
  "same_config s s' \<longleftrightarrow> flags s' = flags s \<and> tag_len s' = tag_len s \<and> rtp_rcc s' = rtp_rcc s \<and>
     kdr s' = kdr s \<and> salt (rtp s') = salt (rtp s) \<and> salt (rtcp s') = salt (rtcp s)"

text \<open>What replay protection of RTP is decided on.\<close>

definition same_window :: "('c, 'm) srtp_session \<Rightarrow> ('c, 'm) srtp_session \<Rightarrow> bool" where
  "same_window s s' \<longleftrightarrow> rtp_seq s' = rtp_seq s \<and> rtp_roc s' = rtp_roc s \<and>
     window (rtp s') = window (rtp s)"

lemma same_config_refl [simp]: "same_config s s"
  by (simp add: same_config_def)

lemma same_config_trans: "same_config s t \<Longrightarrow> same_config t u \<Longrightarrow> same_config s u"
  by (simp add: same_config_def)

lemma same_window_refl [simp]: "same_window s s"
  by (simp add: same_window_def)

lemma same_config_flag: "same_config s s' \<Longrightarrow> has_flag s' f = has_flag s f"
  by (simp add: same_config_def has_flag_def)

lemma same_config_mode: "same_config s s' \<Longrightarrow> rcc_mode s' = rcc_mode s"
  by (simp add: same_config_def rcc_mode_def)

lemma same_config_layout:
  assumes "same_config s s'"
  shows "rcc_layout s' = rcc_layout s"
  using assms same_config_mode [OF assms] unfolding rcc_layout_def same_config_def by presburger

lemma same_config_wf: "same_config s s' \<Longrightarrow> rtcp_index s' = rtcp_index s \<Longrightarrow> srtp_wf s' = srtp_wf s"
  by (simp add: same_config_def srtp_wf_def rcc_mode_def)

lemma track_seq_keeps:
  assumes "srtp_track_seq s seq roc = Done (r, s')"
  shows "same_config s s'" and "rtcp s' = rtcp s" and "rtcp_index s' = rtcp_index s"
    and "cipher (rtp s') = cipher (rtp s)" and "mac (rtp s') = mac (rtp s)"
    and "r \<noteq> 0 \<longrightarrow> s' = s \<and> r = EACCES"
  using assms by (auto simp: srtp_track_seq_eq Let_def same_config_def split: if_splits)

text \<open>The window update sees the session through its counters only.\<close>

lemma track_seq_cong:
  assumes "srtp_track_seq s seq roc = Done (0, s')" and "rtp_seq t = rtp_seq s"
    and "window (rtp t) = window (rtp s)"
  shows "\<exists>t'. srtp_track_seq t seq roc = Done (0, t') \<and> rtp_seq t' = rtp_seq s' \<and>
    window (rtp t') = window (rtp s') \<and>
    rtp_roc t' = (if rtp_roc t = rtp_roc s then rtp_roc s' else if 0 < seq_off s seq then roc else rtp_roc t)"
  using assms by (auto simp: srtp_track_seq_eq Let_def seq_off_def split: if_splits)

lemma rtp_crypt_frame:
  assumes "rtp_crypt G h ssrc roc seq slt m a n = Done (e, h', m')" and "i < a \<or> a + n \<le> i"
  shows "m' i = m i"
  using assms unfolding rtp_crypt_def by (rule do_ctr_crypt_frame)

lemma rtp_offset_le: "rtp_offset m len = Some off \<Longrightarrow> unat off \<le> len"
  by (auto simp: rtp_offset_def Let_def split: if_splits)

text \<open>The three ways through \<open>srtp_crypt\<close>: refused, not encrypted, encrypted.\<close>

lemma srtp_crypt_cases:
  assumes "srtp_crypt G s m len = Done (r, s', m')"
  obtains (refused) "r \<noteq> 0" "r = EINVAL \<or> r = EACCES" "s' = s" "m' = m"
  | (plain) off where "r = 0" "has_flag s SRTP_UNENCRYPTED" "drop_bit 6 (m 0) = 2"
      "rtp_offset m len = Some off" "m' = m"
      "srtp_track_seq s (rtp_seq_of m) (srtp_compute_roc s (rtp_seq_of m)) = Done (0, s')"
  | (crypted) off s1 e h where "r = (if e \<noteq> 0 then EINVAL else 0)"
      "\<not> has_flag s SRTP_UNENCRYPTED" "drop_bit 6 (m 0) = 2" "rtp_offset m len = Some off"
      "srtp_track_seq s (rtp_seq_of m) (srtp_compute_roc s (rtp_seq_of m)) = Done (0, s1)"
      "rtp_crypt G (cipher (rtp s)) (u32_load (mread m 8 4)) (srtp_compute_roc s (rtp_seq_of m))
         (rtp_seq_of m) (salt (rtp s)) m (unat off) (len - unat off) = Done (e, h, m')"
      "s' = s1\<lparr>rtp := (rtp s1)\<lparr>cipher := h\<rparr>\<rparr>"
proof -
  let ?seq = "rtp_seq_of m"
  consider "r = EINVAL" "s' = s" "m' = m"
    | off r1 s1 where "drop_bit 6 (m 0) = 2" "rtp_offset m len = Some off"
      "srtp_track_seq s ?seq (srtp_compute_roc s ?seq) = Done (r1, s1)"
      "(if r1 \<noteq> 0 then Done (r1, s1, m)
        else if has_flag s1 SRTP_UNENCRYPTED then Done (0, s1, m)
        else obind (rtp_crypt G (cipher (rtp s1)) (u32_load (mread m 8 4)) (srtp_compute_roc s ?seq)
            ?seq (salt (rtp s1)) m (unat off) (len - unat off)) (\<lambda>(e, h, buf').
          Done (if e \<noteq> 0 then EINVAL else 0, s1\<lparr>rtp := (rtp s1)\<lparr>cipher := h\<rparr>\<rparr>, buf'))) =
        Done (r, s', m')"
    using assms by (auto simp: srtp_crypt_def Let_def split: if_splits option.splits)
  then show thesis
  proof cases
    case 1
    then show thesis using refused by simp
  next
    case 2
    note k = track_seq_keeps [OF 2(3)]
    from k(1) have c: "salt (rtp s1) = salt (rtp s)"
        "has_flag s1 SRTP_UNENCRYPTED = has_flag s SRTP_UNENCRYPTED"
      by (simp_all add: same_config_def has_flag_def)
    show thesis
    proof (cases "r1 = 0")
      case False
      then show thesis using 2(4) k(6) refused by simp
    next
      case True
      then show thesis using 2 k(4) c plain crypted by (auto split: if_splits)
    qed
  qed
qed

lemma srtp_crypt_frame:
  assumes "srtp_crypt G s m len = Done (r, s', m')" and "len \<le> i"
  shows "m' i = m i"
  using assms(1)
proof (cases rule: srtp_crypt_cases)
  case (crypted off s1 e h)
  from rtp_crypt_frame [OF crypted(6)] rtp_offset_le [OF crypted(4)] assms(2) show ?thesis by simp
qed simp_all

lemma srtp_crypt_keeps:
  assumes "srtp_crypt G s m len = Done (r, s', m')"
  shows "same_config s s' \<and> rtcp s' = rtcp s \<and> rtcp_index s' = rtcp_index s \<and>
    mac (rtp s') = mac (rtp s)"
  using assms
proof (cases rule: srtp_crypt_cases)
  case (crypted off s1 e h)
  then show ?thesis using track_seq_keeps [OF crypted(5)] by (simp add: same_config_def)
qed (auto dest: track_seq_keeps)

lemma srtp_crypt_not_aborted: "12 \<le> len \<Longrightarrow> srtp_crypt G s m len \<noteq> Aborted"
  by (auto simp: srtp_crypt_def Let_def obind_Aborted_iff srtp_track_seq_eq rtp_crypt_def
      do_ctr_crypt_def split: option.splits prod.splits if_splits)

text \<open>\<open>srtp_recv\<close> by the tag and the counter it finds, for an authenticating session.\<close>

lemma compute_roc_shift:
  "srtp_compute_roc (s\<lparr>rtp_roc := rtp_roc s + d\<rparr>) seq = srtp_compute_roc s seq + d"
  by (simp add: srtp_compute_roc_def)

lemma compute_roc_cong:
  "rtp_seq t = rtp_seq s \<Longrightarrow> rtp_roc t = rtp_roc s \<Longrightarrow> srtp_compute_roc t seq = srtp_compute_roc s seq"
  by (simp add: srtp_compute_roc_def)

text \<open>The state \<open>srtp_recv\<close> hands to \<open>srtp_crypt\<close> after a packet that carried counter \<open>rcc\<close>.\<close>

definition adopt_roc :: "('c, 'm) srtp_session \<Rightarrow> 'm \<Rightarrow> nat \<Rightarrow> u32 \<Rightarrow> ('c, 'm) srtp_session" where
  "adopt_roc s md roc_len d =
     s\<lparr>rtp := (rtp s)\<lparr>mac := md\<rparr>, rtp_roc := rtp_roc s + (if roc_len \<noteq> 0 then d else 0)\<rparr>"

lemma adopt_roc_keeps:
  "same_config s (adopt_roc s md n d)" "rtcp (adopt_roc s md n d) = rtcp s"
  "rtcp_index (adopt_roc s md n d) = rtcp_index s" "rtp_seq (adopt_roc s md n d) = rtp_seq s"
  "window (rtp (adopt_roc s md n d)) = window (rtp s)"
  "cipher (rtp (adopt_roc s md n d)) = cipher (rtp s)"
  "mac (rtp (adopt_roc s md n d)) = md"
  by (simp_all add: adopt_roc_def same_config_def)

lemma adopt_roc_compute:
  "srtp_compute_roc (adopt_roc s md n d) seq = srtp_compute_roc s seq + (if n \<noteq> 0 then d else 0)"
  by (simp add: adopt_roc_def srtp_compute_roc_def)

lemma srtp_recv_auth_eq:
  assumes "\<not> has_flag s SRTP_UNAUTHENTICATED" and "12 \<le> len"
    and "rcc_mode s = 0 \<or> rtp_rcc s \<noteq> 0"
    and "rcc_layout s (rtp_seq_of m) = (n, t)" and "12 + int n + t \<le> int len"
    and "len1 = nat (int len - (int n + t))" and "roc = srtp_compute_roc s (rtp_seq_of m)"
    and "rcc = (if n \<noteq> 0 then ntohl (u32_load (mread m len1 4)) else roc)"
    and "rtp_digest G (mac (rtp s)) (mread m 0 len1) rcc = (tag, md)"
  shows "srtp_recv G s m len =
    (if t < 0 \<or> int (length tag) < t then Undefined
     else if mread m (len1 + n) (nat t) \<noteq> take (nat t) tag
     then Done (EACCES, s\<lparr>rtp := (rtp s)\<lparr>mac := md\<rparr>\<rparr>, m, len)
     else obind (srtp_crypt G (adopt_roc s md n (rcc - roc)) m len1)
       (\<lambda>(r, s', m'). Done (r, s', m', len1)))"
proof -
  let ?s1 = "s\<lparr>rtp := (rtp s)\<lparr>mac := md\<rparr>\<rparr>"
  have "(if n \<noteq> 0 then ?s1\<lparr>rtp_roc := rtp_roc ?s1 + (rcc - roc)\<rparr> else ?s1) =
      adopt_roc s md n (rcc - roc)"
    by (simp add: adopt_roc_def)
  moreover have "n \<noteq> 0 \<Longrightarrow> srtp_compute_roc (adopt_roc s md n (rcc - roc)) (rtp_seq_of m) = rcc"
    unfolding adopt_roc_compute assms(7) by simp
  ultimately show ?thesis
    using assms unfolding srtp_recv_def Let_def by auto
qed

lemma numeral_le_unat: "numeral n \<le> unat (w :: 'a :: len word) \<longleftrightarrow> numeral n \<le> uint w"
  using of_nat_le_iff [of "numeral n" "unat w", where 'a = int] by simp

lemma rcc_layout_sizes:
  assumes "rcc_layout s seq = (n, t)"
  shows "n = 0 \<or> n = 4" and "t \<le> int (unat (tag_len s))" and "srtp_wf s \<Longrightarrow> 0 \<le> t"
    and "rcc_mode s = 0 \<Longrightarrow> n = 0 \<and> t = int (unat (tag_len s))"
  using assms
  by (auto simp: rcc_layout_def srtp_wf_def Let_def numeral_le_unat split: if_splits)

lemma srtp_recv_cases:
  assumes "srtp_recv G s m len = Done (r, s', m', l')"
  obtains (short) "r = EINVAL" "s' = s" "m' = m" "l' = len"
  | (plain) "has_flag s SRTP_UNAUTHENTICATED" "12 \<le> len" "l' = len"
      "srtp_crypt G s m len = Done (r, s', m')"
  | (denied) d rcc tag md where "rtp_digest G (mac (rtp s)) d rcc = (tag, md)" "r = EACCES" "s' = s\<lparr>rtp := (rtp s)\<lparr>mac := md\<rparr>\<rparr>" "m' = m" "l' = len"
  | (passed) n t rcc tag md where "\<not> has_flag s SRTP_UNAUTHENTICATED"
      "rcc_layout s (rtp_seq_of m) = (n, t)" "0 \<le> t" "12 \<le> l'" "len = l' + n + nat t"
      "rcc = (if n \<noteq> 0 then ntohl (u32_load (mread m l' 4)) else srtp_compute_roc s (rtp_seq_of m))"
      "rtp_digest G (mac (rtp s)) (mread m 0 l') rcc = (tag, md)"
      "mread m (l' + n) (nat t) = take (nat t) tag" "t \<le> int (length tag)"
      "srtp_crypt G (adopt_roc s md n (rcc - srtp_compute_roc s (rtp_seq_of m))) m l' = Done (r, s', m')"
proof (cases "len < 12 \<or> has_flag s SRTP_UNAUTHENTICATED")
  case True
  then show thesis using assms short plain by (auto simp: srtp_recv_def split: if_splits)
next
  case False
  then have a: "\<not> has_flag s SRTP_UNAUTHENTICATED" "12 \<le> len" by auto
  have z: "rcc_mode s = 0 \<or> rtp_rcc s \<noteq> 0" using assms False by (auto simp: srtp_recv_def)
  obtain n t where l: "rcc_layout s (rtp_seq_of m) = (n, t)" by fastforce
  show thesis
  proof (cases "12 + int n + t \<le> int len")
    case short_len: False
    then show thesis using assms False z l short by (auto simp: srtp_recv_def)
  next
    case True
    let ?len1 = "nat (int len - (int n + t))" and ?roc = "srtp_compute_roc s (rtp_seq_of m)"
    define rcc where "rcc = (if n \<noteq> 0 then ntohl (u32_load (mread m ?len1 4)) else ?roc)"
    obtain tag md where d: "rtp_digest G (mac (rtp s)) (mread m 0 ?len1) rcc = (tag, md)"
      by fastforce
    note eq = srtp_recv_auth_eq [OF a z l True refl refl rcc_def d]
    have t: "0 \<le> t" "t \<le> int (length tag)" using assms unfolding eq by (auto split: if_splits)
    show thesis
    proof (cases "mread m (?len1 + n) (nat t) = take (nat t) tag")
      case False
      then show thesis using assms t unfolding eq by (intro denied [OF d]) auto
    next
      case tag_ok: True
      then have l': "l' = ?len1" and
        c: "srtp_crypt G (adopt_roc s md n (rcc - ?roc)) m ?len1 = Done (r, s', m')"
        using assms t unfolding eq by auto
      have "12 \<le> l'" "len = l' + n + nat t" using True t(1) unfolding l' by linarith+
      then show thesis
        using rcc_def d tag_ok t(2) c unfolding l' [symmetric] by (rule passed [OF a(1) l t(1)])
    qed
  qed
qed

text \<open>The length of the SRTP packet for an RTP packet.\<close>

definition srtp_sent_len :: "('c, 'm) srtp_session \<Rightarrow> mem \<Rightarrow> nat \<Rightarrow> nat" where
  "srtp_sent_len s m len = (if has_flag s SRTP_UNAUTHENTICATED then len
     else case rcc_layout s (rtp_seq_of m) of (n, t) \<Rightarrow> len + n + nat t)"

lemma srtp_sent_len_le: "srtp_sent_len s m len \<le> len + 4 + unat (tag_len s)"
proof (cases "rcc_layout s (rtp_seq_of m)")
  case (Pair n t)
  from rcc_layout_sizes(1,2) [OF this] have "n \<le> 4" "nat t \<le> unat (tag_len s)" by linarith+
  then show ?thesis using Pair by (simp add: srtp_sent_len_def)
qed

lemma srtp_send_cases:
  assumes "srtp_send G s m len bufsize = Done (r, s', m', l')"
  obtains (refused) "s' = s" "m' = m" "r = EINVAL \<and> len < 12 \<or> r = ENOSPC \<and> bufsize < l' \<and> 12 \<le> len \<and> l' = srtp_sent_len s m len"
  | (failed) "r \<noteq> 0" "12 \<le> len" "len \<le> bufsize" "srtp_crypt G s m len = Done (r, s', m')"
  | (plain) "r = 0" "has_flag s SRTP_UNAUTHENTICATED" "12 \<le> len" "len \<le> bufsize" "l' = len"
      "srtp_crypt G s m len = Done (0, s', m')"
  | (tagged) n t s1 m1 tag md where "r = 0" "\<not> has_flag s SRTP_UNAUTHENTICATED" "12 \<le> len"
      "rcc_layout s (rtp_seq_of m) = (n, t)" "l' = len + n + nat t" "l' \<le> bufsize"
      "srtp_crypt G s m len = Done (0, s1, m1)" "t \<le> int (length tag)"
      "rtp_digest G (mac (rtp s)) (mread m1 0 len) (srtp_compute_roc s1 (rtp_seq_of m1)) = (tag, md)"
      "s' = s1\<lparr>rtp := (rtp s1)\<lparr>mac := md\<rparr>\<rparr>"
      "m' = mwrite m1 len ((if n \<noteq> 0 then be_bytes32 (rtp_roc s1) else []) @ take (nat t) tag)"
      "rcc_mode s = 0 \<or> 4 \<le> unat (tag_len s) \<and> rtp_rcc s \<noteq> 0"
proof (cases "len < 12")
  case True
  then show thesis using assms refused by (auto simp: srtp_send_def)
next
  case False
  then have len: "12 \<le> len" by simp
  define auth where "auth \<longleftrightarrow> \<not> has_flag s SRTP_UNAUTHENTICATED"
  obtain n t where l: "(if auth then rcc_layout s (rtp_seq_of m) else (0, 0)) = (n, t)" by fastforce
  let ?lenp = "if auth then len + n + nat t else len"
  have ok: "\<not> auth \<or> rcc_mode s = 0 \<or> 4 \<le> unat (tag_len s) \<and> rtp_rcc s \<noteq> 0"
    using assms False by (auto simp: srtp_send_def auth_def not_less split: if_splits)
  show thesis
  proof (cases "bufsize < ?lenp")
    case True
    have "srtp_sent_len s m len = ?lenp" using l by (auto simp: srtp_sent_len_def auth_def)
    then show thesis using True assms False ok l refused len
      by (auto simp: srtp_send_def auth_def [symmetric] Let_def split: if_splits)
  next
    case fits: False
    have "\<exists>v. srtp_crypt G s m len = Done v"
      using assms False ok l fits by (auto simp: srtp_send_def auth_def [symmetric] Let_def split: if_splits)
    then obtain v s1 m1 where c: "srtp_crypt G s m len = Done (v, s1, m1)" by (metis prod_cases3)
    have k: "has_flag s1 SRTP_UNAUTHENTICATED \<longleftrightarrow> \<not> auth" "mac (rtp s1) = mac (rtp s)"
      using srtp_crypt_keeps [OF c] same_config_flag by (auto simp: auth_def)
    show thesis
    proof (cases "v = 0 \<and> auth")
      case False
      moreover have "has_flag s SRTP_UNAUTHENTICATED \<longleftrightarrow> \<not> auth" by (simp add: auth_def)
      ultimately show thesis using assms ok l fits c k failed plain len
        by (auto simp: srtp_send_def Let_def split: if_splits)
    next
      case True
      obtain tag md where d:
        "rtp_digest G (mac (rtp s)) (mread m1 0 len) (srtp_compute_roc s1 (rtp_seq_of m1)) = (tag, md)"
        by fastforce
      let ?w = "(if n \<noteq> 0 then be_bytes32 (rtp_roc s1) else []) @ take (nat t) tag"
      have w: "mwrite (mwrite m1 len (be_bytes32 a)) (len + 4) b = mwrite m1 len (be_bytes32 a @ b)" for a b
        using mwrite_append [of m1 len "be_bytes32 a" b] by simp
      from assms True ok l fits c k d w len have "r = 0" "t \<le> int (length tag)" "l' = len + n + nat t"
          "s' = s1\<lparr>rtp := (rtp s1)\<lparr>mac := md\<rparr>\<rparr>" "m' = mwrite m1 len ?w"
        by (auto simp: srtp_send_def auth_def [symmetric] Let_def split: if_splits)
      with True c d l ok fits len show thesis by (intro tagged) (auto simp: auth_def)
    qed
  qed
qed

end
