(* ===== verification/Srtp_Keys.thy ===== *)
theory Srtp_Keys
  imports Srtp_Cipher
begin

text \<open>
  Key derivation and key setting of \<open>srtp.c\<close>: \<open>do_derive\<close>, \<open>srtp_setkey\<close>, \<open>hexdigit\<close>,
  \<open>hexstring\<close>, \<open>srtp_setkeystring\<close>. Shown are the session keys a successful call installs,
  their agreement with the key derivation of RFC 3711 on the RTP side, which paths keep the
  PRF handle open, and that hexadecimal strings are read back exactly.
\<close>

section \<open>The code\<close>

definition SRTP_CRYPT :: byte where "SRTP_CRYPT = 0"
definition SRTP_AUTH :: byte where "SRTP_AUTH = 1"
definition SRTP_SALT :: byte where "SRTP_SALT = 2"
definition SRTCP_CRYPT :: byte where "SRTCP_CRYPT = 3"
definition SRTCP_AUTH :: byte where "SRTCP_AUTH = 4"
definition SRTCP_SALT :: byte where "SRTCP_SALT = 5"

lemmas label_defs = SRTP_CRYPT_def SRTP_AUTH_def SRTP_SALT_def SRTCP_CRYPT_def
  SRTCP_AUTH_def SRTCP_SALT_def

text \<open>The counter block of the PRF: salt, then label and \<open>r\<close> XORed in.\<close>

definition derive_iv :: "bytes \<Rightarrow> bytes \<Rightarrow> nat \<Rightarrow> byte \<Rightarrow> bytes" where
  "derive_iv slt r rlen label =
     (let iv = take 14 slt @ [0, 0];
          iv1 = iv[13 - rlen := iv ! (13 - rlen) XOR label]
      in foldl (\<lambda>v i. v[16 - rlen + i := v ! (16 - rlen + i) XOR r ! i]) iv1 [0..<rlen])"

text \<open>\<open>out\<close> is the memory from the output pointer on.\<close>

definition do_derive ::
  "('c, 'm, 'w) gcrypt \<Rightarrow> 'c \<Rightarrow> bytes \<Rightarrow> bytes \<Rightarrow> nat \<Rightarrow> byte \<Rightarrow> mem \<Rightarrow> nat \<Rightarrow>
   (int \<times> 'c \<times> mem) outcome" where
  "do_derive G h slt r rlen label out outlen =
     (if \<not> rlen < 14 then Aborted
      else do_ctr_crypt G h (derive_iv slt r rlen label)
             (mwrite out 0 (replicate outlen 0)) 0 outlen)"

definition load_words :: "bytes \<Rightarrow> u32 list" where
  "load_words bs = map (\<lambda>i. u32_load (take 4 (drop (4 * i) bs))) [0..<4]"

definition store_words :: "u32 list \<Rightarrow> bytes" where
  "store_words ws = concat (map u32_store ws)"

text \<open>
  The five calls chained by \<open>||\<close> that derive and install the cipher key, the MAC key and
  the salt of one protocol; \<open>srtp_setkey\<close> has the chain twice, for RTP and for RTCP.
  \<open>kb\<close> is the memory at \<open>keybuf\<close>.
\<close>

definition derive_proto ::
  "('c, 'm, 'w) gcrypt \<Rightarrow> 'c \<Rightarrow> bytes \<Rightarrow> bytes \<Rightarrow> nat \<Rightarrow> byte \<Rightarrow> byte \<Rightarrow> byte \<Rightarrow>
   ('c, 'm) srtp_proto \<Rightarrow> mem \<Rightarrow> (int \<times> 'c \<times> ('c, 'm) srtp_proto \<times> mem) outcome" where
  "derive_proto G h slt r rlen lcrypt lauth lsalt p kb =
     obind (do_derive G h slt r rlen lcrypt kb 16) (\<lambda>(e1, h1, kb1).
     if e1 \<noteq> 0 then Done (-1, h1, p, kb1)
     else case gcry_cipher_setkey G (cipher p) (mread kb1 0 16) of (e2, c') \<Rightarrow>
     let p1 = p\<lparr>cipher := c'\<rparr> in
     if e2 \<noteq> 0 then Done (-1, h1, p1, kb1)
     else obind (do_derive G h1 slt r rlen lauth kb1 20) (\<lambda>(e3, h2, kb2).
     if e3 \<noteq> 0 then Done (-1, h2, p1, kb2)
     else case gcry_md_setkey G (mac p1) (mread kb2 0 20) of (e4, md') \<Rightarrow>
     let p2 = p1\<lparr>mac := md'\<rparr> in
     if e4 \<noteq> 0 then Done (-1, h2, p2, kb2)
     else obind (do_derive G h2 slt r rlen lsalt (mwrite kb2 0 (store_words (salt p2))) 14)
       (\<lambda>(e5, h3, sm).
        let p3 = p2\<lparr>salt := load_words (mread sm 0 16)\<rparr> in
        Done (if e5 \<noteq> 0 then -1 else 0, h3, p3, kb2))))"

text \<open>
  \<open>stack\<close> is what the uninitialised \<open>keybuf\<close> and the memory behind it hold. The bytes of
  \<open>htonl (s->rtcp_index)\<close> replace the first four of \<open>r\<close> before the RTCP derivation. Only
  the path to \<open>return 0\<close> closes the PRF handle.
\<close>

definition srtp_setkey ::
  "('c, 'm, 'w) gcrypt \<Rightarrow> ('c, 'm) srtp_session \<Rightarrow> bytes \<Rightarrow> bytes \<Rightarrow> mem \<Rightarrow> 'w \<Rightarrow>
   (int \<times> ('c, 'm) srtp_session \<times> 'w) outcome" where
  "srtp_setkey G s key slt stack w =
     (if length slt \<noteq> 14 then Done (EINVAL, s, w)
      else case gcry_cipher_open G GCRY_CIPHER_AES GCRY_CIPHER_MODE_CTR 0 w of
        (None, w1) \<Rightarrow> Done (EINVAL, s, w1)
      | (Some h, w1) \<Rightarrow>
      (case gcry_cipher_setkey G h key of (e, h0) \<Rightarrow>
      if e \<noteq> 0 then Done (EINVAL, s, w1)
      else let r = replicate 6 0 in
      obind (derive_proto G h0 slt r 6 SRTP_CRYPT SRTP_AUTH SRTP_SALT (rtp s) stack)
        (\<lambda>(e1, h1, p, kb).
      let s1 = s\<lparr>rtp := p\<rparr> in
      if e1 \<noteq> 0 then Done (-1, s1, w1)
      else let r1 = u32_store (htonl (rtcp_index s1)) @ drop 4 r in
      obind (derive_proto G h1 slt r1 4 SRTCP_CRYPT SRTCP_AUTH SRTCP_SALT (rtcp s1) kb)
        (\<lambda>(e2, h2, q, kb2).
      let s2 = s1\<lparr>rtcp := q\<rparr> in
      if e2 \<noteq> 0 then Done (-1, s2, w1)
      else Done (0, s2, gcry_cipher_close G h2 w1)))))"

definition hexdigit :: "char \<Rightarrow> int" where
  "hexdigit c =
     (let n = of_char c :: int in
      if of_char CHR ''0'' \<le> n \<and> n \<le> of_char CHR ''9'' then n - of_char CHR ''0''
      else if of_char CHR ''A'' \<le> n \<and> n \<le> of_char CHR ''F'' then n - of_char CHR ''A'' + 0xA
      else if of_char CHR ''a'' \<le> n \<and> n \<le> of_char CHR ''f'' then n - of_char CHR ''a'' + 0xa
      else -1)"

text \<open>The loop of \<open>hexstring\<close>: \<open>j\<close> is \<open>i / 2\<close>; \<open>False\<close> is the early \<open>return -1\<close>.\<close>

fun hexloop :: "string \<Rightarrow> nat \<Rightarrow> bytes \<Rightarrow> bool \<times> bytes" where
  "hexloop (x # y # rest) j out =
     (let a = hexdigit x; b = hexdigit y in
      if a = -1 \<or> b = -1 then (False, out)
      else hexloop rest (Suc j) (out[j := word_of_int (push_bit 4 a OR b)]))"
| "hexloop _ j out = (True, out)"

definition hexstring :: "string \<Rightarrow> bytes \<Rightarrow> int \<times> bytes" where
  "hexstring inp out =
     (if length inp > 2 * length out \<or> odd (length inp) then (-1, out)
      else case hexloop inp 0 out of
        (False, out') \<Rightarrow> (-1, out')
      | (True, out') \<Rightarrow> (int (length inp div 2), out'))"

text \<open>\<open>bkey0\<close> and \<open>bsalt0\<close> are the contents of the uninitialised stack arrays.\<close>

definition srtp_setkeystring ::
  "('c, 'm, 'w) gcrypt \<Rightarrow> ('c, 'm) srtp_session \<Rightarrow> string \<Rightarrow> string \<Rightarrow> bytes \<Rightarrow> bytes \<Rightarrow> mem \<Rightarrow>
   'w \<Rightarrow> (int \<times> ('c, 'm) srtp_session \<times> 'w) outcome" where
  "srtp_setkeystring G s key slt bkey0 bsalt0 stack w =
     (case hexstring key (take 16 bkey0) of (bkeylen, bkey) \<Rightarrow>
      case hexstring slt (take 14 bsalt0) of (bsaltlen, bsalt) \<Rightarrow>
      if bkeylen = -1 \<or> bsaltlen = -1 then Done (EINVAL, s, w)
      else obind (srtp_setkey G s (take (nat bkeylen) bkey) (take (nat bsaltlen) bsalt) stack w)
        (\<lambda>(r, s', w'). Done (if r \<noteq> 0 then EINVAL else 0, s', w')))"

section \<open>Hexadecimal strings\<close>

text \<open>The usual spelling of bytes in lower case digits.\<close>

definition hexchar :: "nat \<Rightarrow> char" where
  "hexchar n = (if n < 10 then char_of (48 + n) else char_of (87 + n))"

definition hexprint :: "bytes \<Rightarrow> string" where
  "hexprint bs = concat (map (\<lambda>b. [hexchar (unat b div 16), hexchar (unat b mod 16)]) bs)"

lemma of_char_int: "(of_char (char_of (n :: nat)) :: int) = int (n mod 256)"
  by (metis of_char_of of_nat_of_char)

lemma hexchars:
  "(of_char CHR ''0'' :: int) = 48" "(of_char CHR ''9'' :: int) = 57"
  "(of_char CHR ''A'' :: int) = 65" "(of_char CHR ''F'' :: int) = 70"
  "(of_char CHR ''a'' :: int) = 97" "(of_char CHR ''f'' :: int) = 102"
  by simp_all

lemma hexdigit_code: "hexdigit c =
   (let n = of_char c :: int in
    if 48 \<le> n \<and> n \<le> 57 then n - 48 else if 65 \<le> n \<and> n \<le> 70 then n - 55
    else if 97 \<le> n \<and> n \<le> 102 then n - 87 else -1)"
  unfolding hexdigit_def hexchars Let_def by simp

lemma hexdigit_hexchar: "n < 16 \<Longrightarrow> hexdigit (hexchar n) = int n"
  unfolding hexdigit_code hexchar_def Let_def
  by (cases "n < 10") (simp_all only: of_char_int if_True if_False, simp_all)

lemma nibbles: "word_of_int (push_bit 4 (int (unat b div 16)) OR int (unat b mod 16)) = (b :: byte)"
proof -
  have "push_bit 4 (int (unat b div 16)) OR int (unat b mod 16) =
      push_bit 4 (drop_bit 4 (uint b)) OR take_bit 4 (uint b)"
    by (simp add: drop_bit_eq_div take_bit_eq_mod zdiv_int zmod_int)
  also have "\<dots> = uint b" by (rule bit_eqI) (auto simp: bit_simps)
  finally show ?thesis by simp
qed

lemma hexloop_print:
  "j + length bs \<le> length out \<Longrightarrow>
   hexloop (hexprint bs) j out = (True, take j out @ bs @ drop (j + length bs) out)"
proof (induction bs arbitrary: j out)
  case Nil
  then show ?case by (simp add: hexprint_def)
next
  case (Cons b bs)
  let ?out = "out[j := b]"
  have d: "hexdigit (hexchar (unat b div 16)) = int (unat b div 16)"
      "hexdigit (hexchar (unat b mod 16)) = int (unat b mod 16)"
    using unsigned_less [of b, where 'a = nat] by (auto intro!: hexdigit_hexchar)
  have "hexloop (hexprint bs) (Suc j) ?out =
      (True, take (Suc j) ?out @ bs @ drop (Suc j + length bs) ?out)"
    using Cons.prems by (intro Cons.IH) simp
  moreover have "take (Suc j) ?out = take j out @ [b]"
    using Cons.prems by (simp add: take_Suc_conv_app_nth)
  moreover have "hexloop (hexprint (b # bs)) j out = hexloop (hexprint bs) (Suc j) ?out"
    by (simp add: hexprint_def d nibbles)
  ultimately show ?case using Cons.prems by simp
qed

lemma length_hexprint [simp]: "length (hexprint bs) = 2 * length bs"
  by (induction bs) (simp_all add: hexprint_def)

lemma hexstring_print:
  "length bs \<le> length out \<Longrightarrow>
   hexstring (hexprint bs) out = (int (length bs), bs @ drop (length bs) out)"
  by (simp add: hexstring_def hexloop_print)

lemma hexloop_ok_iff:
  "even (length inp) \<Longrightarrow> fst (hexloop inp j out) \<longleftrightarrow> (\<forall>c \<in> set inp. hexdigit c \<noteq> -1)"
  by (induction inp j out rule: hexloop.induct) (auto simp: Let_def)

lemma length_hexloop [simp]: "length (snd (hexloop inp j out)) = length out"
  by (induction inp j out rule: hexloop.induct) (auto simp: Let_def)

lemma length_hexstring: "hexstring inp out = (n, out') \<Longrightarrow> length out' = length out"
  by (auto simp: hexstring_def split: if_splits prod.splits bool.splits)
    (metis length_hexloop snd_conv)+

section \<open>What key derivation computes\<close>

definition kstream :: "(bytes \<Rightarrow> bytes \<Rightarrow> nat \<Rightarrow> byte) \<Rightarrow> bytes \<Rightarrow> bytes \<Rightarrow> nat \<Rightarrow> bytes" where
  "kstream ks k c n = map (ks k c) [0..<n]"

lemma length_kstream [simp]: "length (kstream ks k c n) = n"
  by (simp add: kstream_def)

text \<open>The library takes every AES-128 key and every HMAC key.\<close>

definition accepts_keys :: "('c, 'm, 'w) gcrypt \<Rightarrow> bool" where
  "accepts_keys G \<longleftrightarrow> (\<forall>h k. length k = 16 \<longrightarrow> fst (gcry_cipher_setkey G h k) = 0) \<and>
     (\<forall>h k. fst (gcry_md_setkey G h k) = 0)"

lemma stub_accepts_keys: "accepts_keys stub_gcrypt"
  by (auto simp: accepts_keys_def stub_gcrypt_def)

lemma length_foldl_update [simp]:
  "length (foldl (\<lambda>v i. v[f i := g v i]) xs is) = length xs"
  by (induction "is" arbitrary: xs) simp_all

lemma length_derive_iv [simp]: "14 \<le> length slt \<Longrightarrow> length (derive_iv slt r rlen label) = 16"
  by (simp add: derive_iv_def Let_def)

lemma length_store_words: "length ws = 4 \<Longrightarrow> length (store_words ws) = 16"
  by (elim length_4_cases) (simp add: store_words_def)

lemma length_load_words [simp]: "length (load_words bs) = 4"
  by (simp add: load_words_def)

lemma store_load_words:
  assumes "length bs = 16"
  shows "store_words (load_words bs) = bs"
proof -
  have 4: "length (take 4 (drop i bs)) = 4" if "i \<le> 12" for i using assms that by simp
  have "bs = take 4 bs @ take 4 (drop 4 bs) @ take 4 (drop 8 bs) @ take 4 (drop 12 bs)"
    using take_add [of 4 "4 + (4 + 4)" bs] take_add [of 4 "4 + 4" "drop 4 bs"]
      take_add [of 4 4 "drop 8 bs"] assms by simp
  then show ?thesis
    using 4 [of 0] 4 [of 4] 4 [of 8] 4 [of 12] assms
    by (simp add: store_words_def load_words_def u32_store_load upt_rec)
qed

lemma do_derive_ctr:
  assumes "ctr_cipher G key strm ks" "key h = Some k" "14 \<le> length slt" "rlen < 14" "n < 2 ^ 31"
  shows "\<exists>h' m'. do_derive G h slt r rlen label out n = Done (0, h', m') \<and> key h' = Some k \<and>
    mread m' 0 n = kstream ks k (derive_iv slt r rlen label) n \<and> (\<forall>i \<ge> n. m' i = out i)"
proof -
  let ?m = "mwrite out 0 (replicate n 0)" and ?iv = "derive_iv slt r rlen label"
  obtain h' where "do_ctr_crypt G h ?iv ?m 0 n = Done (0, h', ctr_apply (ks k ?iv) ?m 0 n)"
      and "key h' = Some k"
    using do_ctr_crypt_ctr [OF assms(1,2) _ assms(5)] assms(3) by (metis length_derive_iv)
  moreover have "mread (ctr_apply (ks k ?iv) ?m 0 n) 0 n = kstream ks k ?iv n"
    by (rule nth_equalityI) (simp_all add: ctr_apply_at mwrite_def kstream_def)
  ultimately show ?thesis using assms(4)
    by (auto simp: do_derive_def ctr_apply_at mwrite_def)
qed

text \<open>What the chain of five calls installs in a protocol half of the session.\<close>

lemma derive_proto_ctr:
  assumes G: "ctr_cipher G key strm ks" "keyed_cipher G key" "keyed_md G mkey" "accepts_keys G"
    and h: "key h = Some k" "length slt = 14" "rlen < 14" and p: "length (salt p) = 4"
  shows "\<exists>h' p' kb'. derive_proto G h slt r rlen lc la ls p kb = Done (0, h', p', kb') \<and>
    key h' = Some k \<and> key (cipher p') = Some (kstream ks k (derive_iv slt r rlen lc) 16) \<and>
    mkey (mac p') = Some (kstream ks k (derive_iv slt r rlen la) 20) \<and>
    salt p' = load_words (kstream ks k (derive_iv slt r rlen ls) 14 @ drop 14 (store_words (salt p))) \<and>
    window p' = window p"
proof -
  have len: "14 \<le> length slt" using h(2) by simp
  obtain h1 k1 where d1: "do_derive G h slt r rlen lc kb 16 = Done (0, h1, k1)" "key h1 = Some k"
      "mread k1 0 16 = kstream ks k (derive_iv slt r rlen lc) 16"
    using do_derive_ctr [OF G(1) h(1) len h(3), of 16 r lc kb] by auto
  obtain c where c: "gcry_cipher_setkey G (cipher p) (mread k1 0 16) = (0, c)"
    using G(4) unfolding accepts_keys_def by (metis length_mread prod.collapse)
  then have ck: "key c = Some (mread k1 0 16)" using G(2) unfolding keyed_cipher_def by blast
  obtain h2 k2 where d2: "do_derive G h1 slt r rlen la k1 20 = Done (0, h2, k2)" "key h2 = Some k"
      "mread k2 0 20 = kstream ks k (derive_iv slt r rlen la) 20"
    using do_derive_ctr [OF G(1) d1(2) len h(3), of 20 r la k1] by auto
  obtain d where d: "gcry_md_setkey G (mac p) (mread k2 0 20) = (0, d)"
    using G(4) unfolding accepts_keys_def by (metis prod.collapse)
  then have dk: "mkey d = Some (mread k2 0 20)" using G(3) unfolding keyed_md_def by blast
  let ?sm = "mwrite k2 0 (store_words (salt p))"
  obtain h3 k3 where d3: "do_derive G h2 slt r rlen ls ?sm 14 = Done (0, h3, k3)" "key h3 = Some k"
      "mread k3 0 14 = kstream ks k (derive_iv slt r rlen ls) 14" "\<forall>i \<ge> 14. k3 i = ?sm i"
    using do_derive_ctr [OF G(1) d2(2) len h(3), of 14 r ls ?sm] by auto
  have "mread k3 14 2 = drop 14 (store_words (salt p))"
    using d3(4) length_store_words [OF p]
    by (intro nth_equalityI) (simp_all add: mwrite_def)
  then have "mread k3 0 16 = mread k3 0 14 @ drop 14 (store_words (salt p))"
    using mread_split [of k3 0 14 2] by simp
  then show ?thesis
    using d1 d2 d3 c d ck dk by (auto simp: derive_proto_def Let_def)
qed

section \<open>The PRF counter block\<close>

lemma foldl_xor_zeros:
  "(\<And>i. i \<in> set is \<Longrightarrow> r ! i = 0) \<Longrightarrow>
   foldl (\<lambda>v i. v[f i := v ! f i XOR r ! i]) xs is = (xs :: bytes)"
  by (induction "is" arbitrary: xs) simp_all

lemma derive_iv_zeros:
  assumes "length slt = 14" and "rlen < 14" and "\<And>i. i < rlen \<Longrightarrow> r ! i = 0"
  shows "derive_iv slt r rlen label =
    xor_bytes (slt @ [0, 0]) (replicate (13 - rlen) 0 @ [label] @ replicate (2 + rlen) 0)"
    (is "_ = xor_bytes ?a ?b")
proof -
  have "derive_iv slt r rlen label = ?a[13 - rlen := ?a ! (13 - rlen) XOR label]"
    unfolding derive_iv_def Let_def by (subst foldl_xor_zeros) (use assms in auto)
  also have "\<dots> = xor_bytes ?a ?b"
  proof (rule nth_equalityI)
    fix i assume "i < length (?a[13 - rlen := ?a ! (13 - rlen) XOR label])"
    then have i: "i < 16" using assms by simp
    have b: "?b ! i = (if i = 13 - rlen then label else 0)"
      using i assms(2) by (auto simp: nth_append nth_Cons split: nat.split)
    have "xor_bytes ?a ?b ! i = ?a ! i XOR ?b ! i"
      using i assms by (intro nth_xor_bytes) auto
    moreover have "?a[13 - rlen := ?a ! (13 - rlen) XOR label] ! i =
        (if i = 13 - rlen then ?a ! i XOR label else ?a ! i)"
      using i assms by (simp add: nth_list_update)
    ultimately show "?a[13 - rlen := ?a ! (13 - rlen) XOR label] ! i = xor_bytes ?a ?b ! i"
      unfolding b by simp
  qed (use assms in simp)
  finally show ?thesis .
qed

lemma be_word128_derive_iv:
  assumes "length slt = 14" and "rlen < 14" and "\<And>i. i < rlen \<Longrightarrow> r ! i = 0"
  shows "be_word128 (derive_iv slt r rlen label) =
    push_bit 16 (be_word128 slt XOR push_bit (8 * rlen) (ucast label))"
proof -
  have "be_word128 (slt @ [0, 0]) = push_bit 16 (be_word128 slt)"
    using be_word128_append [of slt "[0, 0]"] be_word128_zeros [of 2]
    by (simp add: numeral_eq_Suc)
  moreover have "be_word128 (replicate (13 - rlen) 0 @ [label] @ replicate (2 + rlen) 0) =
      push_bit (8 * (2 + rlen)) (ucast label)"
    using be_word128_snoc [of "[]" label]
    by (simp only: be_word128_append be_word128_zeros length_replicate) simp
  ultimately show ?thesis
    using assms by (simp add: derive_iv_zeros be_word128_xor push_bit_xor push_bit_push_bit)
qed

section \<open>Setting keys: paths and results\<close>

text \<open>
  A session half keyed by \<open>srtp_setkey\<close>: cipher key, MAC key and salt are the first 16, 20
  and 14 bytes of the PRF's key streams for the three labels.
\<close>

definition keyed_by ::
  "('c \<Rightarrow> bytes option) \<Rightarrow> ('m \<Rightarrow> bytes option) \<Rightarrow> (bytes \<Rightarrow> bytes \<Rightarrow> nat \<Rightarrow> byte) \<Rightarrow> bytes \<Rightarrow>
   (byte \<Rightarrow> bytes) \<Rightarrow> byte \<Rightarrow> byte \<Rightarrow> byte \<Rightarrow> ('c, 'm) srtp_proto \<Rightarrow> bool" where
  "keyed_by key mkey ks k iv lc la ls p \<longleftrightarrow>
     key (cipher p) = Some (kstream ks k (iv lc) 16) \<and>
     mkey (mac p) = Some (kstream ks k (iv la) 20) \<and>
     take 14 (store_words (salt p)) = kstream ks k (iv ls) 14"

lemma keyed_byI:
  assumes "key (cipher p') = Some (kstream ks k (iv lc) 16)" "mkey (mac p') = Some (kstream ks k (iv la) 20)"
    and "salt p' = load_words (kstream ks k (iv ls) 14 @ drop 14 (store_words (salt p)))" "length (salt p) = 4"
  shows "keyed_by key mkey ks k iv lc la ls p'"
  using assms by (simp add: keyed_by_def store_load_words length_store_words)

lemma derive_proto_keeps:
  assumes "derive_proto G h slt r rlen lc la ls p kb = Done (e, h', p', kb')"
  shows "window p' = window p \<and> (length (salt p) = 4 \<longrightarrow> length (salt p') = 4)"
  using assms by (auto simp: derive_proto_def Let_def split: if_splits prod.splits)

text \<open>Every run of \<open>srtp_setkey\<close> leaves everything but the keys as it was.\<close>

lemma srtp_setkey_keeps:
  assumes "srtp_setkey G s k slt stack w = Done (e, s', w')"
  shows "flags s' = flags s \<and> rtcp_index s' = rtcp_index s \<and> rtp_roc s' = rtp_roc s \<and>
    rtp_seq s' = rtp_seq s \<and> rtp_rcc s' = rtp_rcc s \<and> tag_len s' = tag_len s \<and>
    window (rtp s') = window (rtp s) \<and> window (rtcp s') = window (rtcp s) \<and>
    (length (salt (rtp s)) = 4 \<longrightarrow> length (salt (rtp s')) = 4) \<and>
    (length (salt (rtcp s)) = 4 \<longrightarrow> length (salt (rtcp s')) = 4)"
  using assms unfolding srtp_setkey_def
  by (auto simp: Let_def split: if_splits prod.splits option.splits dest!: derive_proto_keeps)

lemma srtp_setkey_wf: "srtp_setkey G s k slt stack w = Done (e, s', w') \<Longrightarrow> srtp_wf s \<Longrightarrow> srtp_wf s'"
  by (drule srtp_setkey_keeps) (simp add: srtp_wf_def rcc_mode_def)

lemma do_derive_returns:
  "rlen < 14 \<Longrightarrow> n < 2 ^ 31 \<Longrightarrow> returns (do_derive G h slt r rlen label out n)"
  by (simp add: do_derive_def do_ctr_crypt_returns)

lemma derive_proto_returns: "rlen < 14 \<Longrightarrow> returns (derive_proto G h slt r rlen lc la ls p kb)"
  unfolding derive_proto_def Let_def
  by (auto split: prod.splits intro!: returnsI do_derive_returns)

lemma srtp_setkey_returns: "returns (srtp_setkey G s k slt stack w)"
  unfolding srtp_setkey_def Let_def
  by (auto split: prod.splits option.splits intro!: returnsI derive_proto_returns)

lemma length_u32_r: "length (u32_store w @ drop 4 (replicate 6 0)) = 6"
  by simp

section \<open>Properties\<close>

text \<open>
  \<open>hexstring\<close> reads back what a hexadecimal printer writes: for bytes that fit the
  output array it returns their number, stores them at the front and leaves the rest of the
  array alone.
\<close>

theorem hexstring_roundtrip:
  assumes "length bs \<le> length out"
  shows "hexstring (hexprint bs) out = (int (length bs), bs @ drop (length bs) out)"
  by (rule hexstring_print [OF assms])

theorem hexstring_roundtrip_witness:
  "hexstring (hexprint [0x0A, 0xFF]) [1, 2, 3] = (2, [0x0A, 0xFF, 3])"
  using hexstring_roundtrip [of "[0x0A, 0xFF]" "[1, 2, 3]"] by simp

text \<open>
  \<open>hexstring\<close> fails exactly on a string that is too long for the array, has an odd
  number of characters, or holds a character that is no hexadecimal digit.
\<close>

theorem hexstring_error_iff:
  "fst (hexstring inp out) = -1 \<longleftrightarrow>
     2 * length out < length inp \<or> length inp mod 2 = 1 \<or> list_ex (\<lambda>c. hexdigit c = -1) inp"
  using hexloop_ok_iff [of inp 0 out]
  by (auto simp: hexstring_def list_ex_iff odd_iff_mod_2_eq_one [symmetric]
      split: prod.splits bool.splits)

text \<open>The same with the salts to the last byte: the two bytes the PRF does not reach are kept.\<close>

lemma srtp_setkey_ctr:
  assumes G: "ctr_cipher G key strm ks" "keyed_cipher G key" "keyed_md G mkey" "accepts_keys G"
    and args: "length k = 16" "length slt = 14" and wf: "srtp_wf s"
    and op: "gcry_cipher_open G GCRY_CIPHER_AES GCRY_CIPHER_MODE_CTR 0 w = (Some h, w1)"
  shows "\<exists>s' h'. srtp_setkey G s k slt stack w = Done (0, s', gcry_cipher_close G h' w1) \<and>
    keyed_by key mkey ks k (derive_iv slt (replicate 6 0) 6) SRTP_CRYPT SRTP_AUTH SRTP_SALT (rtp s') \<and>
    salt (rtp s') = load_words (kstream ks k (derive_iv slt (replicate 6 0) 6 SRTP_SALT) 14 @
      drop 14 (store_words (salt (rtp s)))) \<and>
    keyed_by key mkey ks k (derive_iv slt (be_bytes32 (rtcp_index s) @ [0, 0]) 4)
      SRTCP_CRYPT SRTCP_AUTH SRTCP_SALT (rtcp s') \<and>
    salt (rtcp s') = load_words (kstream ks k (derive_iv slt (be_bytes32 (rtcp_index s) @ [0, 0]) 4 SRTCP_SALT) 14 @
      drop 14 (store_words (salt (rtcp s)))) \<and> kdr s' = kdr s"
proof -
  have l: "length (salt (rtp s)) = 4" "length (salt (rtcp s)) = 4" using wf by (auto simp: srtp_wf_def)
  obtain h0 where h0: "gcry_cipher_setkey G h k = (0, h0)"
    using G(4) args(1) unfolding accepts_keys_def by (metis prod.collapse)
  then have k0: "key h0 = Some k" using G(2) unfolding keyed_cipher_def by blast
  let ?iv1 = "derive_iv slt (replicate 6 0) 6"
    and ?iv2 = "derive_iv slt (be_bytes32 (rtcp_index s) @ [0, 0]) 4"
  have "6 < (14 :: nat)" "4 < (14 :: nat)" by simp_all
  note rl = this
  from derive_proto_ctr [OF G k0 args(2) rl(1) l(1), of "replicate 6 0" SRTP_CRYPT SRTP_AUTH SRTP_SALT stack]
  obtain h1 p kb where 1: "derive_proto G h0 slt (replicate 6 0) 6 SRTP_CRYPT SRTP_AUTH SRTP_SALT (rtp s) stack
        = Done (0, h1, p, kb)" "key h1 = Some k" "key (cipher p) = Some (kstream ks k (?iv1 SRTP_CRYPT) 16)"
      "mkey (mac p) = Some (kstream ks k (?iv1 SRTP_AUTH) 20)"
      "salt p = load_words (kstream ks k (?iv1 SRTP_SALT) 14 @ drop 14 (store_words (salt (rtp s))))"
    by blast
  from derive_proto_ctr [OF G 1(2) args(2) rl(2) l(2), of "be_bytes32 (rtcp_index s) @ [0, 0]"
      SRTCP_CRYPT SRTCP_AUTH SRTCP_SALT kb]
  obtain h2 q kb2 where 2: "derive_proto G h1 slt (be_bytes32 (rtcp_index s) @ [0, 0]) 4
        SRTCP_CRYPT SRTCP_AUTH SRTCP_SALT (rtcp s) kb = Done (0, h2, q, kb2)"
      "key (cipher q) = Some (kstream ks k (?iv2 SRTCP_CRYPT) 16)"
      "mkey (mac q) = Some (kstream ks k (?iv2 SRTCP_AUTH) 20)"
      "salt q = load_words (kstream ks k (?iv2 SRTCP_SALT) 14 @ drop 14 (store_words (salt (rtcp s))))"
    by blast
  have k: "keyed_by key mkey ks k ?iv1 SRTP_CRYPT SRTP_AUTH SRTP_SALT p"
      "keyed_by key mkey ks k ?iv2 SRTCP_CRYPT SRTCP_AUTH SRTCP_SALT q"
    using 1(3-5) l(1) 2(2-4) l(2) by (auto intro: keyed_byI)
  have "drop 4 (replicate 6 (0 :: byte)) = [0, 0]" by (simp add: numeral_eq_Suc)
  then show ?thesis
    using args(2) op h0 1(1,5) 2(1,4) k by (auto simp: srtp_setkey_def Let_def)
qed

text \<open>
  (C20) A successful \<open>srtp_setkey\<close> with a 16 byte master key and a 14 byte master salt
  installs, for RTP, the cipher key, MAC key and salt that the PRF's key streams give for
  the labels 0, 1, 2, and for RTCP those for the labels 3, 4, 5 with the current SRTCP index
  as \<open>r\<close>; with a library that takes the keys it does succeed, closing the PRF handle.
\<close>

theorem srtp_setkey_installs_keys:
  assumes G: "ctr_cipher G key strm ks" "keyed_cipher G key" "keyed_md G mkey" "accepts_keys G"
    and args: "length k = 16" "length slt = 14" and wf: "srtp_wf s"
    and op: "gcry_cipher_open G GCRY_CIPHER_AES GCRY_CIPHER_MODE_CTR 0 w = (Some h, w1)"
  shows "\<exists>s' h'. srtp_setkey G s k slt stack w = Done (0, s', gcry_cipher_close G h' w1) \<and>
    keyed_by key mkey ks k (derive_iv slt (replicate 6 0) 6) SRTP_CRYPT SRTP_AUTH SRTP_SALT (rtp s') \<and>
    keyed_by key mkey ks k (derive_iv slt (be_bytes32 (rtcp_index s) @ [0, 0]) 4)
      SRTCP_CRYPT SRTCP_AUTH SRTCP_SALT (rtcp s')"
  using srtp_setkey_ctr [OF assms, of stack] by blast

definition demo_key :: bytes where "demo_key = map of_nat [1..<17]"
definition demo_salt :: bytes where "demo_salt = map of_nat [20..<34]"

lemma stub_session_wf: "srtp_wf stub_session"
  by (simp add: srtp_wf_def stub_session_def stub_proto_def flag_defs rcc_mode_def)

theorem srtp_setkey_installs_keys_witness:
  "\<exists>s' h'. srtp_setkey stub_gcrypt stub_session demo_key demo_salt (\<lambda>_. 0xAA) (4, 1, 8) =
      Done (0, s', gcry_cipher_close stub_gcrypt h' (5, 1, 8)) \<and>
    fst (cipher (rtp s')) = Some (kstream stub_ks demo_key (derive_iv demo_salt (replicate 6 0) 6 0) 16)"
proof -
  have "gcry_cipher_open stub_gcrypt GCRY_CIPHER_AES GCRY_CIPHER_MODE_CTR 0 (4, 1, 8) =
      (Some (None, [], 0), (5, 1, 8))"
    by (simp add: stub_gcrypt_def)
  from srtp_setkey_installs_keys [OF stub_ctr_cipher stub_keyed_cipher stub_keyed_md
      stub_accepts_keys _ _ stub_session_wf this, of demo_key demo_salt "\<lambda>_. 0xAA"]
  show ?thesis by (auto simp: demo_key_def demo_salt_def keyed_by_def SRTP_CRYPT_def)
qed

text \<open>
  The RTP side of the derivation is the one of RFC 3711 section 4.3 for key derivation
  rate 0: the PRF runs from \<open>(master_salt XOR (label * 2^48)) * 2^16\<close>.
\<close>

theorem derive_iv_rfc3711:
  assumes "length slt = 14"
  shows "be_word128 (derive_iv slt (replicate 6 0) 6 label) =
    push_bit 16 (be_word128 slt XOR push_bit 48 (ucast label))"
  using be_word128_derive_iv [OF assms, of 6 "replicate 6 0" label] by simp

theorem derive_iv_rfc3711_witness:
  "be_word128 (derive_iv (replicate 14 0) (replicate 6 0) 6 SRTP_AUTH) = push_bit 64 1"
  using derive_iv_rfc3711 [of "replicate 14 0" SRTP_AUTH] be_word128_zeros [of 14]
  by (simp add: SRTP_AUTH_def push_bit_push_bit)

text \<open>
  The RTCP side is not: with \<open>rlen = 4\<close> the label lands two bytes too far right, so
  for every RTCP label the counter block differs from the one RFC 3711 prescribes.
\<close>

theorem derive_iv_rtcp_differs:
  assumes "length slt = 14" and "label \<in> {SRTCP_CRYPT, SRTCP_AUTH, SRTCP_SALT}"
  shows "be_word128 (derive_iv slt (replicate 6 0) 4 label) \<noteq>
    push_bit 16 (be_word128 slt XOR push_bit 48 (ucast label))"
proof
  assume "be_word128 (derive_iv slt (replicate 6 0) 4 label) =
    push_bit 16 (be_word128 slt XOR push_bit 48 (ucast label))"
  then have "push_bit 16 (be_word128 slt XOR push_bit 32 (ucast label)) =
      push_bit 16 (be_word128 slt XOR push_bit 48 (ucast label))"
    using be_word128_derive_iv [OF assms(1), of 4 "replicate 6 0" label] by simp
  then have "push_bit 16 (be_word128 slt) XOR (push_bit 48 (ucast label) :: 128 word) =
      push_bit 16 (be_word128 slt) XOR push_bit 64 (ucast label)"
    by (simp add: push_bit_xor push_bit_push_bit)
  then have "(push_bit 48 (ucast label) :: 128 word) = push_bit 64 (ucast label)"
    by (simp only: word_xor_left_cancel)
  with assms(2) show False by (auto simp: label_defs)
qed

theorem derive_iv_rtcp_differs_witness:
  "be_word128 (derive_iv demo_salt (replicate 6 0) 4 SRTCP_CRYPT) \<noteq>
    push_bit 16 (be_word128 demo_salt XOR push_bit 48 (ucast SRTCP_CRYPT))"
  by (rule derive_iv_rtcp_differs) (simp_all add: demo_salt_def)

text \<open>
  The PRF handle of \<open>srtp_setkey\<close>: once it is open, a call that returns 0 closes it and
  every call that returns an error (a master key of the wrong size included) leaves one more
  handle open than before.
\<close>

theorem srtp_setkey_handles:
  assumes rc: "resource_count G handles blocks" and "length slt = 14"
    and "gcry_cipher_open G GCRY_CIPHER_AES GCRY_CIPHER_MODE_CTR 0 w = (Some h, w1)"
    and "srtp_setkey G s k slt stack w = Done (e, s', w')"
  shows "handles w' = handles w + (if e = 0 then 0 else 1)"
proof -
  have "handles w1 = handles w + 1" and "\<And>h v. handles (gcry_cipher_close G h v) = handles v - 1"
    using rc assms(3) unfolding resource_count_def by auto
  with assms(2-) show ?thesis
    by (auto simp: srtp_setkey_def Let_def split: if_splits prod.splits)
qed

theorem srtp_setkey_handles_witness:
  "\<exists>s' w'. srtp_setkey stub_gcrypt stub_session [1, 2, 3] demo_salt (\<lambda>_. 0) (4, 1, 8) =
      Done (EINVAL, s', w') \<and> fst w' = 5"
proof -
  have op: "gcry_cipher_open stub_gcrypt GCRY_CIPHER_AES GCRY_CIPHER_MODE_CTR 0 (4, 1, 8) =
      (Some (None, [], 0), (5, 1, 8))"
    by (simp add: stub_gcrypt_def)
  have len: "length demo_salt = 14" by (simp add: demo_salt_def)
  have "srtp_setkey stub_gcrypt stub_session [1, 2, 3] demo_salt (\<lambda>_. 0) (4, 1, 8) =
      Done (EINVAL, stub_session, (5, 1, 8))"
    by (simp add: srtp_setkey_def len op) (simp add: stub_gcrypt_def)
  with srtp_setkey_handles [OF stub_resource_count len op this] show ?thesis by auto
qed

text \<open>
  (C34) \<open>srtp_setkeystring\<close> on the hexadecimal spelling of a key and a salt that fit its
  arrays does what \<open>srtp_setkey\<close> does on the bytes, with every error turned into \<open>EINVAL\<close>.
\<close>

theorem srtp_setkeystring_setkey:
  assumes "length bkey0 = 16" and "length bsalt0 = 14" and "length k \<le> 16" and "length slt \<le> 14"
  shows "srtp_setkeystring G s (hexprint k) (hexprint slt) bkey0 bsalt0 stack w =
    obind (srtp_setkey G s k slt stack w)
      (\<lambda>(r, s', w'). Done (if r \<noteq> 0 then EINVAL else 0, s', w'))"
  using assms by (simp add: srtp_setkeystring_def hexstring_print)

theorem srtp_setkeystring_setkey_witness:
  "srtp_setkeystring stub_gcrypt stub_session (hexprint [1, 2]) (hexprint [3]) (replicate 16 9)
      (replicate 14 9) (\<lambda>_. 0) (4, 1, 8) = Done (EINVAL, stub_session, (4, 1, 8))"
  using srtp_setkeystring_setkey [of "replicate 16 9" "replicate 14 9" "[1, 2]" "[3]"
      stub_gcrypt stub_session "\<lambda>_. 0" "(4, 1, 8)"]
  by (simp add: srtp_setkey_def)

end
