(* ===== verification/Srtp_Channel.thy ===== *)
theory Srtp_Channel
  imports Srtp_Packet Srtp_Keys
begin

text \<open>
  What \<open>srtp_send\<close> and \<open>srtp_recv\<close> achieve on a keyed session, given the documented
  behaviour of the library: the image of a packet on the wire, that the receiver gives the
  sender's packet back (one packet, and a whole stream), that only authentic packets pass,
  that refused packets change nothing, that no packet index is accepted twice, and that the
  buffers are not overrun.
\<close>

section \<open>Keyed sessions\<close>

definition rtp_keyed ::
  "('c \<Rightarrow> bytes option) \<Rightarrow> ('m \<Rightarrow> bytes option) \<Rightarrow> bytes \<Rightarrow> bytes \<Rightarrow> nat \<Rightarrow>
   ('c, 'm) srtp_session \<Rightarrow> bool" where
  "rtp_keyed key mkey k km dlen s \<longleftrightarrow> srtp_wf s \<and> key (cipher (rtp s)) = Some k \<and>
     mkey (mac (rtp s)) = Some km \<and> unat (tag_len s) \<le> dlen"

text \<open>The library as the packet layer uses it.\<close>

definition srtp_library ::
  "('c, 'm, 'w) gcrypt \<Rightarrow> ('c \<Rightarrow> bytes option) \<Rightarrow> ('c \<Rightarrow> nat \<Rightarrow> byte) \<Rightarrow>
   (bytes \<Rightarrow> bytes \<Rightarrow> nat \<Rightarrow> byte) \<Rightarrow> ('m \<Rightarrow> bytes option) \<Rightarrow> ('m \<Rightarrow> bytes) \<Rightarrow>
   (bytes \<Rightarrow> bytes \<Rightarrow> bytes) \<Rightarrow> nat \<Rightarrow> bool" where
  "srtp_library G key strm ks mkey mdata hmac dlen \<longleftrightarrow>
     ctr_cipher G key strm ks \<and> hmac_md G mkey mdata hmac dlen"

lemma stub_library: "srtp_library stub_gcrypt fst stub_strm stub_ks fst snd stub_hmac 20"
  by (simp add: srtp_library_def stub_ctr_cipher stub_hmac_md)

lemma rtp_digest_hmac:
  assumes "srtp_library G key strm ks mkey mdata hmac dlen" and "mkey md = Some km"
  shows "\<exists>md'. rtp_digest G md data roc = (hmac km (data @ be_bytes32 roc), md') \<and>
    mkey md' = Some km" and "length (hmac km d) = dlen"
proof -
  have h: "hmac_md G mkey mdata hmac dlen" using assms(1) by (simp add: srtp_library_def)
  let ?h = "gcry_md_write G (gcry_md_write G (gcry_md_reset G md) data) (u32_store (htonl roc))"
  have "mkey ?h = Some km" "mdata ?h = data @ be_bytes32 roc"
    using h assms(2) by (simp_all add: hmac_md_def)
  then have "fst (gcry_md_read G ?h) = hmac km (data @ be_bytes32 roc)"
      "mkey (snd (gcry_md_read G ?h)) = Some km"
    using h unfolding hmac_md_def by metis+
  then show "\<exists>md'. rtp_digest G md data roc = (hmac km (data @ be_bytes32 roc), md') \<and> mkey md' = Some km"
    unfolding rtp_digest_def by (metis prod.collapse)
  show "length (hmac km d) = dlen" using h by (simp add: hmac_md_def)
qed

section \<open>The packet on the wire\<close>

definition packet_counter :: "('c, 'm) srtp_session \<Rightarrow> mem \<Rightarrow> u32 \<Rightarrow> bytes" where
  "packet_counter s m roc = concat (map u32_store
     (rtp_counter (u32_load (mread m 8 4)) roc (rtp_seq_of m) (salt (rtp s))))"

lemma length_packet_counter [simp]: "length (packet_counter s m roc) = 16"
  by (simp add: packet_counter_def rtp_counter_def)

definition crypt_image ::
  "(bytes \<Rightarrow> bytes \<Rightarrow> nat \<Rightarrow> byte) \<Rightarrow> bytes \<Rightarrow> ('c, 'm) srtp_session \<Rightarrow> mem \<Rightarrow> nat \<Rightarrow> u16 \<Rightarrow> mem" where
  "crypt_image ks k s m len off =
     (if has_flag s SRTP_UNENCRYPTED then m
      else ctr_apply (ks k (packet_counter s m (srtp_compute_roc s (rtp_seq_of m)))) m
             (unat off) (len - unat off))"

lemma srtp_crypt_keyed:
  assumes lib: "srtp_library G key strm ks mkey mdata hmac dlen"
    and s: "rtp_keyed key mkey k km dlen s" and len: "12 \<le> len" "len < 2 ^ 31"
    and hdr: "drop_bit 6 (m 0) = 2" "rtp_offset m len = Some off"
    and tr: "srtp_track_seq s (rtp_seq_of m) (srtp_compute_roc s (rtp_seq_of m)) = Done (0, s1)"
  shows "\<exists>h. srtp_crypt G s m len = Done (0, s1\<lparr>rtp := (rtp s1)\<lparr>cipher := h\<rparr>\<rparr>, crypt_image ks k s m len off) \<and>
    key h = Some k"
proof -
  note kp = track_seq_keeps [OF tr]
  have c: "has_flag s1 SRTP_UNENCRYPTED = has_flag s SRTP_UNENCRYPTED" "salt (rtp s1) = salt (rtp s)"
    using kp(1) by (simp_all add: same_config_def has_flag_def)
  have key: "key (cipher (rtp s1)) = Some k" using s kp(4) by (simp add: rtp_keyed_def)
  show ?thesis
  proof (cases "has_flag s SRTP_UNENCRYPTED")
    case True
    then show ?thesis using len(1) hdr tr c key
      by (intro exI [of _ "cipher (rtp s1)"]) (simp add: srtp_crypt_def crypt_image_def)
  next
    case False
    have "ctr_cipher G key strm ks" using lib by (simp add: srtp_library_def)
    from do_ctr_crypt_ctr [OF this key length_packet_counter, of "len - unat off" s m
        "srtp_compute_roc s (rtp_seq_of m)" m "unat off"] less_imp_diff_less [OF len(2)]
    obtain h where "rtp_crypt G (cipher (rtp s1)) (u32_load (mread m 8 4))
        (srtp_compute_roc s (rtp_seq_of m)) (rtp_seq_of m) (salt (rtp s1)) m (unat off)
        (len - unat off) = Done (0, h, crypt_image ks k s m len off)" and "key h = Some k"
      using False by (auto simp: rtp_crypt_def packet_counter_def crypt_image_def c)
    then show ?thesis using False len(1) hdr tr c
      by (intro exI [of _ h]) (simp add: srtp_crypt_def Let_def)
  qed
qed

section \<open>Headers\<close>

text \<open>The header length as the code means it, without the 16 bit wrap.\<close>

definition rtp_header_len :: "mem \<Rightarrow> nat" where
  "rtp_header_len m =
     (let o1 = 12 + 4 * unat (m 0 AND 0xf) in
      if m 0 AND 0x10 \<noteq> 0 then o1 + 4 + unat (be_word16 (m (o1 + 2)) (m (o1 + 3))) else o1)"

lemma unat_csrc: "unat (12 + ucast (b AND 0xf) * 4 :: u16) = 12 + 4 * unat (b AND 0xf :: byte)"
  "unat (12 + ucast (b AND 0xf) * 4 + 4 :: u16) = 12 + 4 * unat (b AND 0xf :: byte) + 4"
proof -
  have "b AND 0xf \<le> 0xf" by (simp add: word_and_le1)
  then have n: "unat (b AND 0xf) \<le> 15" by (simp add: word_le_nat_alt)
  have "unat (ucast (b AND 0xf) * 4 :: u16) = 4 * unat (b AND 0xf)"
    using n by (subst unat_mult_lem [THEN iffD1]) (simp_all add: unsigned_ucast_eq take_bit_nat_eq_self)
  then show 1: "unat (12 + ucast (b AND 0xf) * 4 :: u16) = 12 + 4 * unat (b AND 0xf)"
    using n by (subst unat_add_lem [THEN iffD1]) simp_all
  then show "unat (12 + ucast (b AND 0xf) * 4 + 4 :: u16) = 12 + 4 * unat (b AND 0xf :: byte) + 4"
    using n by (subst unat_add_lem [THEN iffD1]) simp_all
qed

lemma rtp_offset_eq:
  assumes "rtp_header_len m < 65536"
  shows "rtp_offset m len =
    (if len < rtp_header_len m then None else Some (of_nat (rtp_header_len m)))"
proof (cases "m 0 AND 0x10 = 0")
  case True
  have "of_nat (rtp_header_len m) = (12 + ucast (m 0 AND 0xf) * 4 :: u16)"
    using True by (simp add: rtp_header_len_def flip: unat_csrc(1))
  with True show ?thesis by (simp add: rtp_offset_def rtp_header_len_def Let_def unat_csrc)
next
  case False
  let ?o = "12 + 4 * unat (m 0 AND 0xf)"
  let ?e = "be_word16 (m (?o + 2)) (m (?o + 3))"
  have h: "rtp_header_len m = ?o + 4 + unat ?e" using False by (simp add: rtp_header_len_def Let_def)
  have i: "unat (12 + ucast (m 0 AND 0xf) * 4 + 4 :: u16) - 2 = ?o + 2"
      "unat (12 + ucast (m 0 AND 0xf) * 4 + 4 :: u16) - 1 = ?o + 3"
    unfolding unat_csrc(2) by simp_all
  have s: "unat (12 + ucast (m 0 AND 0xf) * 4 + 4 + ?e) = rtp_header_len m"
    using assms unat_csrc(2) [of "m 0"] h
    by (subst unat_add_lem [THEN iffD1]) simp_all
  then have "12 + ucast (m 0 AND 0xf) * 4 + 4 + ?e = of_nat (rtp_header_len m)"
    unfolding s [symmetric] by simp
  with False s show ?thesis
    unfolding rtp_offset_def Let_def i using unat_csrc(2) [of "m 0"] h by auto
qed

lemma rtp_header_len_ge: "12 \<le> rtp_header_len m"
  by (simp add: rtp_header_len_def Let_def)

lemma rtp_header_len_cong:
  assumes "\<And>i. i < rtp_header_len m \<Longrightarrow> m' i = m i"
  shows "rtp_header_len m' = rtp_header_len m"
proof -
  have 0: "m' 0 = m 0" using assms rtp_header_len_ge [of m] by simp
  show ?thesis
  proof (cases "m 0 AND 0x10 = 0")
    case True
    then show ?thesis by (simp add: rtp_header_len_def 0)
  next
    case False
    let ?o = "12 + 4 * unat (m 0 AND 0xf)"
    have "?o + 2 < rtp_header_len m" "?o + 3 < rtp_header_len m"
      using False by (simp_all add: rtp_header_len_def Let_def)
    then have "m' (?o + 2) = m (?o + 2)" "m' (?o + 3) = m (?o + 3)" using assms by blast+
    with False show ?thesis unfolding rtp_header_len_def Let_def 0 by simp
  qed
qed

text \<open>Packets that differ from the header on only are parsed alike.\<close>

lemma same_header:
  assumes "rtp_header_len m < 65536" and "\<And>i. i < rtp_header_len m \<Longrightarrow> m' i = m i"
  shows "m' 0 = m 0" and "rtp_offset m' len = rtp_offset m len" and "rtp_seq_of m' = rtp_seq_of m"
    and "mread m' 8 4 = mread m 8 4"
proof -
  have h: "m' i = m i" if "i < 12" for i using assms(2) that rtp_header_len_ge [of m] by simp
  then show "m' 0 = m 0" "rtp_seq_of m' = rtp_seq_of m" by (simp_all add: rtp_seq_of_def)
  show "mread m' 8 4 = mread m 8 4" by (rule mread_cong) (simp add: h)
  show "rtp_offset m' len = rtp_offset m len"
    using rtp_header_len_cong [of m m'] assms by (simp add: rtp_offset_eq)
qed

lemma offset_header:
  assumes "rtp_header_len m < 65536" and "rtp_offset m len = Some off"
  shows "unat off = rtp_header_len m" and "rtp_header_len m \<le> len"
  using assms by (auto simp: rtp_offset_eq unsigned_of_nat take_bit_nat_eq_self split: if_splits)

lemma crypt_image_header:
  assumes "rtp_header_len m < 65536" and "rtp_offset m len = Some off" and "i < rtp_header_len m"
  shows "crypt_image ks k s m len off i = m i"
  using assms offset_header [OF assms(1,2)] by (simp add: crypt_image_def ctr_apply_at)

lemma crypt_image_undo:
  assumes hdr: "rtp_header_len m < 65536" and off: "rtp_offset m len = Some off"
    and eq: "salt (rtp t) = salt (rtp s)" "has_flag t SRTP_UNENCRYPTED = has_flag s SRTP_UNENCRYPTED"
    and roc: "srtp_compute_roc t (rtp_seq_of m) = srtp_compute_roc s (rtp_seq_of m)"
    and m': "m' = mwrite (crypt_image ks k s m len off) len bs"
  shows "crypt_image ks k t m' len off = mwrite m len bs"
proof -
  have le: "unat off \<le> len" using rtp_offset_le [OF off] .
  have h: "m' i = m i" if "i < rtp_header_len m" for i
    using offset_header [OF hdr off] that crypt_image_header [OF hdr off that]
    by (simp add: m' mwrite_outside)
  note sh = same_header [OF hdr h, simplified]
  have "packet_counter t m' roc = packet_counter s m roc" for roc
    using eq sh(3,4) by (simp add: packet_counter_def)
  then show ?thesis
  proof (cases "has_flag s SRTP_UNENCRYPTED")
    case True
    then show ?thesis using eq(2) by (simp add: crypt_image_def m')
  next
    case False
    let ?f = "ks k (packet_counter s m (srtp_compute_roc s (rtp_seq_of m)))"
    have "crypt_image ks k t m' len off = ctr_apply ?f m' (unat off) (len - unat off)"
      using False eq roc sh(3,4) by (simp add: crypt_image_def packet_counter_def)
    moreover have "m' = mwrite (ctr_apply ?f m (unat off) (len - unat off)) len bs"
      using False by (simp add: m' crypt_image_def)
    ultimately show ?thesis using le by (simp add: ctr.undo_under_write)
  qed
qed

section \<open>The trailer\<close>

definition srtp_trailer ::
  "(bytes \<Rightarrow> bytes \<Rightarrow> bytes) \<Rightarrow> bytes \<Rightarrow> ('c, 'm) srtp_session \<Rightarrow> u16 \<Rightarrow> u32 \<Rightarrow> u32 \<Rightarrow> bytes \<Rightarrow> bytes" where
  "srtp_trailer hmac km s seq carried roc body =
     (if has_flag s SRTP_UNAUTHENTICATED then []
      else case rcc_layout s seq of (n, t) \<Rightarrow>
        (if n \<noteq> 0 then be_bytes32 carried else []) @ take (nat t) (hmac km (body @ be_bytes32 roc)))"

text \<open>Whether the packet with this sequence number carries the roll-over counter.\<close>

definition carries_roc :: "('c, 'm) srtp_session \<Rightarrow> u16 \<Rightarrow> bool" where
  "carries_roc s seq \<longleftrightarrow> \<not> has_flag s SRTP_UNAUTHENTICATED \<and> fst (rcc_layout s seq) \<noteq> 0"

lemma track_roc:
  assumes "srtp_track_seq s seq (srtp_compute_roc s seq) = Done (r, s1)"
  shows "srtp_compute_roc s1 seq = srtp_compute_roc s seq"
  using assms
  by (auto simp: srtp_track_seq_eq Let_def compute_roc_eq split: if_splits)

lemma keyed_step:
  assumes "rtp_keyed key mkey k km dlen s" and "same_config s s'" and "rtcp_index s' = rtcp_index s"
    and "key (cipher (rtp s')) = Some k" and "mkey (mac (rtp s')) = Some km"
  shows "rtp_keyed key mkey k km dlen s'"
  using assms same_config_wf [OF assms(2,3)] by (simp add: rtp_keyed_def same_config_def)

lemma srtp_crypt_keyed_state:
  assumes "rtp_keyed key mkey k km dlen s" and "srtp_track_seq s seq roc = Done (0, s1)"
    and "key h = Some k"
  shows "rtp_keyed key mkey k km dlen (s1\<lparr>rtp := (rtp s1)\<lparr>cipher := h\<rparr>\<rparr>)"
    and "same_config s (s1\<lparr>rtp := (rtp s1)\<lparr>cipher := h\<rparr>\<rparr>)"
proof -
  note kp = track_seq_keeps [OF assms(2)]
  show c: "same_config s (s1\<lparr>rtp := (rtp s1)\<lparr>cipher := h\<rparr>\<rparr>)" using kp(1) by (simp add: same_config_def)
  show "rtp_keyed key mkey k km dlen (s1\<lparr>rtp := (rtp s1)\<lparr>cipher := h\<rparr>\<rparr>)"
    using assms kp by (intro keyed_step [OF assms(1) c]) (simp_all add: rtp_keyed_def)
qed

lemma length_trailer:
  assumes lib: "srtp_library G key strm ks mkey mdata hmac dlen"
    and s: "rtp_keyed key mkey k km dlen s" and l: "rcc_layout s seq = (n, t)"
  shows "length (srtp_trailer hmac km s seq carried roc body) =
    (if has_flag s SRTP_UNAUTHENTICATED then 0 else n + nat t)" and "t \<le> int dlen" "0 \<le> t"
proof -
  have d: "length (hmac km x) = dlen" for x
    using lib by (simp add: srtp_library_def hmac_md_def)
  have "int (unat (tag_len s)) \<le> int dlen" using s by (simp only: rtp_keyed_def of_nat_le_iff)
  with rcc_layout_sizes(2) [OF l] show t: "t \<le> int dlen" by linarith
  show t0: "0 \<le> t" using rcc_layout_sizes(3) [OF l] s by (simp add: rtp_keyed_def)
  from t t0 show "length (srtp_trailer hmac km s seq carried roc body) =
      (if has_flag s SRTP_UNAUTHENTICATED then 0 else n + nat t)"
    using rcc_layout_sizes(1) [OF l] d by (auto simp: srtp_trailer_def l)
qed

text \<open>
  What \<open>srtp_send\<close> puts on the wire: the encrypted packet with the trailer behind it. The
  tag covers the encrypted packet and the packet's own counter; the counter it carries is
  the session's.
\<close>

lemma srtp_send_image:
  assumes lib: "srtp_library G key strm ks mkey mdata hmac dlen"
    and s: "rtp_keyed key mkey k km dlen s" and len: "12 \<le> len" "len < 2 ^ 31"
    and hdr: "rtp_header_len m < 65536" "drop_bit 6 (m 0) = 2" "rtp_offset m len = Some off"
    and roc: "roc = srtp_compute_roc s (rtp_seq_of m)"
    and tr: "srtp_track_seq s (rtp_seq_of m) roc = Done (0, s1)"
    and c: "c = crypt_image ks k s m len off"
    and bs: "bs = srtp_trailer hmac km s (rtp_seq_of m) (rtp_roc s1) roc (mread c 0 len)"
    and fits: "len + length bs \<le> bufsize"
  shows "\<exists>s'. srtp_send G s m len bufsize = Done (0, s', mwrite c len bs, len + length bs) \<and>
    rtp_keyed key mkey k km dlen s' \<and> same_config s s' \<and> same_window s1 s'"
proof -
  let ?seq = "rtp_seq_of m"
  obtain n t where l: "rcc_layout s ?seq = (n, t)" by fastforce
  note lt = length_trailer [OF lib s l]
  from srtp_crypt_keyed [OF lib s len hdr(2,3) tr [unfolded roc]] obtain h where
    h: "srtp_crypt G s m len = Done (0, s1\<lparr>rtp := (rtp s1)\<lparr>cipher := h\<rparr>\<rparr>, c)" "key h = Some k"
    unfolding c by blast
  let ?s1 = "s1\<lparr>rtp := (rtp s1)\<lparr>cipher := h\<rparr>\<rparr>"
  note st = srtp_crypt_keyed_state [OF s tr h(2)]
  have seq: "rtp_seq_of c = ?seq"
    using same_header(3) [OF hdr(1)] crypt_image_header [OF hdr(1,3)] unfolding c by blast
  have roc1: "srtp_compute_roc ?s1 ?seq = roc"
    using track_roc [OF tr [unfolded roc]] compute_roc_cong [of ?s1 s1] by (simp add: roc)
  have wf: "rcc_mode s \<noteq> 0 \<Longrightarrow> 4 \<le> unat (tag_len s)" "rtp_rcc s \<noteq> 0"
    using s by (auto simp: rtp_keyed_def srtp_wf_def)
  have fl: "has_flag ?s1 SRTP_UNAUTHENTICATED = has_flag s SRTP_UNAUTHENTICATED"
    using same_config_flag [OF st(2)] .
  show ?thesis
  proof (cases "has_flag s SRTP_UNAUTHENTICATED")
    case True
    then have "bs = []" by (simp add: bs srtp_trailer_def)
    then show ?thesis using True len fits h(1) fl st
      by (intro exI [of _ ?s1]) (simp add: srtp_send_def same_window_def)
  next
    case False
    have "mkey (mac (rtp ?s1)) = Some km" using st(1) by (simp only: rtp_keyed_def)
    from rtp_digest_hmac(1) [OF lib this, of "mread c 0 len" roc] obtain md where
      md: "rtp_digest G (mac (rtp ?s1)) (mread c 0 len) roc =
          (hmac km (mread c 0 len @ be_bytes32 roc), md)" "mkey md = Some km"
      by blast
    have d: "length (hmac km x) = dlen" for x using lib by (simp add: srtp_library_def hmac_md_def)
    let ?s2 = "?s1\<lparr>rtp := (rtp ?s1)\<lparr>mac := md\<rparr>\<rparr>"
    have w: "mwrite (mwrite c len (be_bytes32 a)) (len + 4) b = mwrite c len (be_bytes32 a @ b)" for a b
      using mwrite_append [of c len "be_bytes32 a" b] by simp
    have "srtp_send G s m len bufsize = Done (0, ?s2, mwrite c len bs, len + length bs)"
      using False len fits h(1) fl seq roc1 md(1) wf lt d w l
      by (auto simp: srtp_send_def srtp_trailer_def bs Let_def)
    moreover have "same_config s ?s2" using st(2) by (simp add: same_config_def)
    moreover have "rtp_keyed key mkey k km dlen ?s2"
      using h(2) md(2) by (intro keyed_step [OF st(1)]) (simp_all add: same_config_def)
    ultimately show ?thesis by (intro exI [of _ ?s2]) (simp add: same_window_def)
  qed
qed

text \<open>
  The receiver verifies exactly such a trailer, whatever counter the packet carries, and
  continues with the counter it adopted.
\<close>

lemma srtp_recv_verifies:
  assumes lib: "srtp_library G key strm ks mkey mdata hmac dlen"
    and r: "rtp_keyed key mkey k km dlen s" and len: "12 \<le> len" and seq: "seq = rtp_seq_of c"
    and bs: "bs = srtp_trailer hmac km s seq rcc rcc (mread c 0 len)"
    and carry: "carries_roc s seq \<or> rcc = srtp_compute_roc s seq"
  shows "\<exists>md. mkey md = Some km \<and> srtp_recv G s (mwrite c len bs) (len + length bs) =
    obind (srtp_crypt G (adopt_roc s md 1 (rcc - srtp_compute_roc s seq)) (mwrite c len bs) len)
      (\<lambda>(r, s', m'). Done (r, s', m', len))"
proof -
  let ?m = "mwrite c len bs" and ?roc = "srtp_compute_roc s seq"
  have km: "mkey (mac (rtp s)) = Some km" using r by (simp add: rtp_keyed_def)
  have sq: "rtp_seq_of ?m = seq" using len by (simp add: seq rtp_seq_of_def mwrite_outside)
  have rd: "mread ?m 0 len = mread c 0 len" by (simp add: mread_mwrite_disjoint)
  show ?thesis
  proof (cases "has_flag s SRTP_UNAUTHENTICATED")
    case True
    then have "bs = []" "rcc = ?roc" using carry by (simp_all add: bs srtp_trailer_def carries_roc_def)
    then show ?thesis using True km len
      by (intro exI [of _ "mac (rtp s)"]) (simp add: srtp_recv_def adopt_roc_def)
  next
    case False
    obtain n t where l: "rcc_layout s seq = (n, t)" by fastforce
    note lt = length_trailer [OF lib r l]
    have lb: "length bs = n + nat t" using lt(1) False by (simp add: bs)
    have len1: "nat (int (len + length bs) - (int n + t)) = len" using lt(3) lb by simp
    have n4: "n = 0 \<or> n = 4" by (rule rcc_layout_sizes(1) [OF l])
    let ?h = "hmac km (mread c 0 len @ be_bytes32 rcc)"
    have all: "mread ?m len (n + nat t) = bs" using mread_mwrite_same [of c len bs] lb by simp
    have bs': "bs = (if n \<noteq> 0 then be_bytes32 rcc else []) @ take (nat t) ?h"
      using False l by (simp add: bs srtp_trailer_def)
    then have rcc: "rcc = (if n \<noteq> 0 then ntohl (u32_load (mread ?m len 4)) else ?roc)"
      and tag: "mread ?m (len + n) (nat t) = take (nat t) ?h"
      using n4 all carry False l mread_split [of ?m len n "nat t"]
      by (auto simp: ntohl_load carries_roc_def)
    from rtp_digest_hmac(1) [OF lib km, of "mread c 0 len" rcc] obtain md where
      md: "rtp_digest G (mac (rtp s)) (mread ?m 0 len) rcc = (?h, md)" "mkey md = Some km"
      unfolding rd by blast
    have d: "length ?h = dlen" using rtp_digest_hmac(2) [OF lib km] .
    have z: "rcc_mode s = 0 \<or> rtp_rcc s \<noteq> 0" using r by (auto simp: rtp_keyed_def srtp_wf_def)
    have "srtp_recv G s ?m (len + length bs) =
        obind (srtp_crypt G (adopt_roc s md n (rcc - ?roc)) ?m len) (\<lambda>(r, s', m'). Done (r, s', m', len))"
      using srtp_recv_auth_eq [OF False _ z l [folded sq] _ len1 [symmetric] refl, of rcc G ?h md]
        len lb lt(2,3) md(1) rcc tag d sq by auto
    moreover have "adopt_roc s md n (rcc - ?roc) = adopt_roc s md 1 (rcc - ?roc)"
      using rcc by (cases "n = 0") (simp_all add: adopt_roc_def)
    ultimately show ?thesis using md(2) by auto
  qed
qed

section \<open>From sender to receiver\<close>

lemma srtp_crypt_okD:
  assumes "srtp_crypt G s m len = Done (0, s', m')"
  shows "drop_bit 6 (m 0) = 2 \<and> (\<exists>off s1. rtp_offset m len = Some off \<and>
    srtp_track_seq s (rtp_seq_of m) (srtp_compute_roc s (rtp_seq_of m)) = Done (0, s1))"
  using assms by (cases rule: srtp_crypt_cases) auto

lemma srtp_send_okD:
  assumes "srtp_send G s m len bufsize = Done (0, s', m', l')"
  obtains off s1 where "12 \<le> len" "drop_bit 6 (m 0) = 2" "rtp_offset m len = Some off"
    "srtp_track_seq s (rtp_seq_of m) (srtp_compute_roc s (rtp_seq_of m)) = Done (0, s1)"
    "l' = (if has_flag s SRTP_UNAUTHENTICATED then len else case rcc_layout s (rtp_seq_of m) of
       (n, t) \<Rightarrow> len + n + nat t)" "l' \<le> bufsize"
  using assms by (cases rule: srtp_send_cases) (auto dest!: srtp_crypt_okD)

lemma srtp_send_ok_image:
  assumes lib: "srtp_library G key strm ks mkey mdata hmac dlen"
    and s: "rtp_keyed key mkey k km dlen s" and len: "len < 2 ^ 31" "rtp_header_len m < 65536"
    and ok: "srtp_send G s m len bufsize = Done (0, s', m', l')"
  obtains off s1 c bs where "12 \<le> len" "drop_bit 6 (m 0) = 2" "rtp_offset m len = Some off"
    "srtp_track_seq s (rtp_seq_of m) (srtp_compute_roc s (rtp_seq_of m)) = Done (0, s1)"
    "c = crypt_image ks k s m len off"
    "bs = srtp_trailer hmac km s (rtp_seq_of m) (rtp_roc s1) (srtp_compute_roc s (rtp_seq_of m)) (mread c 0 len)"
    "m' = mwrite c len bs" "l' = len + length bs" "rtp_keyed key mkey k km dlen s'"
    "same_config s s'" "same_window s1 s'"
proof -
  from ok obtain off s1 where d: "12 \<le> len" "drop_bit 6 (m 0) = 2" "rtp_offset m len = Some off"
    "srtp_track_seq s (rtp_seq_of m) (srtp_compute_roc s (rtp_seq_of m)) = Done (0, s1)"
    "l' = (if has_flag s SRTP_UNAUTHENTICATED then len else case rcc_layout s (rtp_seq_of m) of
       (n, t) \<Rightarrow> len + n + nat t)" "l' \<le> bufsize" by (rule srtp_send_okD)
  define c where "c = crypt_image ks k s m len off"
  define bs where "bs = srtp_trailer hmac km s (rtp_seq_of m) (rtp_roc s1)
    (srtp_compute_roc s (rtp_seq_of m)) (mread c 0 len)"
  obtain n t where l: "rcc_layout s (rtp_seq_of m) = (n, t)" by fastforce
  have "l' = len + length bs" using length_trailer(1) [OF lib s l] d(5) l by (simp add: bs_def)
  then have fits: "len + length bs \<le> bufsize" using d(6) by simp
  from srtp_send_image [OF lib s d(1) len d(2,3) refl d(4) c_def bs_def fits] ok
  show thesis using that [OF d(1-4) c_def bs_def] by auto
qed

text \<open>What the receiver of a packet that the sender has sent hands to \<open>srtp_crypt\<close>.\<close>

lemma srtp_recv_sent:
  assumes lib: "srtp_library G key strm ks mkey mdata hmac dlen"
    and sa: "rtp_keyed key mkey k km dlen sa" and sb: "rtp_keyed key mkey k km dlen sb"
    and cfg: "same_config sa sb" and len: "len < 2 ^ 31" "rtp_header_len m < 65536"
    and ok: "srtp_send G sa m len bufsize = Done (0, sa', m', l')"
    and roc: "roc = srtp_compute_roc sa (rtp_seq_of m)"
    and carry: "if carries_roc sa (rtp_seq_of m) then rtp_roc sa' = roc
      else srtp_compute_roc sb (rtp_seq_of m) = roc"
  obtains off bs md t where "12 \<le> len" "drop_bit 6 (m' 0) = 2" "rtp_offset m len = Some off"
    "rtp_offset m' len = Some off" "rtp_seq_of m' = rtp_seq_of m"
    "m' = mwrite (crypt_image ks k sa m len off) len bs"
    "t = adopt_roc sb md 1 (roc - srtp_compute_roc sb (rtp_seq_of m))" "mkey md = Some km"
    "rtp_keyed key mkey k km dlen t" "srtp_compute_roc t (rtp_seq_of m) = roc"
    "srtp_recv G sb m' l' = obind (srtp_crypt G t m' len) (\<lambda>(r, s', m'). Done (r, s', m', len))"
proof -
  let ?seq = "rtp_seq_of m"
  obtain off s1 c bs where
    i: "12 \<le> len" "drop_bit 6 (m 0) = 2" "rtp_offset m len = Some off"
      "srtp_track_seq sa ?seq roc = Done (0, s1)" "c = crypt_image ks k sa m len off"
      "bs = srtp_trailer hmac km sa ?seq (rtp_roc s1) roc (mread c 0 len)"
      "m' = mwrite c len bs" "l' = len + length bs" "rtp_keyed key mkey k km dlen sa'"
      "same_config sa sa'" "same_window s1 sa'"
    unfolding roc by (rule srtp_send_ok_image [OF lib sa len ok])
  note lay = same_config_layout [OF cfg] same_config_flag [OF cfg]
  have hc: "c i = m i" if "i < rtp_header_len m" for i
    using crypt_image_header [OF len(2) i(3) that] by (simp add: i(5))
  have seq: "?seq = rtp_seq_of c" using same_header(3) [OF len(2), of c] hc by simp
  have hm: "m' i = m i" if "i < rtp_header_len m" for i
    using offset_header [OF len(2) i(3)] that hc [OF that] by (simp add: i(7) mwrite_outside)
  note sh = same_header [OF len(2) hm, simplified]
  have bs: "bs = srtp_trailer hmac km sb ?seq roc roc (mread c 0 len)"
    using carry i(6,11) lay
    by (auto simp: srtp_trailer_def carries_roc_def same_window_def split: prod.splits if_splits)
  have cr: "carries_roc sb ?seq \<or> roc = srtp_compute_roc sb ?seq"
    using carry lay by (auto simp: carries_roc_def split: if_splits)
  from srtp_recv_verifies [OF lib sb i(1) seq bs cr] obtain md where
    md: "mkey md = Some km" "srtp_recv G sb m' l' =
      obind (srtp_crypt G (adopt_roc sb md 1 (roc - srtp_compute_roc sb ?seq)) m' len)
        (\<lambda>(r, s', m'). Done (r, s', m', len))"
    unfolding i(7,8) by blast
  let ?t = "adopt_roc sb md 1 (roc - srtp_compute_roc sb ?seq)"
  have "rtp_keyed key mkey k km dlen ?t" "srtp_compute_roc ?t ?seq = roc"
    using keyed_step [OF sb adopt_roc_keeps(1,3)] sb md(1)
    by (simp_all add: adopt_roc_keeps adopt_roc_compute rtp_keyed_def)
  then show thesis
    using that [OF i(1) _ i(3) _ _ i(7) [unfolded i(5)] refl md(1) _ _ md(2)] i(2,3) sh by simp
qed

lemma srtp_deliver:
  assumes lib: "srtp_library G key strm ks mkey mdata hmac dlen"
    and sa: "rtp_keyed key mkey k km dlen sa" and sb: "rtp_keyed key mkey k km dlen sb"
    and cfg: "same_config sa sb" and len: "len < 2 ^ 31" "rtp_header_len m < 65536"
    and ok: "srtp_send G sa m len bufsize = Done (0, sa', m', l')"
    and roc: "roc = srtp_compute_roc sa (rtp_seq_of m)"
    and carry: "if carries_roc sa (rtp_seq_of m) then rtp_roc sa' = roc
      else srtp_compute_roc sb (rtp_seq_of m) = roc"
    and win: "srtp_track_seq sb (rtp_seq_of m) roc = Done (0, sb1)"
  shows "\<exists>sb' m'' md t. srtp_recv G sb m' l' = Done (0, sb', m'', len) \<and>
    mread m'' 0 len = mread m 0 len \<and> rtp_keyed key mkey k km dlen sb' \<and> same_config sb sb' \<and>
    srtp_track_seq (adopt_roc sb md 1 (roc - srtp_compute_roc sb (rtp_seq_of m))) (rtp_seq_of m) roc =
      Done (0, t) \<and> same_window t sb'"
proof -
  let ?seq = "rtp_seq_of m"
  obtain off bs md t where i: "12 \<le> len" "drop_bit 6 (m' 0) = 2" "rtp_offset m len = Some off"
      "rtp_offset m' len = Some off" "rtp_seq_of m' = ?seq"
      "m' = mwrite (crypt_image ks k sa m len off) len bs"
      "t = adopt_roc sb md 1 (roc - srtp_compute_roc sb ?seq)" "mkey md = Some km"
      "rtp_keyed key mkey k km dlen t" "srtp_compute_roc t ?seq = roc"
      "srtp_recv G sb m' l' = obind (srtp_crypt G t m' len) (\<lambda>(r, s', m'). Done (r, s', m', len))"
    by (rule srtp_recv_sent [OF lib sa sb cfg len ok roc carry])
  have t: "same_config sb t" by (simp add: i(7) adopt_roc_keeps)
  obtain t1 where t1: "srtp_track_seq t ?seq roc = Done (0, t1)"
    using track_seq_cong [OF win, of t] by (auto simp: i(7) adopt_roc_keeps)
  from srtp_crypt_keyed [OF lib i(9,1) len(1) i(2,4), of t1] obtain h where
    h: "srtp_crypt G t m' len = Done (0, t1\<lparr>rtp := (rtp t1)\<lparr>cipher := h\<rparr>\<rparr>, crypt_image ks k t m' len off)"
      "key h = Some k"
    using i(5,10) t1 by auto
  have "same_config sa t" using cfg t by (rule same_config_trans)
  then have "crypt_image ks k t m' len off = mwrite m len bs"
    using i(6,10) roc same_config_flag
    by (intro crypt_image_undo [OF len(2) i(3), of t sa]) (auto simp: same_config_def)
  then have "mread (crypt_image ks k t m' len off) 0 len = mread m 0 len"
    by (simp add: mread_mwrite_disjoint)
  moreover have "srtp_recv G sb m' l' =
      Done (0, t1\<lparr>rtp := (rtp t1)\<lparr>cipher := h\<rparr>\<rparr>, crypt_image ks k t m' len off, len)"
    using i(11) h(1) by simp
  moreover have "rtp_keyed key mkey k km dlen (t1\<lparr>rtp := (rtp t1)\<lparr>cipher := h\<rparr>\<rparr>)"
      "same_config sb (t1\<lparr>rtp := (rtp t1)\<lparr>cipher := h\<rparr>\<rparr>)"
    using srtp_crypt_keyed_state [OF i(9) t1 h(2)] same_config_trans [OF t] by blast+
  moreover have "same_window t1 (t1\<lparr>rtp := (rtp t1)\<lparr>cipher := h\<rparr>\<rparr>)" by (simp add: same_window_def)
  ultimately show ?thesis using t1 [unfolded i(7)] by blast
qed

section \<open>The receiver as a replay filter\<close>

text \<open>
  \<open>srtp_recv\<close> without counter carry fulfils the contract \<open>replay_filter\<close> as the bare window
  does, whatever the library does: authentication runs first and changes no counter.
\<close>

definition recv_filter ::
  "('c, 'm, 'w) gcrypt \<Rightarrow> ('c, 'm) srtp_session \<Rightarrow> mem \<times> nat \<Rightarrow>
   (bool \<times> ('c, 'm) srtp_session) outcome" where
  "recv_filter G s p = (case p of (m, len) \<Rightarrow>
     obind (srtp_recv G s m len) (\<lambda>(r, s', m', l'). Done (r = 0, s')))"

definition recv_rel :: "('c, 'm) srtp_session \<Rightarrow> int \<Rightarrow> int set \<Rightarrow> bool" where
  "recv_rel s h A \<longleftrightarrow> rcc_mode s = 0 \<and> rtp_rel s h A"

definition recv_off :: "('c, 'm) srtp_session \<Rightarrow> mem \<times> nat \<Rightarrow> int" where
  "recv_off s p = seq_off s (rtp_seq_of (fst p))"

definition recv_index :: "('c, 'm) srtp_session \<Rightarrow> mem \<times> nat \<Rightarrow> u32 \<times> u16" where
  "recv_index s p = (srtp_compute_roc s (rtp_seq_of (fst p)), rtp_seq_of (fst p))"

lemma rtp_rel_cong: "same_window s s' \<Longrightarrow> rtp_rel s h A = rtp_rel s' h A"
  by (simp add: same_window_def rtp_rel_def local_index_def)

lemma srtp_crypt_filter:
  assumes "srtp_crypt G s m len = Done (r, s', m')"
  obtains (same) "r \<noteq> 0" "s' = s"
  | (tracked) s1 where "rtp_filter s (rtp_seq_of m) = Done (True, s1)" "same_window s1 s'"
  using assms
  by (cases rule: srtp_crypt_cases) (auto simp: rtp_filter_def same_window_def)

lemma srtp_recv_crypt:
  assumes "srtp_recv G s m len = Done (r, s', m', l')" and "rcc_mode s = 0"
  obtains (same) "r \<noteq> 0" "same_window s s'" "same_config s s'" "m' = m"
  | (crypt) s0 where "same_window s s0" "same_config s s0" "srtp_crypt G s0 m l' = Done (r, s', m')"
      "l' \<le> len"
  using assms(1)
proof (cases rule: srtp_recv_cases)
  case (passed n t rcc tag md)
  then have "n = 0" using rcc_layout_sizes(4) [OF passed(2) assms(2)] by simp
  then show thesis using passed crypt [OF _ adopt_roc_keeps(1) passed(10)]
    by (simp add: same_window_def adopt_roc_def)
qed (use same crypt in \<open>auto simp: same_window_def same_config_def\<close>)

lemma recv_filter_rel:
  assumes rel: "recv_rel s h A" and step: "recv_filter G s p = Done (ok, s')"
  shows "\<exists>h' A'. recv_rel s' h' A' \<and> h \<le> h' \<and> h' \<le> h + 63 \<and> A \<subseteq> A' \<and>
    (ok \<longrightarrow> h + recv_off s p \<notin> A \<and> h + recv_off s p \<in> A' \<and> h - 64 < h + recv_off s p \<and>
      h + recv_off s p \<le> h')"
proof -
  obtain m len where p: "p = (m, len)" by fastforce
  from step obtain r m' l' where r: "srtp_recv G s m len = Done (r, s', m', l')" and ok: "ok = (r = 0)"
    by (auto simp: recv_filter_def p)
  have mode: "rcc_mode s = 0" and rr: "rtp_rel s h A" using rel by (auto simp: recv_rel_def)
  have stay: ?thesis if "\<not> ok" "same_window s s'" "same_config s s'"
    using that rel rtp_rel_cong [OF that(2)] same_config_mode [OF that(3)]
    by (intro exI [of _ h] exI [of _ A]) (simp add: recv_rel_def)
  from r mode show ?thesis
  proof (cases rule: srtp_recv_crypt)
    case same
    then show ?thesis using stay ok by simp
  next
    case (crypt s0)
    have m0: "same_config s s'" using same_config_trans [OF crypt(2)] srtp_crypt_keeps [OF crypt(3)] by blast
    have off: "seq_off s0 q = seq_off s q" for q using crypt(1) by (simp add: seq_off_def same_window_def)
    from crypt(3) show ?thesis
    proof (cases rule: srtp_crypt_filter)
      case same
      then show ?thesis using stay ok crypt(1,2) by simp
    next
      case (tracked s1)
      from rtp_filter_rel [OF _ tracked(1), of h A] rr rtp_rel_cong [OF crypt(1)]
      show ?thesis unfolding off recv_off_def p fst_conv recv_rel_def rtp_rel_cong [OF tracked(2)]
        using same_config_mode [OF m0] mode by auto
    qed
  qed
qed

interpretation recv_window: replay_filter "recv_filter G" recv_rel recv_off recv_index roc_seq "2 ^ 48"
  for G
proof unfold_locales
  show "recv_index s p = roc_seq (h + recv_off s p)" if "recv_rel s h A" for s p h A
    using rtp_obs that unfolding recv_rel_def recv_index_def recv_off_def by blast
qed (rule recv_filter_rel roc_seq_inj, assumption+)+

end
