(* ===== verification/Srtp_Guarantees.thy ===== *)
theory Srtp_Guarantees
  imports Srtp_Channel
begin

text \<open>
  The guarantees of the RTP half of \<open>srtp.c\<close>, each stated over \<open>srtp_send\<close> and
  \<open>srtp_recv\<close>: delivery, authenticity, replay protection, error behaviour, buffer bounds,
  and the places where the code falls short of the protocol.
\<close>

section \<open>A session and a packet for the witnesses\<close>

definition demo_session :: "(stub_cipher, stub_md) srtp_session" where
  "demo_session = stub_session\<lparr>flags := 0,
     rtp := stub_proto\<lparr>cipher := (Some [1, 2], [], 0), mac := (Some [3], [])\<rparr>\<rparr>"

definition demo_packet :: mem where
  "demo_packet i = (if i = 0 then 0x80 else if i = 2 then 0 else if i = 3 then 1 else of_nat i)"

lemmas demo_defs = demo_session_def stub_session_def stub_proto_def

lemma demo_wf: "srtp_wf demo_session"
  by (simp add: demo_defs srtp_wf_def rcc_mode_def flag_defs)

lemma demo_keyed: "rtp_keyed fst fst [1, 2] [3] 20 demo_session"
  using demo_wf by (simp add: rtp_keyed_def demo_defs)

lemma demo_mac_key: "fst (mac (rtp demo_session)) = Some [3]"
  by (simp add: demo_defs)

lemma demo_fresh: "srtp_fresh demo_session" and demo_mode: "rcc_mode demo_session = 0"
  by (simp_all add: demo_defs srtp_fresh_def rcc_mode_def)

lemma demo_header:
  "drop_bit 6 (demo_packet 0) = 2" "rtp_header_len demo_packet = 12"
  "rtp_seq_of demo_packet = 1"
  by (simp_all add: demo_packet_def rtp_header_len_def rtp_seq_of_def)

lemma demo_offset: "12 \<le> len \<Longrightarrow> rtp_offset demo_packet len = Some 12"
  by (simp add: rtp_offset_eq demo_header)

lemma demo_track: "\<exists>s1. srtp_track_seq demo_session 1 roc = Done (0, s1)"
  by (simp add: srtp_track_seq_def demo_defs)

lemma demo_flag: "\<not> has_flag demo_session f"
  by (simp add: has_flag_def demo_defs)

lemma demo_layout: "rcc_layout demo_session seq = (0, 10)"
  by (simp add: rcc_layout_def demo_mode) (simp add: demo_defs)

lemma demo_send:
  "\<exists>s' m'. srtp_send stub_gcrypt demo_session demo_packet 18 40 = Done (0, s', m', 28) \<and>
     rtp_keyed fst fst [1, 2] [3] 20 s'"
proof -
  obtain s1 where tr: "srtp_track_seq demo_session (rtp_seq_of demo_packet)
      (srtp_compute_roc demo_session (rtp_seq_of demo_packet)) = Done (0, s1)"
    unfolding demo_header using demo_track by blast
  define c where "c = crypt_image stub_ks [1, 2] demo_session demo_packet 18 12"
  define bs where "bs = srtp_trailer stub_hmac [3] demo_session (rtp_seq_of demo_packet) (rtp_roc s1)
    (srtp_compute_roc demo_session (rtp_seq_of demo_packet)) (mread c 0 18)"
  have "length bs = 10"
    using length_trailer(1) [OF stub_library demo_keyed demo_layout] by (simp add: bs_def demo_flag)
  then show ?thesis
    using srtp_send_image [OF stub_library demo_keyed _ _ _ _ demo_offset refl tr c_def bs_def, of 40]
    by (auto simp: demo_header)
qed

section \<open>Delivery\<close>

text \<open>
  (C3) Round trip: a packet that \<open>srtp_send\<close> turned into an SRTP packet is accepted by
  \<open>srtp_recv\<close> on a session with the same keys and configuration, which gives back the
  original packet and its length, if the receiver's window admits its sequence number and
  both sides agree on the packet's roll-over counter (or the packet carries it). This holds
  in every RCC mode, with and without encryption and authentication, and for all contents
  of the buffer behind the packet.
\<close>

theorem srtp_roundtrip:
  assumes lib: "srtp_library G key strm ks mkey mdata hmac dlen"
    and "rtp_keyed key mkey k km dlen sa" and "rtp_keyed key mkey k km dlen sb"
    and "same_config sa sb" and "len < 2 ^ 31" and "rtp_header_len m < 65536"
    and "srtp_send G sa m len bufsize = Done (0, sa', m', l')"
    and "roc = srtp_compute_roc sa (rtp_seq_of m)"
    and "if carries_roc sa (rtp_seq_of m) then rtp_roc sa' = roc
         else srtp_compute_roc sb (rtp_seq_of m) = roc"
    and "srtp_track_seq sb (rtp_seq_of m) roc = Done (0, sb1)"
  shows "\<exists>sb' m''. srtp_recv G sb m' l' = Done (0, sb', m'', len) \<and> mread m'' 0 len = mread m 0 len \<and>
    rtp_keyed key mkey k km dlen sb' \<and> same_config sb sb'"
  using srtp_deliver [OF assms] by blast

theorem srtp_roundtrip_witness:
  "\<exists>s' m' sb' m''. srtp_send stub_gcrypt demo_session demo_packet 18 40 = Done (0, s', m', 28) \<and>
     srtp_recv stub_gcrypt demo_session m' 28 = Done (0, sb', m'', 18) \<and>
     mread m'' 0 18 = mread demo_packet 0 18"
proof -
  obtain s' m' where s: "srtp_send stub_gcrypt demo_session demo_packet 18 40 = Done (0, s', m', 28)"
    using demo_send by blast
  let ?roc = "srtp_compute_roc demo_session (rtp_seq_of demo_packet)"
  obtain s1 where tr: "srtp_track_seq demo_session (rtp_seq_of demo_packet) ?roc = Done (0, s1)"
    unfolding demo_header using demo_track by blast
  have "\<not> carries_roc demo_session q" for q by (simp add: carries_roc_def demo_layout)
  with srtp_roundtrip [OF stub_library demo_keyed demo_keyed _ _ _ s refl _ tr] s show ?thesis
    by (auto simp: demo_header)
qed

text \<open>A sender and a receiver at work: the packets that went out, with their originals.\<close>

fun send_run ::
  "('c, 'm, 'w) gcrypt \<Rightarrow> ('c, 'm) srtp_session \<Rightarrow> (mem \<times> nat \<times> nat) list \<Rightarrow>
   (((mem \<times> nat) \<times> (mem \<times> nat)) list \<times> ('c, 'm) srtp_session) outcome" where
  "send_run G s [] = Done ([], s)"
| "send_run G s ((m, len, sz) # ps) =
     obind (srtp_send G s m len sz) (\<lambda>(r, s', m', l').
     obind (send_run G s' ps) (\<lambda>(out, s'').
       Done (if r = 0 then ((m, len), (m', l')) # out else out, s'')))"

fun recv_run ::
  "('c, 'm, 'w) gcrypt \<Rightarrow> ('c, 'm) srtp_session \<Rightarrow> (mem \<times> nat) list \<Rightarrow>
   ((int \<times> mem \<times> nat) list \<times> ('c, 'm) srtp_session) outcome" where
  "recv_run G s [] = Done ([], s)"
| "recv_run G s ((m, len) # ps) =
     obind (srtp_recv G s m len) (\<lambda>(r, s', m', l').
     obind (recv_run G s' ps) (\<lambda>(out, s''). Done ((r, m', l') # out, s'')))"

lemma srtp_crypt_fail_keyed:
  assumes lib: "srtp_library G key strm ks mkey mdata hmac dlen"
    and s: "rtp_keyed key mkey k km dlen s" and len: "len < 2 ^ 31"
    and c: "srtp_crypt G s m len = Done (r, s', m')" and r: "r \<noteq> 0"
  shows "s' = s \<and> m' = m"
  using c
proof (cases rule: srtp_crypt_cases)
  case (crypted off s1 e h)
  have "12 \<le> len" using c by (auto simp: srtp_crypt_def split: if_splits)
  from srtp_crypt_keyed [OF lib s this len crypted(3,4,5)] c r show ?thesis by auto
qed (use r in auto)

lemma srtp_send_fail_keyed:
  assumes "srtp_library G key strm ks mkey mdata hmac dlen"
    and "rtp_keyed key mkey k km dlen s" and "len < 2 ^ 31"
    and "srtp_send G s m len sz = Done (r, s', m', l')" and "r \<noteq> 0"
  shows "s' = s \<and> m' = m"
  using assms(4)
  by (cases rule: srtp_send_cases) (use assms srtp_crypt_fail_keyed [OF assms(1-3)] in auto)

lemma srtp_step_in_sync:
  assumes lib: "srtp_library G key strm ks mkey mdata hmac dlen"
    and sa: "rtp_keyed key mkey k km dlen sa" and sb: "rtp_keyed key mkey k km dlen sb"
    and cfg: "same_config sa sb" and win: "same_window sa sb" and mode: "rcc_mode sa = 0"
    and len: "len < 2 ^ 31" "rtp_header_len m < 65536"
    and ok: "srtp_send G sa m len sz = Done (0, sa', m', l')"
  obtains sb' m'' where "srtp_recv G sb m' l' = Done (0, sb', m'', len)"
    "mread m'' 0 len = mread m 0 len" "rtp_keyed key mkey k km dlen sa'"
    "rtp_keyed key mkey k km dlen sb'" "same_config sa' sb'" "same_window sa' sb'" "rcc_mode sa' = 0"
proof -
  let ?seq = "rtp_seq_of m" and ?roc = "srtp_compute_roc sa (rtp_seq_of m)"
  obtain off s1 c bs where i: "12 \<le> len" "drop_bit 6 (m 0) = 2" "rtp_offset m len = Some off"
      "srtp_track_seq sa ?seq ?roc = Done (0, s1)" "c = crypt_image ks k sa m len off"
      "bs = srtp_trailer hmac km sa ?seq (rtp_roc s1) ?roc (mread c 0 len)"
      "m' = mwrite c len bs" "l' = len + length bs" "rtp_keyed key mkey k km dlen sa'"
      "same_config sa sa'" "same_window s1 sa'"
    by (rule srtp_send_ok_image [OF lib sa len ok])
  have rb: "srtp_compute_roc sb ?seq = ?roc"
    using win by (intro compute_roc_cong) (simp_all add: same_window_def)
  have "\<not> carries_roc sa ?seq"
    using rcc_layout_sizes(4) [of sa ?seq] mode by (cases "rcc_layout sa ?seq") (auto simp: carries_roc_def)
  then have carry: "if carries_roc sa ?seq then rtp_roc sa' = ?roc else srtp_compute_roc sb ?seq = ?roc"
    using rb by simp
  obtain sb1 where w: "srtp_track_seq sb ?seq ?roc = Done (0, sb1)"
    using track_seq_cong [OF i(4), of sb] win by (auto simp: same_window_def)
  from srtp_deliver [OF lib sa sb cfg len ok refl carry w] obtain sb' m'' md t where
    d: "srtp_recv G sb m' l' = Done (0, sb', m'', len)" "mread m'' 0 len = mread m 0 len"
      "rtp_keyed key mkey k km dlen sb'" "same_config sb sb'"
      "srtp_track_seq (adopt_roc sb md 1 (?roc - srtp_compute_roc sb ?seq)) ?seq ?roc = Done (0, t)"
      "same_window t sb'"
    by blast
  let ?t0 = "adopt_roc sb md 1 (?roc - srtp_compute_roc sb ?seq)"
  have "rtp_seq ?t0 = rtp_seq sa" "window (rtp ?t0) = window (rtp sa)" "rtp_roc ?t0 = rtp_roc sa"
    using win rb by (simp_all add: adopt_roc_def same_window_def)
  from track_seq_cong [OF i(4) this(1,2)] this(3) d(5) have "same_window s1 t"
    by (auto simp: same_window_def)
  then have "same_window sa' sb'" using i(11) d(6) by (simp add: same_window_def)
  moreover have "same_config sa' sb'" using i(10) cfg d(4) by (simp add: same_config_def)
  ultimately show thesis using that d(1-3) i(9) same_config_mode [OF i(10)] mode by simp
qed

lemma stream_in_sync:
  assumes "srtp_library G key strm ks mkey mdata hmac dlen"
    and "rtp_keyed key mkey k km dlen sa" and "rtp_keyed key mkey k km dlen sb"
    and "same_config sa sb" and "same_window sa sb" and "rcc_mode sa = 0"
    and "list_all (\<lambda>(m, len, sz). len < 2 ^ 31 \<and> rtp_header_len m < 65536) ps"
    and "send_run G sa ps = Done (out, sa')"
  shows "\<exists>ins sb'. recv_run G sb (map snd out) = Done (ins, sb') \<and>
    list_all2 (\<lambda>((m, len), w) (r, m', l'). r = 0 \<and> l' = len \<and> mread m' 0 len = mread m 0 len) out ins"
  using assms(2-8)
proof (induction ps arbitrary: sa sb out)
  case Nil
  then show ?case by simp
next
  case (Cons p ps)
  obtain m len sz where p: "p = (m, len, sz)" by (metis prod_cases3)
  from Cons.prems(7) obtain r s1 m' l' out1 where
    1: "srtp_send G sa m len sz = Done (r, s1, m', l')" "send_run G s1 ps = Done (out1, sa')"
      "out = (if r = 0 then ((m, len), (m', l')) # out1 else out1)"
    by (auto simp: p)
  have len: "len < 2 ^ 31" "rtp_header_len m < 65536" using Cons.prems(6) by (auto simp: p)
  show ?case
  proof (cases "r = 0")
    case False
    then have "s1 = sa" using srtp_send_fail_keyed [OF assms(1) Cons.prems(1) len(1) 1(1)] by simp
    then show ?thesis using Cons.IH [of sa sb out1] Cons.prems 1 False by simp
  next
    case True
    obtain sb1 m2 where 2: "srtp_recv G sb m' l' = Done (0, sb1, m2, len)"
        "mread m2 0 len = mread m 0 len" "rtp_keyed key mkey k km dlen s1"
        "rtp_keyed key mkey k km dlen sb1" "same_config s1 sb1" "same_window s1 sb1" "rcc_mode s1 = 0"
      by (rule srtp_step_in_sync [OF assms(1) Cons.prems(1-5) len 1(1) [unfolded True]])
    from Cons.IH [OF 2(3-7) _ 1(2)] Cons.prems(6) obtain ins sb' where
      "recv_run G sb1 (map snd out1) = Done (ins, sb')"
      "list_all2 (\<lambda>((m, len), w) (r, m', l'). r = 0 \<and> l' = len \<and> mread m' 0 len = mread m 0 len) out1 ins"
      by auto
    then show ?thesis using 1(3) 2(1,2) True by simp
  qed
qed

text \<open>
  (C1) A whole stream arrives, on sessions without counter carry (no RCC mode): whatever
  sequence of packets an application hands to \<open>srtp_send\<close> (in any order, with packets the sender
  refuses among them), the SRTP packets it produced, delivered in order to a receiver that starts
  in step with the sender, are all accepted and decrypt to the original packets (shorter than
  \<open>2^31\<close> bytes, with headers below 65536 bytes). With counter
  carry a late packet from before a wrap of the sequence numbers is refused (\<open>srtp.c\<close>:594).
\<close>

theorem srtp_stream_delivery:
  assumes "srtp_library G key strm ks mkey mdata hmac dlen"
    and "rtp_keyed key mkey k km dlen sa" and "rtp_keyed key mkey k km dlen sb"
    and "same_config sa sb" and "same_window sa sb" and "rcc_mode sa = 0"
    and "list_all (\<lambda>(m, len, sz). len < 2 ^ 31 \<and> rtp_header_len m < 65536) ps"
    and "send_run G sa ps = Done (out, sa')"
  shows "\<exists>ins sb'. recv_run G sb (map snd out) = Done (ins, sb') \<and>
    list_all2 (\<lambda>((m, len), w) (r, m', l'). r = 0 \<and> l' = len \<and> mread m' 0 len = mread m 0 len) out ins"
  using assms by (rule stream_in_sync)

lemma demo_enospc:
  "srtp_send stub_gcrypt demo_session demo_packet 18 5 = Done (ENOSPC, demo_session, demo_packet, 28)"
  by (simp add: srtp_send_def demo_flag demo_layout demo_mode)

theorem srtp_stream_delivery_witness:
  "\<exists>w sa' m' l' sb'. send_run stub_gcrypt demo_session [(demo_packet, 18, 5), (demo_packet, 18, 40)] =
      Done ([((demo_packet, 18), w)], sa') \<and>
    recv_run stub_gcrypt demo_session [w] = Done ([(0, m', 18)], sb') \<and>
    mread m' 0 18 = mread demo_packet 0 18"
proof -
  obtain s' m' where "srtp_send stub_gcrypt demo_session demo_packet 18 40 = Done (0, s', m', 28)"
    using demo_send by blast
  then have r: "send_run stub_gcrypt demo_session [(demo_packet, 18, 5), (demo_packet, 18, 40)] =
      Done ([((demo_packet, 18), (m', 28))], s')"
    by (simp add: demo_enospc)
  from srtp_stream_delivery [OF stub_library demo_keyed demo_keyed _ _ demo_mode _ r] obtain ins sb' where
    "recv_run stub_gcrypt demo_session [(m', 28)] = Done (ins, sb')"
    "list_all2 (\<lambda>((m, len), w) (r, m', l'). r = 0 \<and> l' = len \<and> mread m' 0 len = mread m 0 len)
       [((demo_packet, 18), (m', 28))] ins"
    by (auto simp: demo_header)
  then show ?thesis using r by (auto simp: list_all2_Cons1)
qed

section \<open>Authenticity\<close>

text \<open>
  (C7) Only authentic packets pass: if \<open>srtp_recv\<close> of an authenticating session accepts a
  packet, the bytes it cut off the end are exactly the trailer that the holder of the
  session's MAC key computes for the packet and the roll-over counter in use (the carried
  one where the RCC mode carries it), and the length it reports is the rest.
\<close>

theorem srtp_recv_authentic:
  assumes lib: "srtp_library G key strm ks mkey mdata hmac dlen"
    and s: "rtp_keyed key mkey k km dlen s" and a: "\<not> has_flag s SRTP_UNAUTHENTICATED"
    and ok: "srtp_recv G s m len = Done (0, s', m', l')"
  shows "\<exists>rcc. mread m l' (len - l') = srtp_trailer hmac km s (rtp_seq_of m) rcc rcc (mread m 0 l') \<and>
    12 \<le> l' \<and> l' \<le> len \<and> (carries_roc s (rtp_seq_of m) \<or> rcc = srtp_compute_roc s (rtp_seq_of m))"
  using ok
proof (cases rule: srtp_recv_cases)
  case (passed n t rcc tag md)
  have km: "mkey (mac (rtp s)) = Some km" using s by (simp add: rtp_keyed_def)
  have tag: "tag = hmac km (mread m 0 l' @ be_bytes32 rcc)"
    using rtp_digest_hmac(1) [OF lib km, of "mread m 0 l'" rcc] passed(7) by auto
  have n: "n = 0 \<or> n = 4" by (rule rcc_layout_sizes(1) [OF passed(2)])
  have "n = 4 \<Longrightarrow> mread m l' 4 = be_bytes32 rcc"
    using passed(6) by (simp add: ntohl_load be_bytes32_word)
  then have "mread m l' (n + nat t) = srtp_trailer hmac km s (rtp_seq_of m) rcc rcc (mread m 0 l')"
    using n passed(1,2,8) tag mread_split [of m l' n "nat t"]
    by (auto simp: srtp_trailer_def)
  moreover have "carries_roc s (rtp_seq_of m) \<or> rcc = srtp_compute_roc s (rtp_seq_of m)"
    using passed(1,2,6) by (simp add: carries_roc_def)
  ultimately show ?thesis using passed(4,5) by auto
qed (use a in simp_all)

theorem srtp_recv_authentic_witness:
  "\<exists>m' rcc. mread m' 18 10 = srtp_trailer stub_hmac [3] demo_session (rtp_seq_of m') rcc rcc (mread m' 0 18)"
proof -
  obtain s' m' sb' m'' where "srtp_recv stub_gcrypt demo_session m' 28 = Done (0, sb', m'', 18)"
  proof -
    obtain s' m' where s: "srtp_send stub_gcrypt demo_session demo_packet 18 40 = Done (0, s', m', 28)"
      using demo_send by blast
    show thesis
      by (rule srtp_step_in_sync [OF stub_library demo_keyed demo_keyed _ _ demo_mode _ _ s])
        (use that in \<open>auto simp: demo_header\<close>)
  qed
  from srtp_recv_authentic [OF stub_library demo_keyed demo_flag this] show ?thesis by auto
qed

text \<open>
  (C14) A refused packet does no harm, on a session without counter carry (no RCC mode; with
  it \<open>srtp.c\<close>:679 moves the counter before a replay is refused): whatever bytes arrive, an error
  return of \<open>srtp_recv\<close> (forged, replayed, malformed, too short) leaves the buffer, the
  roll-over counter, the highest sequence number, the window, the keys and the
  configuration as they were.
\<close>

theorem srtp_recv_refused_harmless:
  assumes lib: "srtp_library G key strm ks mkey mdata hmac dlen"
    and s: "rtp_keyed key mkey k km dlen s" and mode: "rcc_mode s = 0" and len: "len < 2 ^ 31"
    and r: "srtp_recv G s m len = Done (r, s', m', l')" "r \<noteq> 0"
  shows "m' = m \<and> same_window s s' \<and> same_config s s' \<and> rtp_keyed key mkey k km dlen s'"
proof -
  have km: "mkey (mac (rtp s)) = Some km" using s by (simp add: rtp_keyed_def)
  have mac: "mkey md = Some km" if "rtp_digest G (mac (rtp s)) d roc = (tag, md)" for d roc tag md
    using rtp_digest_hmac(1) [OF lib km, of d roc] that by auto
  have keyed: "rtp_keyed key mkey k km dlen (adopt_roc s md n d)" if "mkey md = Some km" for md n d
    using keyed_step [OF s adopt_roc_keeps(1,3)] s that by (simp add: adopt_roc_keeps rtp_keyed_def)
  from r(1) show ?thesis
  proof (cases rule: srtp_recv_cases)
    case plain
    then show ?thesis using srtp_crypt_fail_keyed [OF lib s len plain(4) r(2)] s by simp
  next
    case (denied d rcc tag md)
    then show ?thesis using keyed [OF mac [OF denied(1)], of 0 0]
      by (simp add: same_window_def same_config_def adopt_roc_def)
  next
    case (passed n t rcc tag md)
    have "n = 0" using rcc_layout_sizes(4) [OF passed(2) mode] by simp
    moreover have "l' < 2 ^ 31" using passed(5) len by simp
    ultimately show ?thesis
      using srtp_crypt_fail_keyed [OF lib keyed [OF mac [OF passed(7)]] _ passed(10) r(2)]
        keyed [OF mac [OF passed(7)]]
      by (simp add: same_window_def adopt_roc_keeps) (simp add: adopt_roc_def)
  qed (use s in simp)
qed

lemma demo_forged:
  "\<exists>s'. srtp_recv stub_gcrypt demo_session demo_packet 28 = Done (EACCES, s', demo_packet, 28)"
proof -
  let ?roc = "srtp_compute_roc demo_session (rtp_seq_of demo_packet)"
  obtain md where md: "rtp_digest stub_gcrypt (mac (rtp demo_session)) (mread demo_packet 0 18) ?roc =
      (stub_hmac [3] (mread demo_packet 0 18 @ be_bytes32 ?roc), md)"
    using rtp_digest_hmac(1) [OF stub_library demo_mac_key] by blast
  have "take 10 (stub_hmac k d) ! 0 = take 10 (stub_hmac k d) ! 1" for k d by (simp add: stub_hmac_def)
  moreover have "mread demo_packet 18 10 ! 0 \<noteq> mread demo_packet 18 10 ! 1" by (simp add: demo_packet_def)
  ultimately have ne: "mread demo_packet 18 10 \<noteq> take 10 (stub_hmac k d)" for k d by metis
  have z: "length (stub_hmac k d) = 20" for k d by (simp add: stub_hmac_def)
  show ?thesis
    using srtp_recv_auth_eq [OF demo_flag _ _ demo_layout _ _ refl _ md, of 28] ne z
    by (simp add: demo_mode)
qed

theorem srtp_recv_refused_harmless_witness:
  "\<exists>s'. srtp_recv stub_gcrypt demo_session demo_packet 28 = Done (EACCES, s', demo_packet, 28) \<and>
     rtp_seq s' = 0 \<and> window (rtp s') = 0"
proof -
  obtain s' where r: "srtp_recv stub_gcrypt demo_session demo_packet 28 = Done (EACCES, s', demo_packet, 28)"
    using demo_forged by blast
  from srtp_recv_refused_harmless [OF stub_library demo_keyed demo_mode _ r] r show ?thesis
    by (auto simp: same_window_def demo_defs)
qed

section \<open>Replay protection\<close>

text \<open>
  (C6) No replay at the interface: over any sequence of fewer than \<open>2^42\<close> buffers handed to
  \<open>srtp_recv\<close> on a fresh session without counter carry, the packets it accepts have pairwise
  different 48 bit indices, whatever the library answers, with or without authentication.
\<close>

theorem srtp_recv_no_replay:
  assumes "srtp_fresh s" and "rcc_mode s = 0" and "length ps < 2 ^ 42"
    and "filter_run (recv_filter G) recv_index s ps = Done (os, s')"
  shows "distinct os"
proof (rule recv_window.run_distinct [OF _ assms(4)])
  show "recv_rel s 0 {}" using rtp_rel_fresh [OF assms(1)] assms(2) by (simp add: recv_rel_def)
  show "63 * int (length ps) + 64 \<le> 2 ^ 48" using assms(3) by simp
qed

text \<open>In the witness a packet arrives twice, on a session without encryption and tags.\<close>

theorem srtp_recv_no_replay_witness:
  "\<exists>os s'. filter_run (recv_filter stub_gcrypt) recv_index (demo_session\<lparr>flags := 5\<rparr>)
     [(demo_packet, 18), (demo_packet, 18)] = Done (os, s') \<and> os = [(0, 1)] \<and> distinct os"
proof -
  let ?s = "demo_session\<lparr>flags := 5\<rparr>"
  have "\<exists>s'. filter_run (recv_filter stub_gcrypt) recv_index ?s [(demo_packet, 18), (demo_packet, 18)] =
      Done ([(0, 1)], s')"
    by (simp add: recv_filter_def recv_index_def srtp_recv_def srtp_crypt_def has_flag_def flag_defs
        demo_header demo_offset srtp_track_seq_def srtp_compute_roc_def Let_def demo_defs EACCES_def)
  then obtain s' where r: "filter_run (recv_filter stub_gcrypt) recv_index ?s
      [(demo_packet, 18), (demo_packet, 18)] = Done ([(0, 1)], s')"
    by blast
  from srtp_recv_no_replay [OF _ _ _ r] r show ?thesis
    by (simp add: srtp_fresh_def rcc_mode_def demo_defs)
qed

text \<open>
  With counter carry the window no longer protects: an authentic packet that carries
  any roll-over counter \<open>rcc\<close> at all is accepted when its sequence number is 1 to 63 ahead
  of the highest one, and the session's counter becomes \<open>rcc\<close>, also when \<open>rcc\<close> lies in the
  past. A recorded packet of an earlier cycle is accepted again and sets the receiver back.
\<close>

theorem srtp_recv_rcc_adopts:
  assumes lib: "srtp_library G key strm ks mkey mdata hmac dlen"
    and s: "rtp_keyed key mkey k km dlen s" and len: "12 \<le> len" "len < 2 ^ 31"
    and hdr: "rtp_header_len c < 65536" "drop_bit 6 (c 0) = 2" "rtp_offset c len = Some off"
    and carry: "carries_roc s (rtp_seq_of c)"
    and ahead: "0 < seq_off s (rtp_seq_of c)" "seq_off s (rtp_seq_of c) < 64"
    and bs: "bs = srtp_trailer hmac km s (rtp_seq_of c) rcc rcc (mread c 0 len)"
  shows "\<exists>s' m'. srtp_recv G s (mwrite c len bs) (len + length bs) = Done (0, s', m', len) \<and>
    rtp_roc s' = rcc \<and> rtp_seq s' = rtp_seq_of c"
proof -
  let ?seq = "rtp_seq_of c" and ?m = "mwrite c len bs"
  obtain md where md: "mkey md = Some km" "srtp_recv G s ?m (len + length bs) =
      obind (srtp_crypt G (adopt_roc s md 1 (rcc - srtp_compute_roc s ?seq)) ?m len)
        (\<lambda>(r, s', m'). Done (r, s', m', len))"
    using srtp_recv_verifies [OF lib s len(1) refl bs] carry by blast
  define t where "t = adopt_roc s md 1 (rcc - srtp_compute_roc s ?seq)"
  have t: "rtp_keyed key mkey k km dlen t" "srtp_compute_roc t ?seq = rcc" "seq_off t ?seq = seq_off s ?seq"
    unfolding t_def using keyed_step [OF s adopt_roc_keeps(1,3)] s md(1)
    by (simp_all add: adopt_roc_keeps adopt_roc_compute rtp_keyed_def seq_off_def)
  have hm: "?m i = c i" if "i < rtp_header_len c" for i
    using offset_header [OF hdr(1,3)] that by (simp add: mwrite_outside)
  note sh = same_header [OF hdr(1) hm, simplified]
  have "\<exists>t1. srtp_track_seq t ?seq rcc = Done (0, t1) \<and> rtp_roc t1 = rcc \<and> rtp_seq t1 = ?seq"
    using ahead t(3) by (simp add: srtp_track_seq_eq)
  then obtain t1 where t1: "srtp_track_seq t ?seq rcc = Done (0, t1)" "rtp_roc t1 = rcc" "rtp_seq t1 = ?seq"
    by blast
  from srtp_crypt_keyed [OF lib t(1) len, of ?m off t1] hdr sh t t1(1) md(2) t1(2,3) show ?thesis
    unfolding t_def [symmetric] by auto
qed

text \<open>In the witness the receiver is in cycle 7 and the packet is one of cycle 3.\<close>

theorem srtp_recv_rcc_adopts_witness:
  "\<exists>bs s' m'. srtp_recv stub_gcrypt (demo_session\<lparr>flags := 0x10, rtp_roc := 7\<rparr>)
      (mwrite demo_packet 18 bs) (18 + length bs) = Done (0, s', m', 18) \<and> rtp_roc s' = 3"
proof -
  let ?s = "demo_session\<lparr>flags := 0x10, rtp_roc := 7\<rparr>"
  have "rtp_keyed fst fst [1, 2] [3] 20 ?s"
    using demo_wf by (simp add: rtp_keyed_def srtp_wf_def rcc_mode_def flag_defs) (simp add: demo_defs)
  moreover have "carries_roc ?s (rtp_seq_of demo_packet)"
    by (simp add: carries_roc_def has_flag_def rcc_layout_def rcc_mode_def flag_defs demo_header)
      (simp add: demo_defs)
  moreover have "seq_off ?s (rtp_seq_of demo_packet) = 1"
    by (simp add: seq_off_def demo_header) (simp add: demo_defs)
  ultimately show ?thesis
    using srtp_recv_rcc_adopts [OF stub_library, of "[1, 2]" "[3]" ?s 18 demo_packet 12, OF _ _ _ _ _ demo_offset _ _ _ refl, of 3]
    by (auto simp: demo_header)
qed

section \<open>Asserts, bounds and undefined behaviour\<close>

text \<open>
  No input makes \<open>srtp_recv\<close> fail an assertion: the length check in front keeps every
  short packet from the \<open>assert (len >= 12u)\<close> of \<open>srtp_crypt\<close>, and adopting a carried
  counter always makes \<open>srtp_compute_roc\<close> return it, which \<open>srtp_recv\<close> asserts.
\<close>

theorem srtp_recv_never_aborts: "srtp_recv G s m len \<noteq> Aborted"
proof (cases "len < 12 \<or> has_flag s SRTP_UNAUTHENTICATED")
  case True
  then show ?thesis
    using srtp_crypt_not_aborted [of len G s m] by (auto simp: srtp_recv_def obind_Aborted_iff)
next
  case False
  then have a: "\<not> has_flag s SRTP_UNAUTHENTICATED" "12 \<le> len" by auto
  obtain n t where l: "rcc_layout s (rtp_seq_of m) = (n, t)" by fastforce
  show ?thesis
  proof (cases "(rcc_mode s = 0 \<or> rtp_rcc s \<noteq> 0) \<and> 12 + int n + t \<le> int len")
    case True
    let ?len1 = "nat (int len - (int n + t))"
    have "12 \<le> ?len1" using True by linarith
    define rcc where "rcc = (if n \<noteq> 0 then ntohl (u32_load (mread m ?len1 4))
      else srtp_compute_roc s (rtp_seq_of m))"
    obtain tag md where "rtp_digest G (mac (rtp s)) (mread m 0 ?len1) rcc = (tag, md)" by fastforce
    from srtp_recv_auth_eq [OF a _ l _ refl refl rcc_def this] True srtp_crypt_not_aborted [OF \<open>12 \<le> ?len1\<close>]
    show ?thesis by (auto simp: obind_Aborted_iff split: if_splits)
  next
    case invalid: False
    then show ?thesis using a l by (auto simp: srtp_recv_def)
  qed
qed

text \<open>
  A sender with a well-formed session never fails an assertion either.
\<close>

theorem srtp_send_never_aborts:
  assumes "srtp_wf s"
  shows "srtp_send G s m len bufsize \<noteq> Aborted"
  using assms srtp_crypt_not_aborted [of len G s m]
  by (auto simp: srtp_send_def srtp_wf_def Let_def obind_Aborted_iff split: prod.splits if_splits)

theorem srtp_send_never_aborts_witness:
  "srtp_send stub_gcrypt stub_session demo_packet 18 40 \<noteq> Aborted"
  by (rule srtp_send_never_aborts)
    (simp add: srtp_wf_def stub_session_def stub_proto_def rcc_mode_def flag_defs)

text \<open>
  (C23) \<open>srtp_send\<close> does not overrun its buffer: whatever the library does, it changes no byte
  at or behind \<open>bufsize\<close>; on success the SRTP packet it reports fits and adds at most the
  counter and the tag, and nothing behind it is changed.
\<close>

theorem srtp_send_in_bounds:
  assumes "srtp_send G s m len bufsize = Done (r, s1, m1, l1)"
  shows "(\<forall>i \<ge> bufsize. m1 i = m i) \<and>
     (r = 0 \<longrightarrow> len \<le> l1 \<and> l1 \<le> bufsize \<and> l1 \<le> len + 4 + unat (tag_len s) \<and> (\<forall>i \<ge> l1. m1 i = m i))"
  using assms
proof (cases rule: srtp_send_cases)
  case (tagged n t s2 m2 tag md)
  have n: "n = 0 \<or> n = 4" and t: "t \<le> int (unat (tag_len s))" using rcc_layout_sizes [OF tagged(4)] by auto
  then have "l1 \<le> len + 4 + unat (tag_len s)" using tagged(5) by linarith
  moreover have "m1 i = m i" if "l1 \<le> i" for i
  proof -
    have "m1 i = m2 i"
      unfolding tagged(11) using that tagged(5) n by (intro mwrite_outside) auto
    also have "\<dots> = m i" using that tagged(5) by (intro srtp_crypt_frame [OF tagged(7)]) simp
    finally show ?thesis .
  qed
  ultimately show ?thesis using tagged(5,6) by auto
qed (auto intro: srtp_crypt_frame le_trans)

theorem srtp_send_in_bounds_witness:
  "\<exists>s' m'. srtp_send stub_gcrypt demo_session demo_packet 18 40 = Done (0, s', m', 28) \<and> m' 28 = 28"
proof -
  obtain s' m' where s: "srtp_send stub_gcrypt demo_session demo_packet 18 40 = Done (0, s', m', 28)"
    using demo_send by blast
  from srtp_send_in_bounds [OF s] s show ?thesis by (auto simp: demo_packet_def)
qed

text \<open>
  \<open>srtp_recv\<close> works in place: it never reports a longer packet than it was given, and
  changes nothing at or behind the length it reports.
\<close>

theorem srtp_recv_in_bounds:
  assumes "srtp_recv G s m len = Done (r, s1, m1, l1)"
  shows "l1 \<le> len \<and> (\<forall>i \<ge> l1. m1 i = m i)"
  using assms by (cases rule: srtp_recv_cases) (auto dest: srtp_crypt_frame)

theorem srtp_recv_in_bounds_witness:
  "\<exists>m' s' m''. srtp_recv stub_gcrypt demo_session m' 28 = Done (0, s', m'', 18) \<and> m'' 18 = m' 18"
proof -
  obtain sa m' where s: "srtp_send stub_gcrypt demo_session demo_packet 18 40 = Done (0, sa, m', 28)"
    using demo_send by blast
  obtain sb m'' where r: "srtp_recv stub_gcrypt demo_session m' 28 = Done (0, sb, m'', 18)"
    by (rule srtp_step_in_sync [OF stub_library demo_keyed demo_keyed _ _ demo_mode _ _ s])
      (simp_all add: demo_header)
  from srtp_recv_in_bounds [OF r] r show ?thesis by auto
qed

text \<open>
  (C37) Too small a buffer: \<open>srtp_send\<close> then reports \<open>ENOSPC\<close> and the size it needs, changes
  nothing, and does not report \<open>ENOSPC\<close> again for a buffer of that size.
\<close>

theorem srtp_send_enospc:
  assumes "srtp_send G s m len bufsize = Done (ENOSPC, s', m', need)"
  shows "s' = s \<and> m' = m \<and> bufsize < need \<and> need \<le> len + 4 + unat (tag_len s) \<and>
    (\<forall>s2 m2 l2. srtp_send G s m len need \<noteq> Done (ENOSPC, s2, m2, l2))"
proof -
  have crypt: "r \<noteq> ENOSPC" if "srtp_crypt G s m len = Done (r, t, m')" for r t m'
    using that by (cases rule: srtp_crypt_cases) auto
  have send: "t = s \<and> m2 = m \<and> b < l2 \<and> l2 = srtp_sent_len s m len"
    if "srtp_send G s m len b = Done (ENOSPC, t, m2, l2)" for b t m2 l2
    using that by (cases rule: srtp_send_cases) (auto dest: crypt)
  from send [OF assms] have 1: "s' = s \<and> m' = m \<and> bufsize < need \<and> need = srtp_sent_len s m len" .
  then have "need \<le> len + 4 + unat (tag_len s)" by (simp add: srtp_sent_len_le)
  moreover have "srtp_send G s m len need \<noteq> Done (ENOSPC, s2, m2, l2)" for s2 m2 l2
    using send [of need s2 m2 l2] 1 by auto
  ultimately show ?thesis using 1 by simp
qed

theorem srtp_send_enospc_witness:
  "srtp_send stub_gcrypt demo_session demo_packet 18 5 = Done (ENOSPC, demo_session, demo_packet, 28) \<and>
   (\<forall>s2 m2 l2. srtp_send stub_gcrypt demo_session demo_packet 18 28 \<noteq> Done (ENOSPC, s2, m2, l2))"
  using srtp_send_enospc [OF demo_enospc] demo_enospc by blast

text \<open>
  The 16 bit encryption offset wraps: a packet whose extension length field is \<open>0xfff0\<close>
  claims a header of 65536 bytes, yet \<open>srtp_crypt\<close> does not refuse it as malformed however
  short it is; the offset becomes 0 and the fixed RTP header is encrypted as well.
\<close>

theorem srtp_crypt_offset_wraps:
  assumes lib: "srtp_library G key strm ks mkey mdata hmac dlen"
    and s: "rtp_keyed key mkey k km dlen s" "\<not> has_flag s SRTP_UNENCRYPTED"
    and len: "16 \<le> len" "len < 2 ^ 31"
    and m: "m 0 = 0x90" "m 14 = 0xff" "m 15 = 0xf0"
    and tr: "srtp_track_seq s (rtp_seq_of m) (srtp_compute_roc s (rtp_seq_of m)) = Done (0, s1)"
  shows "rtp_header_len m = 65536 \<and> (\<exists>s' m'. srtp_crypt G s m len = Done (0, s', m') \<and>
    (\<forall>i < len. m' i = m i XOR ks k (packet_counter s m (srtp_compute_roc s (rtp_seq_of m))) i))"
proof -
  have "rtp_header_len m = 65536"
    using m by (simp add: rtp_header_len_def be_word16_def)
  moreover have "rtp_offset m len = Some 0"
    using m len by (simp add: rtp_offset_def be_word16_def)
  ultimately show ?thesis
    using srtp_crypt_keyed [OF lib s(1) _ len(2) _ _ tr, of 0] m(1) len(1) s(2)
    by (auto simp: crypt_image_def ctr_apply_at)
qed

theorem srtp_crypt_offset_wraps_witness:
  "\<exists>s' m'. srtp_crypt stub_gcrypt demo_session (demo_packet(0 := 0x90, 14 := 0xff, 15 := 0xf0)) 20 =
     Done (0, s', m') \<and> (\<exists>i < 12. m' i \<noteq> (demo_packet(0 := 0x90, 14 := 0xff, 15 := 0xf0)) i)"
proof -
  let ?m = "demo_packet(0 := 0x90, 14 := 0xff, 15 := 0xf0)"
  have seq: "rtp_seq_of ?m = 1" by (simp add: rtp_seq_of_def demo_packet_def)
  obtain s1 where tr: "srtp_track_seq demo_session (rtp_seq_of ?m)
      (srtp_compute_roc demo_session (rtp_seq_of ?m)) = Done (0, s1)"
    unfolding seq using demo_track by blast
  let ?f = "stub_ks [1, 2] (packet_counter demo_session ?m (srtp_compute_roc demo_session (rtp_seq_of ?m)))"
  obtain s' m' where r: "srtp_crypt stub_gcrypt demo_session ?m 20 = Done (0, s', m')"
      "\<forall>i < 20. m' i = ?m i XOR ?f i"
    using srtp_crypt_offset_wraps [OF stub_library demo_keyed demo_flag, of 20 ?m] tr by auto
  have "?f 0 \<noteq> ?f 1" by (simp add: stub_ks_def)
  then have "?f 0 \<noteq> 0 \<or> ?f 1 \<noteq> 0" by auto
  then have "m' 0 \<noteq> ?m 0 \<or> m' 1 \<noteq> ?m 1"
    using r(2) word_xor_left_cancel [of "?m 0" "?f 0" 0] word_xor_left_cancel [of "?m 1" "?f 1" 0] by auto
  moreover have "(0 :: nat) < 12" "(1 :: nat) < 12" by simp_all
  ultimately have "\<exists>i < 12. m' i \<noteq> ?m i" by blast
  then show ?thesis using r(1) by blast
qed

lemma srtp_crypt_undefined:
  assumes "srtp_crypt G s m len = Undefined" and "len < 2 ^ 31"
  shows "srtp_track_seq s (rtp_seq_of m) (srtp_compute_roc s (rtp_seq_of m)) = Undefined"
proof -
  have "do_ctr_crypt G h c m a (len - n) \<noteq> Undefined" for h c m a n
    using do_ctr_crypt_returns [OF less_imp_diff_less [OF assms(2)], of G h c m a n]
    by (auto simp: returns_iff)
  then show ?thesis using assms(1)
    by (auto simp: srtp_crypt_def Let_def obind_Undefined_iff rtp_crypt_def
        split: if_splits option.splits)
qed

text \<open>
  (C22) The undefined shift of the replay window (\<open>srtp.c\<close>:498-506, by 64 or more) needs the key:
  on a keyed authenticating session only an authentic packet 64 or more ahead of the highest
  sequence number (or 32768 behind) reaches it, and for every input that does not end in a valid
  trailer \<open>srtp_recv\<close> returns. This is about that shift alone. Two other places that ISO C leaves
  undefined are given the value the compiled code has, and ordinary packets reach them: the shift
  of the sequence number into the sign bit (\<open>srtp.c\<close>:401) and the read of up to 15 bytes behind the
  payload (\<open>srtp.c\<close>:223).
\<close>

theorem srtp_recv_undefined_authentic:
  assumes lib: "srtp_library G key strm ks mkey mdata hmac dlen"
    and s: "rtp_keyed key mkey k km dlen s" and a: "\<not> has_flag s SRTP_UNAUTHENTICATED"
    and len: "len < 2 ^ 31" and u: "srtp_recv G s m len = Undefined"
  shows "(let d = (uint (rtp_seq_of m) - uint (rtp_seq s)) mod 65536 in 64 \<le> d \<and> d \<le> 32768) \<and>
    (\<exists>l' rcc. l' \<le> len \<and>
      mread m l' (len - l') = srtp_trailer hmac km s (rtp_seq_of m) rcc rcc (mread m 0 l'))"
proof -
  have km: "mkey (mac (rtp s)) = Some km" using s by (simp add: rtp_keyed_def)
  have z: "rcc_mode s = 0 \<or> rtp_rcc s \<noteq> 0" using s by (auto simp: rtp_keyed_def srtp_wf_def)
  obtain n t where l: "rcc_layout s (rtp_seq_of m) = (n, t)" by fastforce
  have l12: "12 \<le> len" "12 + int n + t \<le> int len"
    using u a z l by (auto simp: srtp_recv_def not_less split: if_splits)
  note lt = length_trailer [OF lib s l]
  have n: "n = 0 \<or> n = 4" by (rule rcc_layout_sizes(1) [OF l])
  let ?l = "nat (int len - (int n + t))" and ?roc = "srtp_compute_roc s (rtp_seq_of m)"
  define rcc where "rcc = (if n \<noteq> 0 then ntohl (u32_load (mread m ?l 4)) else ?roc)"
  obtain md where md: "rtp_digest G (mac (rtp s)) (mread m 0 ?l) rcc =
      (hmac km (mread m 0 ?l @ be_bytes32 rcc), md)" "mkey md = Some km"
    using rtp_digest_hmac(1) [OF lib km] by blast
  note eq = srtp_recv_auth_eq [OF a l12(1) z l l12(2) refl refl rcc_def md(1)]
  let ?s = "adopt_roc s md n (rcc - ?roc)"
  have tag: "mread m (?l + n) (nat t) = take (nat t) (hmac km (mread m 0 ?l @ be_bytes32 rcc))"
    and c: "srtp_crypt G ?s m ?l = Undefined"
    using u lt(2,3) rtp_digest_hmac(2) [OF lib km] unfolding eq
    by (auto simp: obind_Undefined_iff split: if_splits)
  have lens: "?l \<le> len" "len - ?l = n + nat t" "?l < 2 ^ 31" "12 \<le> ?l" using l12 lt(3) len by linarith+
  have "n = 4 \<Longrightarrow> mread m ?l 4 = be_bytes32 rcc" by (simp add: rcc_def ntohl_load be_bytes32_word)
  then have "mread m ?l (len - ?l) = srtp_trailer hmac km s (rtp_seq_of m) rcc rcc (mread m 0 ?l)"
    using n l tag a mread_split [of m ?l n "nat t"] unfolding lens(2) by (auto simp: srtp_trailer_def)
  moreover have "srtp_track_seq ?s (rtp_seq_of m) (srtp_compute_roc ?s (rtp_seq_of m)) = Undefined"
    by (rule srtp_crypt_undefined [OF c lens(3)])
  then have "let d = (uint (rtp_seq_of m) - uint (rtp_seq s)) mod 65536 in 64 \<le> d \<and> d \<le> 32768"
    using track_seq_undefined_aux [of ?s] by (simp add: adopt_roc_keeps)
  ultimately show ?thesis using lens(1) by blast
qed

text \<open>In the witness an authentic packet arrives 100 ahead.\<close>

theorem srtp_recv_undefined_authentic_witness:
  "\<exists>m. srtp_recv stub_gcrypt demo_session m 28 = Undefined \<and>
     (\<exists>l' rcc. l' \<le> 28 \<and> mread m l' (28 - l') =
        srtp_trailer stub_hmac [3] demo_session (rtp_seq_of m) rcc rcc (mread m 0 l'))"
proof -
  let ?c = "demo_packet(3 := 100)"
  have seq: "rtp_seq_of ?c = 100" by (simp add: rtp_seq_of_def demo_packet_def)
  define bs where "bs = srtp_trailer stub_hmac [3] demo_session 100 (srtp_compute_roc demo_session 100)
    (srtp_compute_roc demo_session 100) (mread ?c 0 18)"
  let ?m = "mwrite ?c 18 bs"
  have lb: "length bs = 10"
    using length_trailer(1) [OF stub_library demo_keyed demo_layout] by (simp add: bs_def demo_flag)
  obtain md where r: "srtp_recv stub_gcrypt demo_session ?m (18 + length bs) =
      obind (srtp_crypt stub_gcrypt (adopt_roc demo_session md 1 0) ?m 18)
        (\<lambda>(r, s', m'). Done (r, s', m', 18))"
    using srtp_recv_verifies [OF stub_library demo_keyed _ seq [symmetric] bs_def, of] by auto
  have h: "?m i = ?c i" if "i < 18" for i using that by (simp add: mwrite_outside)
  have "rtp_seq_of ?m = 100" "drop_bit 6 (?m 0) = 2" "rtp_offset ?m 18 = Some 12"
    using h seq by (simp_all add: rtp_seq_of_def rtp_offset_def demo_packet_def)
  moreover have "srtp_track_seq (adopt_roc demo_session md 1 0) 100 roc = Undefined" for roc
    by (simp add: track_seq_undefined_aux adopt_roc_def) (simp add: demo_defs)
  ultimately have u: "srtp_recv stub_gcrypt demo_session ?m 28 = Undefined"
    using r by (simp add: lb srtp_crypt_def Let_def)
  from srtp_recv_undefined_authentic [OF stub_library demo_keyed demo_flag _ u] u show ?thesis
    by (intro exI [of _ ?m]) simp
qed

end
