(* ===== verification/Srtcp.thy ===== *)
theory Srtcp
  imports Srtp_Guarantees
begin

text \<open>
  The RTCP half of \<open>srtp.c\<close>: \<open>rtcp_digest\<close>, \<open>srtcp_crypt\<close>, \<open>srtcp_send\<close> and \<open>srtcp_recv\<close>.
  The model follows the code where it departs from the protocol: \<open>srtcp_crypt\<close> marks
  replayed indices in the window of RTP and takes the salt of RTP, and \<open>srtcp_recv\<close> hands
  its packet to \<open>srtp_crypt\<close>. The lemmas say what the sender puts on the wire and what these
  departures amount to.
\<close>

section \<open>The code\<close>

definition rtcp_digest :: "('c, 'm, 'w) gcrypt \<Rightarrow> 'm \<Rightarrow> bytes \<Rightarrow> bytes \<times> 'm" where
  "rtcp_digest G md data = gcry_md_read G (gcry_md_write G (gcry_md_reset G md) data)"

text \<open>
  \<open>diff\<close> is an \<open>int32_t\<close>. Undefined are a shift count of 64 or more and negating \<open>INT32_MIN\<close>. The
  mask \<open>~(1 << 31)\<close> shifts an \<open>int\<close> into its sign bit, which C leaves undefined as well; compilers
  give the mask of the lower 31 bits, as it is here.
\<close>

definition srtcp_crypt ::
  "('c, 'm, 'w) gcrypt \<Rightarrow> ('c, 'm) srtp_session \<Rightarrow> mem \<Rightarrow> nat \<Rightarrow>
   (int \<times> ('c, 'm) srtp_session \<times> mem) outcome" where
  "srtcp_crypt G s buf len =
     (if len < 12 \<or> drop_bit 6 (buf 0) \<noteq> 2 then Done (EINVAL, s, buf)
      else let index0 = ntohl (u32_load (mread buf len 4)) in
      if (drop_bit 31 index0 \<noteq> 0) \<noteq> (\<not> has_flag s SRTCP_UNENCRYPTED) then Done (EINVAL, s, buf)
      else let index = index0 AND NOT (push_bit 31 1);
               diff = sint (index - rtcp_index s);
               win = window (rtcp s) in
      obind (if diff > 0 then
               (if diff \<ge> 64 then Undefined
                else Done (0, s\<lparr>rtcp := (rtcp s)\<lparr>window := push_bit (nat diff) win OR 1\<rparr>,
                               rtcp_index := index\<rparr>))
             else if diff = - (2 ^ 31) then Undefined
             else (let diff = - diff in
                   if diff \<ge> 64 \<or> drop_bit (nat diff) win AND 1 \<noteq> 0 then Done (EACCES, s)
                   else Done (0, s\<lparr>rtp := (rtp s)\<lparr>window := window (rtp s) OR push_bit (nat diff) 1\<rparr>\<rparr>)))
        (\<lambda>(r, s1).
      if r \<noteq> 0 then Done (r, s1, buf)
      else if has_flag s1 SRTCP_UNENCRYPTED then Done (0, s1, buf)
      else obind (rtcp_crypt G (cipher (rtcp s1)) (u32_load (mread buf 4 4)) index (salt (rtp s1))
                    buf 8 (len - 8)) (\<lambda>(e, h, buf').
        Done (if e \<noteq> 0 then EINVAL else 0, s1\<lparr>rtcp := (rtcp s1)\<lparr>cipher := h\<rparr>\<rparr>, buf'))))"

definition srtcp_send ::
  "('c, 'm, 'w) gcrypt \<Rightarrow> ('c, 'm) srtp_session \<Rightarrow> mem \<Rightarrow> nat \<Rightarrow> nat \<Rightarrow>
   (int \<times> ('c, 'm) srtp_session \<times> mem \<times> nat) outcome" where
  "srtcp_send G s buf len bufsize =
     (let tlen = unat (tag_len s) in
      if bufsize < len + 4 + tlen then Done (ENOSPC, s, buf, len)
      else let index1 = rtcp_index s + 1;
               index = (if drop_bit 31 index1 \<noteq> 0 then 0 else index1);
               s0 = s\<lparr>rtcp_index := index\<rparr>;
               index' = (if has_flag s0 SRTCP_UNENCRYPTED then index else index OR 0x80000000);
               buf0 = mwrite buf len (u32_store (htonl index')) in
      obind (srtcp_crypt G s0 buf0 len) (\<lambda>(val, s1, buf1).
      if val \<noteq> 0 then Done (val, s1, buf1, len)
      else case rtcp_digest G (mac (rtcp s1)) (mread buf1 0 (len + 4)) of (tag, md) \<Rightarrow>
        if length tag < tlen then Undefined
        else Done (0, s1\<lparr>rtcp := (rtcp s1)\<lparr>mac := md\<rparr>\<rparr>,
                   mwrite buf1 (len + 4) (take tlen tag), len + 4 + tlen)))"

definition srtcp_recv ::
  "('c, 'm, 'w) gcrypt \<Rightarrow> ('c, 'm) srtp_session \<Rightarrow> mem \<Rightarrow> nat \<Rightarrow>
   (int \<times> ('c, 'm) srtp_session \<times> mem \<times> nat) outcome" where
  "srtcp_recv G s buf len =
     (let tlen = unat (tag_len s) in
      if len < 4 + tlen then Done (EINVAL, s, buf, len)
      else let len1 = len - tlen in
      case rtcp_digest G (mac (rtcp s)) (mread buf 0 len1) of (tag, md) \<Rightarrow>
      let s1 = s\<lparr>rtcp := (rtcp s)\<lparr>mac := md\<rparr>\<rparr> in
      if length tag < tlen then Undefined
      else if mread buf len1 tlen \<noteq> take tlen tag then Done (EACCES, s1, buf, len)
      else let len2 = len1 - 4 in
        obind (srtp_crypt G s1 buf len2) (\<lambda>(r, s', buf'). Done (r, s', buf', len2)))"

section \<open>The sender\<close>

definition next_index :: "u32 \<Rightarrow> u32" where
  "next_index i = (if i + 1 < 0x80000000 then i + 1 else 0)"

lemma drop_bit_31: "drop_bit 31 (w :: u32) \<noteq> 0 \<longleftrightarrow> \<not> w < 0x80000000"
proof -
  have "drop_bit 31 w = 0 \<longleftrightarrow> uint w div 0x80000000 = 0"
    by (simp only: drop_bit_eq_div uint_0_iff [symmetric] uint_div) simp
  also have "\<dots> \<longleftrightarrow> uint w < 0x80000000"
    using uint_ge_0 [of w] by (auto simp: zdiv_eq_0_iff)
  finally show ?thesis by (simp add: word_less_def)
qed

lemma uint_next_index:
  assumes "i < 0x80000000"
  shows "uint (next_index i) = (uint i + 1) mod 2 ^ 31" and "next_index i < 0x80000000"
proof -
  have i: "0 \<le> uint i" "uint i < 2 ^ 31" using assms by (simp_all add: word_less_def)
  then have "uint (i + 1) = uint i + 1" by (simp add: uint_word_ariths)
  then have n: "uint (next_index i) = (if uint i + 1 < 2 ^ 31 then uint i + 1 else 0)"
    by (simp add: next_index_def word_less_def)
  show "uint (next_index i) = (uint i + 1) mod 2 ^ 31"
  proof (cases "uint i + 1 < 2 ^ 31")
    case False
    with i have "uint i = 2147483647" by simp
    with n show ?thesis by simp
  qed (use n i in simp)
  show "next_index i < 0x80000000" using n i by (simp add: word_less_def)
qed

lemma bit_2_31: "bit (0x80000000 :: u32) n \<longleftrightarrow> n = 31"
proof -
  have "(0x80000000 :: u32) = push_bit 31 1" by simp
  then show ?thesis by (simp only: bit_push_bit_iff bit_1_iff) auto
qed

text \<open>The E bit: set for an encrypted packet, cleared again for the counter.\<close>

lemma e_bit:
  assumes "i < (0x80000000 :: u32)"
  shows "(i OR 0x80000000) AND NOT (push_bit 31 1) = i" "i AND NOT (push_bit 31 1) = i"
    "drop_bit 31 (i OR 0x80000000) \<noteq> 0" "drop_bit 31 i = 0"
proof -
  have z: "drop_bit 31 i = 0" using drop_bit_31 [of i] assms by simp
  then have b: "\<not> bit i n" if "31 \<le> n" for n
  proof -
    have "bit (drop_bit 31 i) (n - 31) = bit i n" using that by (simp only: bit_drop_bit_eq comp_def) simp
    with z show ?thesis by simp
  qed
  show "drop_bit 31 i = 0" by (rule z)
  define c :: u32 where "c = 0x80000000"
  have c: "bit c n \<longleftrightarrow> n = 31" for n unfolding c_def by (rule bit_2_31)
  have e: "push_bit 31 1 = c" "0x80000000 = c" by (simp_all add: c_def)
  show "(i OR 0x80000000) AND NOT (push_bit 31 1) = i" "i AND NOT (push_bit 31 1) = i"
    unfolding e by (rule bit_word_eqI, use b [of 31] in \<open>auto simp: bit_simps c\<close>)+
  have "bit (drop_bit 31 (i OR 0x80000000)) 0"
    by (simp only: bit_drop_bit_eq comp_def bit_or_iff bit_2_31) simp
  moreover have "\<not> bit (0 :: u32) 0" by simp
  ultimately show "drop_bit 31 (i OR 0x80000000) \<noteq> 0" by metis
qed

definition rtcp_keyed ::
  "('c \<Rightarrow> bytes option) \<Rightarrow> ('m \<Rightarrow> bytes option) \<Rightarrow> bytes \<Rightarrow> bytes \<Rightarrow> nat \<Rightarrow>
   ('c, 'm) srtp_session \<Rightarrow> bool" where
  "rtcp_keyed key mkey k km dlen s \<longleftrightarrow> srtp_wf s \<and> key (cipher (rtcp s)) = Some k \<and>
     mkey (mac (rtcp s)) = Some km \<and> unat (tag_len s) \<le> dlen"

lemma rtcp_digest_hmac:
  assumes "srtp_library G key strm ks mkey mdata hmac dlen" and "mkey md = Some km"
  shows "\<exists>md'. rtcp_digest G md data = (hmac km data, md') \<and> mkey md' = Some km"
proof -
  have h: "hmac_md G mkey mdata hmac dlen" using assms(1) by (simp add: srtp_library_def)
  let ?h = "gcry_md_write G (gcry_md_reset G md) data"
  have "mkey ?h = Some km" "mdata ?h = data" using h assms(2) by (simp_all add: hmac_md_def)
  then have "fst (gcry_md_read G ?h) = hmac km data" "mkey (snd (gcry_md_read G ?h)) = Some km"
    using h unfolding hmac_md_def by metis+
  then show ?thesis unfolding rtcp_digest_def by (metis prod.collapse)
qed

text \<open>The counter block of an SRTCP packet, and the packet encrypted from byte 8 on.\<close>

definition rtcp_image ::
  "(bytes \<Rightarrow> bytes \<Rightarrow> nat \<Rightarrow> byte) \<Rightarrow> bytes \<Rightarrow> ('c, 'm) srtp_session \<Rightarrow> u32 \<Rightarrow> mem \<Rightarrow> nat \<Rightarrow> mem" where
  "rtcp_image ks k s i m len =
     (if has_flag s SRTCP_UNENCRYPTED then m
      else ctr_apply (ks k (concat (map u32_store (rtp_counter (u32_load (mread m 4 4))
             (drop_bit 16 i) (ucast (i AND 0xffff)) (salt (rtp s)))))) m 8 (len - 8))"

definition e_index :: "('c, 'm) srtp_session \<Rightarrow> u32 \<Rightarrow> u32" where
  "e_index s i = (if has_flag s SRTCP_UNENCRYPTED then i else i OR 0x80000000)"

text \<open>
  \<open>srtcp_send\<close> raises the index before it calls \<open>srtcp_crypt\<close>, so the packet is always
  \<open>present\<close>: bit 0 of the RTCP window decides, and bit 0 of the RTP window is set.
\<close>

lemma srtcp_crypt_present:
  assumes lib: "srtp_library G key strm ks mkey mdata hmac dlen"
    and key: "key (cipher (rtcp s)) = Some k" and i: "rtcp_index s < 0x80000000"
    and len: "12 \<le> len" "len < 2 ^ 31" and v: "drop_bit 6 (m 0) = 2"
    and x: "mread m len 4 = be_bytes32 (e_index s (rtcp_index s))"
    and w: "\<not> bit (window (rtcp s)) 0"
  shows "\<exists>h. srtcp_crypt G s m len = Done (0, s\<lparr>rtp := (rtp s)\<lparr>window := window (rtp s) OR 1\<rparr>,
      rtcp := (rtcp s)\<lparr>cipher := h\<rparr>\<rparr>, rtcp_image ks k s (rtcp_index s) m len) \<and> key h = Some k"
proof -
  let ?i = "rtcp_index s" and ?s = "s\<lparr>rtp := (rtp s)\<lparr>window := window (rtp s) OR 1\<rparr>\<rparr>"
  have idx: "ntohl (u32_load (mread m len 4)) = e_index s ?i" by (simp add: x ntohl_load)
  have e: "(drop_bit 31 (e_index s ?i) \<noteq> 0) = (\<not> has_flag s SRTCP_UNENCRYPTED)"
      "e_index s ?i AND NOT (push_bit 31 1) = ?i"
    using e_bit [OF i] unfolding e_index_def by (simp_all only: split: if_split) auto
  have b: "drop_bit 0 (window (rtcp s)) AND 1 = 0" using w drop_bit_and_1 [of 0 "window (rtcp s)"] by auto
  have eq: "srtcp_crypt G s m len = (if has_flag s SRTCP_UNENCRYPTED then Done (0, ?s, m)
      else obind (rtcp_crypt G (cipher (rtcp s)) (u32_load (mread m 4 4)) ?i (salt (rtp s)) m 8 (len - 8))
        (\<lambda>(e, h, buf'). Done (if e \<noteq> 0 then EINVAL else 0, ?s\<lparr>rtcp := (rtcp s)\<lparr>cipher := h\<rparr>\<rparr>, buf')))"
    unfolding srtcp_crypt_def idx Let_def e using len v b by (simp add: has_flag_def)
  show ?thesis
  proof (cases "has_flag s SRTCP_UNENCRYPTED")
    case True
    then show ?thesis using key unfolding eq
      by (intro exI [of _ "cipher (rtcp s)"]) (simp add: rtcp_image_def)
  next
    case False
    let ?c = "concat (map u32_store (rtp_counter (u32_load (mread m 4 4)) (drop_bit 16 ?i)
      (ucast (?i AND 0xffff)) (salt (rtp s))))"
    have lc: "ctr_cipher G key strm ks" using lib by (simp add: srtp_library_def)
    have c16: "length ?c = 16" by (simp add: rtp_counter_def)
    obtain h where "do_ctr_crypt G (cipher (rtcp s)) ?c m 8 (len - 8) =
        Done (0, h, ctr_apply (ks k ?c) m 8 (len - 8))" "key h = Some k"
      using do_ctr_crypt_ctr [OF lc key c16 less_imp_diff_less [OF len(2)]] by blast
    then show ?thesis using False unfolding eq rtcp_crypt_def rtp_crypt_def rtcp_image_def
      by (intro exI [of _ h]) simp
  qed
qed

lemma srtcp_send_image_aux:
  assumes lib: "srtp_library G key strm ks mkey mdata hmac dlen"
    and s: "rtcp_keyed key mkey k km dlen s" and len: "12 \<le> len" "len < 2 ^ 31"
    and v: "drop_bit 6 (m 0) = 2" and w: "\<not> bit (window (rtcp s)) 0"
    and fits: "len + 4 + unat (tag_len s) \<le> bufsize"
    and i: "i = next_index (rtcp_index s)"
    and c: "c = rtcp_image ks k s i (mwrite m len (be_bytes32 (e_index s i))) len"
  shows "\<exists>s'. srtcp_send G s m len bufsize = Done (0, s',
      mwrite c (len + 4) (take (unat (tag_len s)) (hmac km (mread c 0 (len + 4)))),
      len + 4 + unat (tag_len s)) \<and>
    rtcp_keyed key mkey k km dlen s' \<and> rtcp_index s' = i \<and> rtp_seq s' = rtp_seq s \<and>
    window (rtp s') = window (rtp s) OR 1 \<and> window (rtcp s') = window (rtcp s)"
proof -
  let ?s0 = "s\<lparr>rtcp_index := i\<rparr>" and ?m0 = "mwrite m len (be_bytes32 (e_index s i))"
  have wf: "rtcp_index s < 0x80000000" using s by (simp add: rtcp_keyed_def srtp_wf_def)
  have i31: "i < 0x80000000" using uint_next_index(2) [OF wf] i by simp
  have idx: "(if drop_bit 31 (rtcp_index s + 1) \<noteq> 0 then 0 else rtcp_index s + 1) = i"
    unfolding i next_index_def drop_bit_31 by simp
  have e: "e_index ?s0 i = e_index s i" "rtcp_image ks k ?s0 i ?m0 len = c"
    by (simp_all add: e_index_def has_flag_def rtcp_image_def c)
  have "mread ?m0 len 4 = be_bytes32 (e_index s i)"
    using mread_mwrite_same [of m len "be_bytes32 (e_index s i)"] by simp
  then obtain h where h: "srtcp_crypt G ?s0 ?m0 len = Done (0, ?s0\<lparr>rtp := (rtp s)\<lparr>window := window (rtp s) OR 1\<rparr>,
      rtcp := (rtcp s)\<lparr>cipher := h\<rparr>\<rparr>, c)" "key h = Some k"
    using srtcp_crypt_present [OF lib, of ?s0 k len ?m0] s i31 len v w e
    by (auto simp: rtcp_keyed_def mwrite_outside)
  obtain md where md: "rtcp_digest G (mac (rtcp s)) (mread c 0 (len + 4)) = (hmac km (mread c 0 (len + 4)), md)"
      "mkey md = Some km"
    using rtcp_digest_hmac [OF lib] s unfolding rtcp_keyed_def by blast
  have d: "length (hmac km x) = dlen" for x using lib by (simp add: srtp_library_def hmac_md_def)
  let ?s1 = "?s0\<lparr>rtp := (rtp s)\<lparr>window := window (rtp s) OR 1\<rparr>, rtcp := (rtcp s)\<lparr>cipher := h, mac := md\<rparr>\<rparr>"
  have "srtcp_send G s m len bufsize = Done (0, ?s1,
      mwrite c (len + 4) (take (unat (tag_len s)) (hmac km (mread c 0 (len + 4)))), len + 4 + unat (tag_len s))"
    using fits h(1) md(1) d s unfolding srtcp_send_def idx Let_def
    by (simp add: has_flag_def e_index_def [unfolded has_flag_def] rtcp_keyed_def)
  moreover have "rtcp_keyed key mkey k km dlen ?s1"
    using s h(2) md(2) i31 by (simp add: rtcp_keyed_def srtp_wf_def rcc_mode_def)
  ultimately show ?thesis by (intro exI [of _ ?s1]) simp
qed

lemma srtcp_recv_crypt_cases:
  assumes "srtcp_recv G s m len = Done (r, s', m', l')"
  obtains (refused) md where "r \<noteq> 0" "m' = m" "l' = len"
      "s' = s \<or> s' = s\<lparr>rtcp := (rtcp s)\<lparr>mac := md\<rparr>\<rparr>"
  | (crypt) md where "srtp_crypt G (s\<lparr>rtcp := (rtcp s)\<lparr>mac := md\<rparr>\<rparr>) m l' = Done (r, s', m')"
      "len = l' + 4 + unat (tag_len s)"
proof (cases "len < 4 + unat (tag_len s)")
  case True
  then show thesis using assms by (intro refused) (auto simp: srtcp_recv_def)
next
  case False
  obtain tag md where d: "rtcp_digest G (mac (rtcp s)) (mread m 0 (len - unat (tag_len s))) = (tag, md)"
    by fastforce
  show thesis
  proof (cases "mread m (len - unat (tag_len s)) (unat (tag_len s)) = take (unat (tag_len s)) tag")
    case True
    with assms False d have "srtp_crypt G (s\<lparr>rtcp := (rtcp s)\<lparr>mac := md\<rparr>\<rparr>) m l' = Done (r, s', m')"
        "l' = len - unat (tag_len s) - 4"
      by (auto simp: srtcp_recv_def Let_def split: if_splits)
    then show thesis using False by (intro crypt) auto
  next
    case wrong: False
    with assms False d show thesis
      by (intro refused [of md]) (auto simp: srtcp_recv_def Let_def split: if_splits)
  qed
qed

section \<open>Properties\<close>

text \<open>
  (C35) What \<open>srtcp_send\<close> puts on the wire: the index advances by one modulo \<open>2^31\<close>, the packet
  is encrypted from byte 8 on (unless the session does not encrypt RTCP), the index with the
  E bit follows in network order, then the tag over all of it; the length grows by 4 and the
  tag. The RTCP window is not touched; bit 0 of the RTP window is set instead.
\<close>

theorem srtcp_send_image:
  assumes "srtp_library G key strm ks mkey mdata hmac dlen"
    and s: "rtcp_keyed key mkey k km dlen s" and "12 \<le> len" and "len < 2 ^ 31"
    and "drop_bit 6 (m 0) = 2" and "\<not> bit (window (rtcp s)) 0"
    and "len + 4 + unat (tag_len s) \<le> bufsize"
    and i: "i = next_index (rtcp_index s)"
    and "c = rtcp_image ks k s i (mwrite m len (be_bytes32 (e_index s i))) len"
  shows "\<exists>s'. srtcp_send G s m len bufsize = Done (0, s',
      mwrite c (len + 4) (take (unat (tag_len s)) (hmac km (mread c 0 (len + 4)))),
      len + 4 + unat (tag_len s)) \<and>
    uint (rtcp_index s') = (uint (rtcp_index s) + 1) mod 2 ^ 31 \<and>
    window (rtp s') = window (rtp s) OR 1 \<and> window (rtcp s') = window (rtcp s)"
proof -
  have "rtcp_index s < 0x80000000" using s by (simp add: rtcp_keyed_def srtp_wf_def)
  from uint_next_index(1) [OF this] srtcp_send_image_aux [where m = m, OF assms] show ?thesis
    unfolding i by auto
qed

definition demo_rtcp :: "(stub_cipher, stub_md) srtp_session" where
  "demo_rtcp = demo_session\<lparr>rtcp_index := 0x7fffffff,
     rtcp := stub_proto\<lparr>cipher := (Some [1, 2], [], 0), mac := (Some [3], [])\<rparr>\<rparr>"

lemma demo_rtcp_keyed: "rtcp_keyed fst fst [1, 2] [3] 20 demo_rtcp"
  by (simp add: rtcp_keyed_def demo_rtcp_def demo_defs srtp_wf_def rcc_mode_def flag_defs)

lemma demo_rtcp_window: "\<not> bit (window (rtcp demo_rtcp)) 0" "unat (tag_len demo_rtcp) = 10"
    "\<not> has_flag demo_rtcp f"
  by (simp_all add: demo_rtcp_def demo_defs has_flag_def)

theorem srtcp_send_image_witness:
  "\<exists>s' m'. srtcp_send stub_gcrypt demo_rtcp demo_packet 20 40 = Done (0, s', m', 34) \<and>
     rtcp_index s' = 0 \<and> mread m' 20 4 = [0x80, 0, 0, 0]"
proof -
  define i where "i = next_index (rtcp_index demo_rtcp)"
  define c where "c = rtcp_image stub_ks [1, 2] demo_rtcp i
    (mwrite demo_packet 20 (be_bytes32 (e_index demo_rtcp i))) 20"
  obtain s' where s': "srtcp_send stub_gcrypt demo_rtcp demo_packet 20 40 = Done (0, s',
      mwrite c 24 (take 10 (stub_hmac [3] (mread c 0 24))), 34)"
    "uint (rtcp_index s') = (uint (rtcp_index demo_rtcp) + 1) mod 2 ^ 31"
    using srtcp_send_image [where m = demo_packet, OF stub_library demo_rtcp_keyed _ _ demo_header(1) demo_rtcp_window(1) _ i_def c_def,
        of 40] by (auto simp: demo_rtcp_window)
  have i0: "i = 0" by (simp add: i_def next_index_def demo_rtcp_def)
  have z: "rtcp_index s' = 0" using s'(2) by (simp add: demo_rtcp_def uint_0_iff)
  have "mread (mwrite c 24 x) 20 4 = mread c 20 4" for x by (simp add: mread_mwrite_disjoint)
  also have "mread c 20 4 = mread (mwrite demo_packet 20 (be_bytes32 (e_index demo_rtcp i))) 20 4"
    by (simp add: c_def rtcp_image_def ctr.mread_outside)
  also have "\<dots> = be_bytes32 (e_index demo_rtcp i)"
    using mread_mwrite_same [of demo_packet 20 "be_bytes32 (e_index demo_rtcp i)"] by simp
  also have "\<dots> = [0x80, 0, 0, 0]" by (simp add: e_index_def i0 demo_rtcp_window be_bytes32_def)
  finally show ?thesis using s'(1) z by blast
qed

text \<open>
  Sending RTCP blocks RTP: after every successful \<open>srtcp_send\<close> the session refuses the
  RTP packet with the highest sequence number as a replay, because \<open>srtcp_crypt\<close> marks the
  window of the wrong protocol. On a fresh session, the RTP packet with sequence number 0
  can no longer be sent or received.
\<close>

theorem srtcp_send_blocks_rtp:
  assumes "srtp_library G key strm ks mkey mdata hmac dlen"
    and "rtcp_keyed key mkey k km dlen s" and "12 \<le> len" and "len < 2 ^ 31"
    and "drop_bit 6 (m 0) = 2" and "\<not> bit (window (rtcp s)) 0"
    and "len + 4 + unat (tag_len s) \<le> bufsize"
  shows "\<exists>s' m' l'. srtcp_send G s m len bufsize = Done (0, s', m', l') \<and> rtp_seq s' = rtp_seq s \<and>
    srtp_track_seq s' (rtp_seq s) roc = Done (EACCES, s')"
proof -
  obtain s' m' l' where 1: "srtcp_send G s m len bufsize = Done (0, s', m', l')"
      "rtp_seq s' = rtp_seq s" "window (rtp s') = window (rtp s) OR 1"
    using srtcp_send_image_aux [where m = m, OF assms refl refl] by blast
  have "bit (window (rtp s')) 0" unfolding 1(3) by (simp add: bit_simps)
  then have "srtp_track_seq s' (rtp_seq s) roc = Done (EACCES, s')"
    using 1(2) by (simp add: srtp_track_seq_eq seq_off_def)
  with 1 show ?thesis by blast
qed

theorem srtcp_send_blocks_rtp_witness:
  "\<exists>s' m' l'. srtcp_send stub_gcrypt demo_rtcp demo_packet 20 40 = Done (0, s', m', l') \<and>
     srtp_track_seq s' 0 0 = Done (EACCES, s')"
proof -
  have "rtp_seq demo_rtcp = 0" by (simp add: demo_rtcp_def demo_defs)
  with srtcp_send_blocks_rtp [where m = demo_packet and len = 20 and bufsize = 40 and roc = 0,
      OF stub_library demo_rtcp_keyed _ _ demo_header(1) demo_rtcp_window(1)]
  show ?thesis by (auto simp: demo_rtcp_window)
qed

text \<open>
  (C36) \<open>srtcp_recv\<close> does not invert \<open>srtcp_send\<close>: whatever session receives the packet, if the
  call returns, bytes 8 to 11 of the packet are still encrypted (\<open>srtp_crypt\<close> leaves the
  first twelve bytes alone, SRTCP encrypts from byte 8), and the receiver's RTCP index and
  window are as before, so that no SRTCP replay is ever detected.
\<close>

theorem srtcp_recv_not_inverse:
  assumes lib: "srtp_library G key strm ks mkey mdata hmac dlen"
    and sa: "rtcp_keyed key mkey k km dlen sa" "\<not> has_flag sa SRTCP_UNENCRYPTED"
    and len: "12 \<le> len" "len < 2 ^ 31" and m: "drop_bit 6 (m 0) = 2"
    and w: "\<not> bit (window (rtcp sa)) 0" and fits: "len + 4 + unat (tag_len sa) \<le> bufsize"
    and send: "srtcp_send G sa m len bufsize = Done (0, sa', m', l')"
    and hdr: "rtp_header_len m' < 65536" and recv: "srtcp_recv G sb m' l' = Done (r, sb', m'', l'')"
  shows "rtcp_index sb' = rtcp_index sb \<and> window (rtcp sb') = window (rtcp sb) \<and>
    (\<forall>j \<in> {8..<12}. m'' j = m j XOR ks k (concat (map u32_store (rtp_counter (u32_load (mread m 4 4))
       (drop_bit 16 (rtcp_index sa')) (ucast (rtcp_index sa' AND 0xffff)) (salt (rtp sa))))) (j - 8))"
proof -
  define i where "i = next_index (rtcp_index sa)"
  define m0 where "m0 = mwrite m len (be_bytes32 (e_index sa i))"
  define c where "c = rtcp_image ks k sa i m0 len"
  from srtcp_send_image_aux [where m = m, OF lib sa(1) len m w fits i_def c_def [unfolded m0_def]] send
  have i: "rtcp_index sa' = i"
    and m': "m' = mwrite c (len + 4) (take (unat (tag_len sa)) (hmac km (mread c 0 (len + 4))))"
    by auto
  have r: "rtcp_index sb' = rtcp_index sb \<and> window (rtcp sb') = window (rtcp sb) \<and> (\<forall>j < 12. m'' j = m' j)"
    using recv
  proof (cases rule: srtcp_recv_crypt_cases)
    case (crypt md)
    have "m'' j = m' j" if "j < 12" for j
      using crypt(1)
    proof (cases rule: srtp_crypt_cases)
      case (crypted off s1 e h)
      have "12 \<le> unat off" using offset_header(1) [OF hdr crypted(4)] rtp_header_len_ge [of m'] by simp
      with rtp_crypt_frame [OF crypted(6), of j] that show ?thesis by simp
    qed simp_all
    then show ?thesis using srtp_crypt_keeps [OF crypt(1)] by simp
  qed auto
  have "m' j = m j XOR ks k (concat (map u32_store (rtp_counter (u32_load (mread m 4 4))
       (drop_bit 16 i) (ucast (i AND 0xffff)) (salt (rtp sa))))) (j - 8)" if "8 \<le> j" "j < 12" for j
    using that len(1) sa(2)
    by (simp add: m' mwrite_outside c_def rtcp_image_def ctr_apply_at m0_def mread_mwrite_disjoint)
  then show ?thesis using r unfolding i by simp
qed

lemma srtcp_recv_verifies:
  assumes lib: "srtp_library G key strm ks mkey mdata hmac dlen" and km: "mkey (mac (rtcp s)) = Some km"
    and n: "4 \<le> n" and t: "t = unat (tag_len s)" "t \<le> dlen"
    and m: "m = mwrite c n (take t (hmac km (mread c 0 n)))"
  shows "\<exists>md. srtcp_recv G s m (n + t) =
    obind (srtp_crypt G (s\<lparr>rtcp := (rtcp s)\<lparr>mac := md\<rparr>\<rparr>) m (n - 4)) (\<lambda>(r, s', m'). Done (r, s', m', n - 4))"
proof -
  have rd: "mread m 0 n = mread c 0 n" by (simp add: m mread_mwrite_disjoint)
  obtain md where md: "rtcp_digest G (mac (rtcp s)) (mread m 0 n) = (hmac km (mread c 0 n), md)"
    using rtcp_digest_hmac [OF lib km] unfolding rd by blast
  have d: "length (hmac km x) = dlen" for x using lib by (simp add: srtp_library_def hmac_md_def)
  have "mread m n t = take t (hmac km (mread c 0 n))"
    using mread_mwrite_same [of c n "take t (hmac km (mread c 0 n))"] d t(2) by (simp add: m)
  then show ?thesis using md d n t unfolding srtcp_recv_def Let_def by (intro exI [of _ md]) simp
qed

theorem srtcp_recv_not_inverse_witness:
  "\<exists>sa' m' sb' m'' l''. srtcp_send stub_gcrypt demo_rtcp demo_packet 20 40 = Done (0, sa', m', 34) \<and>
     srtcp_recv stub_gcrypt demo_rtcp m' 34 = Done (0, sb', m'', l'') \<and>
     rtcp_index sb' = rtcp_index demo_rtcp \<and> mread m'' 8 4 \<noteq> mread demo_packet 8 4"
proof -
  define i where "i = next_index (rtcp_index demo_rtcp)"
  define c where "c = rtcp_image stub_ks [1, 2] demo_rtcp i
    (mwrite demo_packet 20 (be_bytes32 (e_index demo_rtcp i))) 20"
  define m' where "m' = mwrite c 24 (take 10 (stub_hmac [3] (mread c 0 24)))"
  obtain sa' where s: "srtcp_send stub_gcrypt demo_rtcp demo_packet 20 40 = Done (0, sa', m', 34)"
    using srtcp_send_image_aux [where m = demo_packet, OF stub_library demo_rtcp_keyed _ _ demo_header(1)
        demo_rtcp_window(1) _ i_def c_def, of 40] by (auto simp: demo_rtcp_window m'_def)
  have hd8: "m' j = demo_packet j" if "j < 8" for j
    using that by (simp add: m'_def mwrite_outside c_def rtcp_image_def ctr_apply_at)
  have hdr: "rtp_header_len m' = 12" "rtp_seq_of m' = 1" "drop_bit 6 (m' 0) = 2"
    using hd8 [of 0] hd8 [of 2] hd8 [of 3] by (simp_all add: rtp_header_len_def rtp_seq_of_def demo_packet_def)
  have mk: "fst (mac (rtcp demo_rtcp)) = Some [3]" by (simp add: demo_rtcp_def)
  obtain md where r: "srtcp_recv stub_gcrypt demo_rtcp m' 34 =
      obind (srtp_crypt stub_gcrypt (demo_rtcp\<lparr>rtcp := (rtcp demo_rtcp)\<lparr>mac := md\<rparr>\<rparr>) m' 20)
        (\<lambda>(r, s', m'). Done (r, s', m', 20))"
    using srtcp_recv_verifies [OF stub_library mk, of 24 10 m' c] by (auto simp: demo_rtcp_window m'_def)
  let ?s = "demo_rtcp\<lparr>rtcp := (rtcp demo_rtcp)\<lparr>mac := md\<rparr>\<rparr>"
  have k: "rtp_keyed fst fst [1, 2] [3] 20 ?s"
    by (simp add: rtp_keyed_def demo_rtcp_def demo_defs srtp_wf_def rcc_mode_def flag_defs)
  obtain s1 where tr: "srtp_track_seq ?s (rtp_seq_of m') (srtp_compute_roc ?s (rtp_seq_of m')) = Done (0, s1)"
    by (simp add: hdr srtp_track_seq_def demo_rtcp_def demo_defs)
  obtain sb' m'' where r': "srtcp_recv stub_gcrypt demo_rtcp m' 34 = Done (0, sb', m'', 20)"
    using srtp_crypt_keyed [OF stub_library k _ _ hdr(3) _ tr, of 20 12] r hdr by (auto simp: rtp_offset_eq)
  let ?f = "stub_ks [1, 2] (concat (map u32_store (rtp_counter (u32_load (mread demo_packet 4 4))
       (drop_bit 16 (rtcp_index sa')) (ucast (rtcp_index sa' AND 0xffff)) (salt (rtp demo_rtcp)))))"
  have x: "rtcp_index sb' = rtcp_index demo_rtcp" "\<forall>j \<in> {8..<12}. m'' j = demo_packet j XOR ?f (j - 8)"
    using srtcp_recv_not_inverse [OF stub_library demo_rtcp_keyed demo_rtcp_window(3) _ _ demo_header(1)
        demo_rtcp_window(1) _ s _ r'] hdr by (auto simp: demo_rtcp_window)
  have "?f 0 \<noteq> ?f 1" by (simp add: stub_ks_def)
  then have "?f 0 \<noteq> 0 \<or> ?f 1 \<noteq> 0" by auto
  then have "m'' 8 \<noteq> demo_packet 8 \<or> m'' 9 \<noteq> demo_packet 9"
    using x(2) word_xor_left_cancel [of "demo_packet 8" "?f 0" 0]
      word_xor_left_cancel [of "demo_packet 9" "?f 1" 0] by auto
  then have "mread m'' 8 4 \<noteq> mread demo_packet 8 4" by (auto simp: mread_def upt_rec)
  then show ?thesis using s r' x(1) by blast
qed

text \<open>
  A short RTCP packet ends the process: on a session without tags, every buffer of 4 to
  15 bytes handed to \<open>srtcp_recv\<close> runs into the \<open>assert (len >= 12u)\<close> of \<open>srtp_crypt\<close>.
\<close>

theorem srtcp_recv_short_aborts:
  assumes "tag_len s = 0" and "4 \<le> len" and "len < 16"
  shows "srtcp_recv G s m len = Aborted"
  using assms by (simp add: srtcp_recv_def srtp_crypt_def Let_def split: prod.splits) linarith

theorem srtcp_recv_short_aborts_witness:
  "srtcp_recv stub_gcrypt (demo_session\<lparr>tag_len := 0\<rparr>) demo_packet 8 = Aborted"
  by (rule srtcp_recv_short_aborts) simp_all

end
