(* ===== verification/Srtp_Machine.thy ===== *)
theory Srtp_Machine
  imports Srtcp
begin

text \<open>
  The life of a session: a step is one call of a public function of \<open>srtp.h\<close> that returns,
  with any arguments, any buffer, any return code and any behaviour of the library. What
  holds in every state a session can reach from \<open>srtp_create\<close> is proved by rule induction.
\<close>

inductive srtp_step ::
  "('c, 'm, 'w) gcrypt \<Rightarrow> ('c, 'm) srtp_session \<Rightarrow> ('c, 'm) srtp_session \<Rightarrow> bool" for G where
  send: "srtp_send G s m len bufsize = Done (r, s', m', l') \<Longrightarrow> srtp_step G s s'"
| recv: "srtp_recv G s m len = Done (r, s', m', l') \<Longrightarrow> srtp_step G s s'"
| csend: "srtcp_send G s m len bufsize = Done (r, s', m', l') \<Longrightarrow> srtp_step G s s'"
| crecv: "srtcp_recv G s m len = Done (r, s', m', l') \<Longrightarrow> srtp_step G s s'"
| setkey: "srtp_setkey G s k slt stack w = Done (r, s', w') \<Longrightarrow> srtp_step G s s'"
| setkeystring: "srtp_setkeystring G s ks sls bk bs stack w = Done (r, s', w') \<Longrightarrow> srtp_step G s s'"
| setrcc: "srtp_setrcc_rate s rate = Done s' \<Longrightarrow> srtp_step G s s'"

inductive srtp_reach :: "('c, 'm, 'w) gcrypt \<Rightarrow> ('c, 'm) srtp_session \<Rightarrow> bool" for G where
  create: "srtp_create G encr auth tlen prfn fl w = (Some s, w') \<Longrightarrow> srtp_reach G s"
| step: "srtp_reach G s \<Longrightarrow> srtp_step G s s' \<Longrightarrow> srtp_reach G s'"

inductive_cases srtp_stepE: "srtp_step G s s'"

section \<open>What each call keeps\<close>

lemma srtp_send_keeps:
  assumes "srtp_send G s m len bufsize = Done (r, s', m', l')"
  shows "same_config s s' \<and> rtcp_index s' = rtcp_index s \<and> rtcp s' = rtcp s"
  using assms
proof (cases rule: srtp_send_cases)
  case (tagged n t s1 m1 tag md)
  then show ?thesis using srtp_crypt_keeps [OF tagged(7)] by (simp add: same_config_def)
qed (auto dest: srtp_crypt_keeps)

lemma srtp_recv_keeps:
  assumes "srtp_recv G s m len = Done (r, s', m', l')"
  shows "same_config s s' \<and> rtcp_index s' = rtcp_index s \<and> rtcp s' = rtcp s"
  using assms
proof (cases rule: srtp_recv_cases)
  case (passed n t rcc tag md)
  then show ?thesis using srtp_crypt_keeps [OF passed(10)] adopt_roc_keeps same_config_trans by metis
qed (auto simp: same_config_def dest: srtp_crypt_keeps)

lemma srtcp_recv_keeps:
  assumes "srtcp_recv G s m len = Done (r, s', m', l')"
  shows "same_config s s' \<and> rtcp_index s' = rtcp_index s \<and> window (rtcp s') = window (rtcp s)"
  using assms
  by (cases rule: srtcp_recv_crypt_cases) (auto simp: same_config_def dest!: srtp_crypt_keeps)

text \<open>
  From \<open>srtcp_send\<close>, its only caller, \<open>srtcp_crypt\<close> sees the session's own index: it neither
  advances the index nor touches the RTCP window.
\<close>

lemma srtcp_crypt_keeps:
  assumes c: "srtcp_crypt G s m len = Done (r, s', m')" and i: "rtcp_index s < 0x80000000"
    and x: "mread m len 4 = be_bytes32 (e_index s (rtcp_index s))"
  shows "same_config s s' \<and> rtcp_index s' = rtcp_index s \<and> window (rtcp s') = window (rtcp s) \<and>
    (\<not> bit (window (rtcp s)) 0 \<longrightarrow> r \<noteq> EACCES)"
proof -
  have idx: "ntohl (u32_load (mread m len 4)) = e_index s (rtcp_index s)" by (simp add: x ntohl_load)
  have e: "e_index s (rtcp_index s) AND NOT (push_bit 31 1) = rtcp_index s"
    using e_bit [OF i] unfolding e_index_def by (simp only: split: if_split) auto
  show ?thesis
    using c unfolding srtcp_crypt_def idx Let_def e diff_self drop_bit_and_1
    by (auto simp: same_config_def split: if_splits)
qed

lemma srtcp_send_keeps:
  assumes "srtcp_send G s m len bufsize = Done (r, s', m', l')" and "srtp_wf s"
  shows "same_config s s' \<and> rtcp_index s' < 0x80000000 \<and> window (rtcp s') = window (rtcp s) \<and>
    (\<not> bit (window (rtcp s)) 0 \<longrightarrow> r \<noteq> EACCES)"
proof (cases "bufsize < len + 4 + unat (tag_len s)")
  case True
  then show ?thesis using assms by (auto simp: srtcp_send_def Let_def srtp_wf_def)
next
  case False
  define i where "i = next_index (rtcp_index s)"
  let ?s0 = "s\<lparr>rtcp_index := i\<rparr>" and ?m0 = "mwrite m len (be_bytes32 (e_index s i))"
  have i31: "i < 0x80000000" using uint_next_index(2) assms(2) by (simp add: i_def srtp_wf_def)
  have idx: "(if drop_bit 31 (rtcp_index s + 1) \<noteq> 0 then 0 else rtcp_index s + 1) = i"
    unfolding i_def next_index_def drop_bit_31 by simp
  have e: "(if has_flag ?s0 SRTCP_UNENCRYPTED then i else i OR 0x80000000) = e_index s i"
    by (simp add: e_index_def has_flag_def)
  obtain v s1 m1 where c: "srtcp_crypt G ?s0 ?m0 len = Done (v, s1, m1)"
    and k: "r = v \<and> s' = s1 \<or> r = 0 \<and> (\<exists>md. s' = s1\<lparr>rtcp := (rtcp s1)\<lparr>mac := md\<rparr>\<rparr>)"
    using assms(1) False unfolding srtcp_send_def Let_def idx e u32_store_htonl
    by (auto split: if_splits prod.splits) blast
  have "mread ?m0 len 4 = be_bytes32 (e_index ?s0 i)"
    using mread_mwrite_same [of m len "be_bytes32 (e_index s i)"] by (simp add: e_index_def has_flag_def)
  from srtcp_crypt_keeps [OF c] this i31 k show ?thesis by (auto simp: same_config_def)
qed

definition srtp_inv :: "('c, 'm) srtp_session \<Rightarrow> bool" where
  "srtp_inv s \<longleftrightarrow> srtp_wf s \<and> window (rtcp s) = 0"

lemma wf_from_config:
  "srtp_wf s \<Longrightarrow> same_config s s' \<Longrightarrow> rtcp_index s' < 0x80000000 \<Longrightarrow> srtp_wf s'"
  by (simp add: srtp_wf_def same_config_def rcc_mode_def)

lemma srtp_step_inv:
  assumes "srtp_step G s s'" and "srtp_inv s"
  shows "srtp_inv s' \<and> flags s' = flags s \<and> tag_len s' = tag_len s"
proof -
  have wf: "srtp_wf s" "window (rtcp s) = 0" "rtcp_index s < 0x80000000"
    using assms(2) by (auto simp: srtp_inv_def srtp_wf_def)
  have cfg: ?thesis if "same_config s s'" "rtcp_index s' < 0x80000000" "window (rtcp s') = window (rtcp s)"
    using that wf wf_from_config [OF wf(1) that(1,2)] by (simp add: srtp_inv_def same_config_def)
  have key: ?thesis if "srtp_setkey G s k slt stack w = Done (r, s', w')" for k slt stack w r w'
    using srtp_setkey_keeps [OF that] srtp_setkey_wf [OF that wf(1)] wf by (simp add: srtp_inv_def)
  from assms(1) show ?thesis
  proof cases
    case (setkeystring ks sls bk bs stack w r w')
    then show ?thesis using key assms(2)
      by (auto simp: srtp_setkeystring_def split: prod.splits if_splits)
  next
    case (setrcc rate)
    then show ?thesis using wf
      by (auto simp: srtp_setrcc_rate_def srtp_inv_def srtp_wf_def rcc_mode_def split: if_splits)
  next
    case (send m len bufsize r m' l')
    then show ?thesis using cfg srtp_send_keeps [OF send] wf by simp
  next
    case (recv m len r m' l')
    then show ?thesis using cfg srtp_recv_keeps [OF recv] wf by simp
  next
    case (csend m len bufsize r m' l')
    then show ?thesis using cfg srtcp_send_keeps [OF csend wf(1)] by simp
  next
    case (crecv m len r m' l')
    then show ?thesis using cfg srtcp_recv_keeps [OF crecv] wf by simp
  qed (rule key)
qed

lemma srtp_reach_inv:
  assumes "srtp_reach G s" and "\<And>md. gcry_md_get_algo_dlen G md \<le> 64"
  shows "srtp_inv s"
  using assms(1)
proof induction
  case (create encr auth tlen prfn fl w s w')
  then show ?case using srtp_create_wf_aux [OF create assms(2)] by (simp add: srtp_inv_def srtp_fresh_def)
next
  case (step s s')
  then show ?case using srtp_step_inv by blast
qed

section \<open>Properties\<close>

text \<open>
  (C21) Every session that any program can reach through the public functions is well formed:
  flags inside the mask, four tag bytes at least in the RCC modes, an RCC rate that is not
  zero, an RTCP index of 31 bits. Hence \<open>srtp_send\<close> can never fail an assertion.
\<close>

theorem srtp_reachable_wf:
  assumes "srtp_reach G s" and "\<And>md. gcry_md_get_algo_dlen G md \<le> 64"
  shows "srtp_wf s \<and> rtcp_index s < 0x80000000 \<and> rtp_rcc s \<noteq> 0"
  using srtp_reach_inv [OF assms] by (simp add: srtp_inv_def srtp_wf_def)

lemma stub_reach: "srtp_reach stub_gcrypt (stub_session\<lparr>rtp_rcc := 5\<rparr>)"
proof (rule srtp_reach.step)
  show "srtp_reach stub_gcrypt stub_session" by (rule srtp_reach.create [OF stub_create])
  show "srtp_step stub_gcrypt stub_session (stub_session\<lparr>rtp_rcc := 5\<rparr>)"
    by (rule srtp_step.setrcc [of _ 5]) (simp add: srtp_setrcc_rate_def)
qed

theorem srtp_reachable_wf_witness: "srtp_wf (stub_session\<lparr>rtp_rcc := 5\<rparr>)"
  using srtp_reachable_wf [OF stub_reach stub_dlen] by simp

text \<open>
  The RTCP replay window is dead code: in every reachable session it is zero, so that
  no call of \<open>srtcp_send\<close> ever reports \<open>EACCES\<close>.
\<close>

theorem srtcp_window_unused:
  assumes "srtp_reach G s" and "\<And>md. gcry_md_get_algo_dlen G md \<le> 64"
  shows "window (rtcp s) = 0 \<and>
    (\<forall>m len bufsize s' m' l'. srtcp_send G s m len bufsize \<noteq> Done (EACCES, s', m', l'))"
  using srtp_reach_inv [OF assms] srtcp_send_keeps by (fastforce simp: srtp_inv_def)

theorem srtcp_window_unused_witness: "window (rtcp (stub_session\<lparr>rtp_rcc := 5\<rparr>)) = 0"
  using srtcp_window_unused [OF stub_reach stub_dlen] by blast

end
