(* ===== verification/Srtp_Network.thy ===== *)
theory Srtp_Network
  imports Srtp_Guarantees
begin

text \<open>
  A sender and a receiver with a network between them that loses, repeats and reorders packets.
  The abstract specification is an ideal window: the highest index and the set of indices
  accepted. \<open>srtp_recv\<close> is shown to decide on every packet of the sender as the ideal window
  does, and to give back what was sent; from that follows what an application can rely on.
\<close>

section \<open>Specification: the ideal window\<close>

text \<open>An index is accepted once, if it is ahead or among the last 64.\<close>

definition ideal_ok :: "int \<times> int set \<Rightarrow> int \<Rightarrow> bool" where
  "ideal_ok w i \<longleftrightarrow> fst w - 64 < i \<and> i \<notin> snd w"

definition ideal_step :: "int \<times> int set \<Rightarrow> int \<Rightarrow> int \<times> int set" where
  "ideal_step w i = (if ideal_ok w i then (max (fst w) i, insert i (snd w)) else w)"

fun ideal_run :: "int \<times> int set \<Rightarrow> int list \<Rightarrow> bool list \<times> (int \<times> int set)" where
  "ideal_run w [] = ([], w)"
| "ideal_run w (i # js) = (case ideal_run (ideal_step w i) js of (oks, w') \<Rightarrow> (ideal_ok w i # oks, w'))"

text \<open>
  The network stays within what sequence numbers can express: no packet is \<open>back\<close> or more behind
  the highest index before it, or 64 or more ahead.
\<close>

fun net_within :: "int \<Rightarrow> int \<Rightarrow> int list \<Rightarrow> bool" where
  "net_within back h [] \<longleftrightarrow> True"
| "net_within back h (i # js) \<longleftrightarrow> h - back < i \<and> i < h + 64 \<and> net_within back (max h i) js"

section \<open>The code against the ideal window\<close>

lemma ideal_step_simps [simp]: "fst (ideal_step w i) = (if ideal_ok w i then max (fst w) i else fst w)"
  "snd (ideal_step w i) = (if ideal_ok w i then insert i (snd w) else snd w)"
  by (simp_all add: ideal_step_def)

text \<open>An accepting update is exactly that of the ideal window.\<close>

lemma track_seq_ideal:
  assumes rel: "rtp_rel s h A" and ok: "srtp_track_seq s seq (srtp_compute_roc s seq) = Done (0, s')"
  shows "ideal_ok (h, A) (h + seq_off s seq) \<and> seq_off s seq < 64 \<and>
    rtp_rel s' (max h (h + seq_off s seq)) (insert (h + seq_off s seq) A)"
proof -
  let ?d = "seq_off s seq"
  have up: "i \<le> h" if "i \<in> A" for i using rel that by (auto simp: rtp_rel_def)
  from ok have "obind (srtp_track_seq s seq (srtp_compute_roc s seq)) Done = Done (0, s')" by simp
  then show ?thesis
  proof (cases rule: track_seq_cases)
    case ahead
    then have "s' = s\<lparr>rtp := (rtp s)\<lparr>window := push_bit (nat ?d) (window (rtp s)) OR 1\<rparr>,
        rtp_seq := seq, rtp_roc := srtp_compute_roc s seq\<rparr>" by simp
    then show ?thesis
      using track_ahead_rel [OF rel ahead(1,2)] up [of "h + ?d"] ahead(1,2) by (auto simp: ideal_ok_def)
  next
    case late
    have d: "h + ?d = h - int (nat (- ?d))" using late(1) by simp
    have "h + ?d \<notin> A" unfolding d using rel late(2,3) by (simp add: rtp_rel_def)
    moreover have "rtp_rel s' h (insert (h + ?d) A)"
      unfolding d using track_late_rel [OF rel, of "nat (- ?d)"] late by simp
    ultimately show ?thesis using late(1,2) by (simp add: ideal_ok_def)
  qed simp
qed

text \<open>Conversely the update accepts what the ideal window accepts and refuses the rest.\<close>

lemma track_seq_decides:
  assumes rel: "rtp_rel s h A" and d: "- 32768 < seq_off s seq" "seq_off s seq < 64"
  shows "if ideal_ok (h, A) (h + seq_off s seq) then \<exists>s'. srtp_track_seq s seq roc = Done (0, s')
    else srtp_track_seq s seq roc = Done (EACCES, s)"
proof -
  let ?d = "seq_off s seq"
  have w: "bit (window (rtp s)) (nat (- ?d)) \<longleftrightarrow> h + ?d \<in> A" if "?d \<le> 0" "- 64 < ?d"
    using rel that by (simp add: rtp_rel_def)
  have up: "h + ?d \<notin> A" if "0 < ?d" using rel that by (fastforce simp: rtp_rel_def)
  show ?thesis using d w up by (auto simp: srtp_track_seq_eq Let_def ideal_ok_def)
qed

text \<open>Receiver and sender agree on the index of a packet.\<close>

lemma same_index:
  assumes "rtp_rel sa ha Aa" and "rtp_rel sb h A" and "i = ha + seq_off sa seq"
    and "h - 32768 \<le> i" "i < h + 32768"
  shows "h + seq_off sb seq = i" and "srtp_compute_roc sb seq = srtp_compute_roc sa seq"
proof -
  have a: "srtp_compute_roc sa seq = word_of_int (i div 65536)" "seq = word_of_int i"
    using index_split(2,3) [of ha sa seq] assms(1,3) by (auto simp: rtp_rel_def)
  have b: "srtp_compute_roc sb seq = word_of_int ((h + seq_off sb seq) div 65536)"
      "seq = word_of_int (h + seq_off sb seq)"
    using index_split(2,3) [of h sb seq] assms(2) by (auto simp: rtp_rel_def)
  have "word_of_int (h + seq_off sb seq) = (word_of_int i :: u16)"
    by (rule trans [OF sym [OF b(2)] a(2)])
  then have "(h + seq_off sb seq) mod 65536 = i mod 65536"
    by (simp only: word_of_int_eq_iff take_bit_eq_mod) simp
  then have "65536 dvd h + seq_off sb seq - i" by (simp add: mod_eq_dvd_iff)
  moreover have "\<bar>h + seq_off sb seq - i\<bar> < 65536" using assms(4,5) seq_off_bounds [of sb seq] by linarith
  ultimately show *: "h + seq_off sb seq = i"
    using zdvd_imp_le [of 65536 "\<bar>h + seq_off sb seq - i\<bar>"] by (cases "h + seq_off sb seq = i") auto
  show "srtp_compute_roc sb seq = srtp_compute_roc sa seq" using a(1) b(1) * by simp
qed

section \<open>One packet\<close>

lemma sent_window:
  assumes lib: "srtp_library G key strm ks mkey mdata hmac dlen"
    and s: "rtp_keyed key mkey k km dlen s" and rel: "rtp_rel s h A"
    and len: "len < 2 ^ 31" "rtp_header_len m < 65536"
    and ok: "srtp_send G s m len sz = Done (0, s', m', l')"
  shows "rtp_keyed key mkey k km dlen s' \<and> same_config s s' \<and>
    rtp_rel s' (max h (h + seq_off s (rtp_seq_of m))) (insert (h + seq_off s (rtp_seq_of m)) A)"
proof -
  obtain s1 where i: "srtp_track_seq s (rtp_seq_of m) (srtp_compute_roc s (rtp_seq_of m)) = Done (0, s1)"
      "rtp_keyed key mkey k km dlen s'" "same_config s s'" "same_window s1 s'"
    by (rule srtp_send_ok_image [OF lib s len ok])
  then show ?thesis using track_seq_ideal [OF rel i(1)] rtp_rel_cong [OF i(4)] by simp
qed

text \<open>A packet of the sender, at index \<open>i\<close>, arrives at a receiver whose highest index is \<open>h\<close>.\<close>

lemma recv_arrival:
  assumes lib: "srtp_library G key strm ks mkey mdata hmac dlen"
    and sa: "rtp_keyed key mkey k km dlen sa" "rtp_rel sa ha Aa" "rcc_mode sa = 0"
    and sb: "rtp_keyed key mkey k km dlen sb" "rtp_rel sb h A" and cfg: "same_config sa sb"
    and len: "len < 2 ^ 31" "rtp_header_len m < 65536"
    and ok: "srtp_send G sa m len sz = Done (0, sa', m', l')"
    and i: "i = ha + seq_off sa (rtp_seq_of m)" "h - 32768 < i" "i < h + 64"
  shows "\<exists>r sb' m''. srtp_recv G sb m' l' = Done (r, sb', m'', len) \<and>
    (if ideal_ok (h, A) i then r = 0 \<and> mread m'' 0 len = mread m 0 len else r = EACCES \<and> m'' = m') \<and>
    rtp_keyed key mkey k km dlen sb' \<and> same_config sb sb' \<and>
    rtp_rel sb' (fst (ideal_step (h, A) i)) (snd (ideal_step (h, A) i))"
proof -
  let ?seq = "rtp_seq_of m"
  have off: "h + seq_off sb ?seq = i" and roc: "srtp_compute_roc sb ?seq = srtp_compute_roc sa ?seq"
    using same_index [OF sa(2) sb(2) i(1)] i(2,3) by simp_all
  have nc: "\<not> carries_roc sa ?seq"
    using rcc_layout_sizes(4) [of sa ?seq] sa(3) by (cases "rcc_layout sa ?seq") (auto simp: carries_roc_def)
  then have carry: "if carries_roc sa ?seq then rtp_roc sa' = srtp_compute_roc sa ?seq
      else srtp_compute_roc sb ?seq = srtp_compute_roc sa ?seq"
    using roc by simp
  have d: "- 32768 < seq_off sb ?seq" "seq_off sb ?seq < 64" using off i(2,3) by linarith+
  note dec = track_seq_decides [OF sb(2) d, unfolded off]
  show ?thesis
  proof (cases "ideal_ok (h, A) i")
    case True
    then obtain sb1 where "srtp_track_seq sb ?seq (srtp_compute_roc sa ?seq) = Done (0, sb1)"
      using dec by presburger
    from srtp_deliver [OF lib sa(1) sb(1) cfg len ok refl carry this] obtain sb' m'' md t where
      g: "srtp_recv G sb m' l' = Done (0, sb', m'', len)" "mread m'' 0 len = mread m 0 len"
        "rtp_keyed key mkey k km dlen sb'" "same_config sb sb'"
        "srtp_track_seq (adopt_roc sb md 1 (srtp_compute_roc sa ?seq - srtp_compute_roc sb ?seq)) ?seq
           (srtp_compute_roc sa ?seq) = Done (0, t)" "same_window t sb'"
      by blast
    let ?t0 = "adopt_roc sb md 1 (srtp_compute_roc sa ?seq - srtp_compute_roc sb ?seq)"
    have w0: "same_window sb ?t0" by (simp add: same_window_def adopt_roc_def roc)
    have "srtp_compute_roc ?t0 ?seq = srtp_compute_roc sa ?seq" "seq_off ?t0 ?seq = seq_off sb ?seq"
      by (simp_all add: adopt_roc_compute roc seq_off_def adopt_roc_keeps)
    with track_seq_ideal [of ?t0 h A ?seq t] g(5) sb(2) rtp_rel_cong [OF w0] off
    have "rtp_rel sb' (max h i) (insert i A)" by (simp add: rtp_rel_cong [OF g(6), symmetric])
    then show ?thesis using True g(1-4) by auto
  next
    case False
    obtain bs md t off' where r: "12 \<le> len" "drop_bit 6 (m' 0) = 2" "rtp_offset m' len = Some off'"
        "rtp_seq_of m' = ?seq" "t = adopt_roc sb md 1 (srtp_compute_roc sa ?seq - srtp_compute_roc sb ?seq)"
        "rtp_keyed key mkey k km dlen t" "srtp_compute_roc t ?seq = srtp_compute_roc sa ?seq"
        "srtp_recv G sb m' l' = obind (srtp_crypt G t m' len) (\<lambda>(r, s', m'). Done (r, s', m', len))"
      by (rule srtp_recv_sent [OF lib sa(1) sb(1) cfg len ok refl carry])
    have w: "same_window sb t" "same_config sb t"
      by (simp_all add: r(5) same_window_def adopt_roc_def roc same_config_def)
    have "seq_off t ?seq = seq_off sb ?seq" by (simp add: r(5) seq_off_def adopt_roc_keeps)
    with track_seq_decides [of t h A ?seq] sb(2) rtp_rel_cong [OF w(1)] d off False
    have "srtp_track_seq t ?seq (srtp_compute_roc sa ?seq) = Done (EACCES, t)" by simp
    then have "srtp_crypt G t m' len = Done (EACCES, t, m')"
      using r(1-4,7) by (simp add: srtp_crypt_def Let_def EACCES_def)
    then show ?thesis using False r(6,8) w(2) sb(2) rtp_rel_cong [OF w(1)] by auto
  qed
qed

section \<open>What was sent\<close>

text \<open>A run of the sender that notes the packet indices: index, packet, packet on the wire.\<close>

type_synonym log_entry = "int \<times> (mem \<times> nat) \<times> (mem \<times> nat)"

fun send_log ::
  "('c, 'm, 'w) gcrypt \<Rightarrow> ('c, 'm) srtp_session \<Rightarrow> int \<Rightarrow> (mem \<times> nat \<times> nat) list \<Rightarrow>
   (log_entry list \<times> ('c, 'm) srtp_session) outcome" where
  "send_log G s h [] = Done ([], s)"
| "send_log G s h ((m, len, sz) # ps) =
     obind (srtp_send G s m len sz) (\<lambda>(r, s', m', l').
     let i = h + seq_off s (rtp_seq_of m) in
     obind (send_log G s' (if r = 0 then max h i else h) ps) (\<lambda>(log, s'').
       Done (if r = 0 then (i, (m, len), (m', l')) # log else log, s'')))"

lemma send_log_run:
  "send_log G s h ps = Done (log, s') \<Longrightarrow> send_run G s ps = Done (map snd log, s')"
proof (induction G s h ps arbitrary: log rule: send_log.induct)
  case (2 G s h m len sz ps)
  then obtain r s1 m' l' log1 where "srtp_send G s m len sz = Done (r, s1, m', l')"
      "send_log G s1 (if r = 0 then max h (h + seq_off s (rtp_seq_of m)) else h) ps = Done (log1, s')"
      "log = (if r = 0 then (h + seq_off s (rtp_seq_of m), (m, len), (m', l')) # log1 else log1)"
    by (auto simp: Let_def)
  with 2 show ?case by auto
qed simp

text \<open>How an entry of the log came about.\<close>

definition logged ::
  "('c, 'm, 'w) gcrypt \<Rightarrow> (('c, 'm) srtp_session \<Rightarrow> bool) \<Rightarrow> log_entry \<Rightarrow> bool" where
  "logged G K e \<longleftrightarrow> (case e of (i, (m, len), (m', l')) \<Rightarrow> len < 2 ^ 31 \<and> rtp_header_len m < 65536 \<and>
     (\<exists>s h A sz s'. K s \<and> rtp_rel s h A \<and> i = h + seq_off s (rtp_seq_of m) \<and>
        srtp_send G s m len sz = Done (0, s', m', l')))"

lemma loggedI:
  assumes "len < 2 ^ 31" "rtp_header_len m < 65536" "K s" "rtp_rel s h A"
    and "srtp_send G s m len sz = Done (0, s', m', l')"
  shows "logged G K (h + seq_off s (rtp_seq_of m), (m, len), (m', l'))"
  unfolding logged_def using assms by auto

lemma logged_mono: "logged G K e \<Longrightarrow> (\<And>t. K t \<Longrightarrow> K' t) \<Longrightarrow> logged G K' e"
  unfolding logged_def by (auto split: prod.splits)

lemma list_all_logged_mono:
  "list_all (logged G K) es \<Longrightarrow> (\<And>t. K t \<Longrightarrow> K' t) \<Longrightarrow> list_all (logged G K') es"
  unfolding list_all_iff using logged_mono by blast

lemma send_log_entries:
  assumes lib: "srtp_library G key strm ks mkey mdata hmac dlen"
    and "rtp_keyed key mkey k km dlen s" and "rtp_rel s h A" and "rcc_mode s = 0"
    and "list_all (\<lambda>(m, len, sz). len < 2 ^ 31 \<and> rtp_header_len m < 65536) ps"
    and "send_log G s h ps = Done (log, s')"
  shows "list_all (logged G (\<lambda>t. rtp_keyed key mkey k km dlen t \<and> same_config s t)) log \<and>
    distinct (map fst log) \<and> fst ` set log \<inter> A = {}"
  using assms(2-)
proof (induction ps arbitrary: s h A log)
  case (Cons p ps)
  obtain m len sz where p: "p = (m, len, sz)" by (metis prod_cases3)
  let ?i = "h + seq_off s (rtp_seq_of m)"
  from Cons.prems(5) obtain r s1 m' l' log1 where
    1: "srtp_send G s m len sz = Done (r, s1, m', l')"
      "send_log G s1 (if r = 0 then max h ?i else h) ps = Done (log1, s')"
      "log = (if r = 0 then (?i, (m, len), (m', l')) # log1 else log1)"
    by (auto simp: p Let_def)
  have len: "len < 2 ^ 31" "rtp_header_len m < 65536" using Cons.prems(4) by (auto simp: p)
  show ?case
  proof (cases "r = 0")
    case False
    then have "s1 = s" using srtp_send_fail_keyed [OF lib Cons.prems(1) len(1) 1(1)] by simp
    then show ?thesis using Cons.IH [of s h A log1] Cons.prems 1 False by simp
  next
    case True
    then have sent: "srtp_send G s m len sz = Done (0, s1, m', l')" using 1(1) by simp
    note w = sent_window [OF lib Cons.prems(1,2) len sent]
    have mode: "rcc_mode s1 = 0" using same_config_mode [of s s1] w Cons.prems(3) by simp
    have ih: "list_all (logged G (\<lambda>t. rtp_keyed key mkey k km dlen t \<and> same_config s1 t)) log1 \<and>
        distinct (map fst log1) \<and> fst ` set log1 \<inter> insert ?i A = {}"
      using w mode Cons.prems(4) 1(2) True by (intro Cons.IH [of s1 "max h ?i" "insert ?i A"]) auto
    then have "list_all (logged G (\<lambda>t. rtp_keyed key mkey k km dlen t \<and> same_config s t)) log1"
      using w by (blast intro: list_all_logged_mono same_config_trans)
    moreover have "logged G (\<lambda>t. rtp_keyed key mkey k km dlen t \<and> same_config s t) (?i, (m, len), (m', l'))"
      using Cons.prems(1) by (intro loggedI [OF len _ Cons.prems(2) sent]) simp
    moreover have "?i \<notin> A"
    proof -
      obtain s2 where "srtp_track_seq s (rtp_seq_of m) (srtp_compute_roc s (rtp_seq_of m)) = Done (0, s2)"
        using sent by (rule srtp_send_okD)
      then show ?thesis using track_seq_ideal [OF Cons.prems(2)] by (auto simp: ideal_ok_def)
    qed
    ultimately show ?thesis using 1(3) True ih by auto
  qed
qed simp

section \<open>A whole run over the network\<close>

text \<open>What the receiver reports of an arrival that the ideal window accepts (\<open>ok\<close>) or not.\<close>

definition arrival_ok :: "bool \<times> log_entry \<Rightarrow> int \<times> mem \<times> nat \<Rightarrow> bool" where
  "arrival_ok = (\<lambda>(ok, i, (m, len), (w, l)) (r, m', l'). l' = len \<and>
     (if ok then r = 0 \<and> mread m' 0 len = mread m 0 len else r = EACCES \<and> m' = w))"

lemma recv_run_refines:
  assumes lib: "srtp_library G key strm ks mkey mdata hmac dlen"
    and "rtp_keyed key mkey k km dlen sb" and "rtp_rel sb h A" and "rcc_mode sb = 0"
    and "list_all (logged G (\<lambda>t. rtp_keyed key mkey k km dlen t \<and> same_config t sb)) net"
    and "net_within 32768 h (map fst net)"
  shows "\<exists>ins sb' oks h' A'. recv_run G sb (map (\<lambda>e. snd (snd e)) net) = Done (ins, sb') \<and>
    ideal_run (h, A) (map fst net) = (oks, (h', A')) \<and> rtp_rel sb' h' A' \<and>
    list_all2 arrival_ok (zip oks net) ins"
  using assms(2-)
proof (induction net arbitrary: sb h A)
  case (Cons e net)
  obtain i m len m' l' where e: "e = (i, (m, len), (m', l'))" by (metis prod.exhaust)
  from Cons.prems(4) obtain s ha Aa sz s' where 1: "len < 2 ^ 31" "rtp_header_len m < 65536"
      "rtp_keyed key mkey k km dlen s" "same_config s sb" "rtp_rel s ha Aa"
      "i = ha + seq_off s (rtp_seq_of m)" "srtp_send G s m len sz = Done (0, s', m', l')"
    by (auto simp: e logged_def)
  have w: "h - 32768 < i" "i < h + 64" "net_within 32768 (max h i) (map fst net)"
    using Cons.prems(5) by (simp_all add: e)
  have "rcc_mode s = 0" using same_config_mode [OF 1(4)] Cons.prems(3) by simp
  from recv_arrival [OF lib 1(3,5) this Cons.prems(1,2) 1(4,1,2,7,6) w(1,2)] obtain r sb1 m2 where
    2: "srtp_recv G sb m' l' = Done (r, sb1, m2, len)" "rtp_keyed key mkey k km dlen sb1"
      "if ideal_ok (h, A) i then r = 0 \<and> mread m2 0 len = mread m 0 len else r = EACCES \<and> m2 = m'"
      "same_config sb sb1" "rtp_rel sb1 (fst (ideal_step (h, A) i)) (snd (ideal_step (h, A) i))"
    by blast
  have "list_all (logged G (\<lambda>t. rtp_keyed key mkey k km dlen t \<and> same_config t sb1)) net"
    using Cons.prems(4) by (auto intro: list_all_logged_mono same_config_trans [OF _ 2(4)])
  moreover have "fst (ideal_step (h, A) i) = max h i"
    using w(1) Cons.prems(2) by (auto simp: ideal_ok_def rtp_rel_def)
  moreover have "rcc_mode sb1 = 0" using same_config_mode [OF 2(4)] Cons.prems(3) by simp
  ultimately obtain ins sb' oks h' A' where 3: "recv_run G sb1 (map (\<lambda>e. snd (snd e)) net) = Done (ins, sb')"
      "ideal_run (ideal_step (h, A) i) (map fst net) = (oks, (h', A'))" "rtp_rel sb' h' A'"
      "list_all2 arrival_ok (zip oks net) ins"
    using Cons.IH [OF 2(2,5)] w(3) by (metis prod.collapse)
  then show ?case using 2(1,3) by (simp add: e arrival_ok_def)
qed simp

lemma length_ideal_run: "length (fst (ideal_run w js)) = length js"
  by (induction w js rule: ideal_run.induct) (auto split: prod.split)

text \<open>The ideal window accepts no index twice, and none that it had before.\<close>

lemma ideal_at_most_once:
  "distinct (map fst (filter snd (zip js (fst (ideal_run w js))))) \<and>
    set (map fst (filter snd (zip js (fst (ideal_run w js))))) \<subseteq> set js - snd w"
proof (induction w js rule: ideal_run.induct)
  case (2 w i js)
  then show ?case
    by (cases "ideal_run (ideal_step w i) js") (auto simp: ideal_ok_def split: if_splits)
qed simp

text \<open>Within 64 of the highest index it accepts every new index.\<close>

lemma ideal_all:
  assumes "net_within 64 (fst w) js" and "\<forall>a\<in>snd w. a \<le> fst w"
  shows "set js - snd w \<subseteq> set (map fst (filter snd (zip js (fst (ideal_run w js)))))"
  using assms
proof (induction w js rule: ideal_run.induct)
  case (2 w i js)
  have "net_within 64 (fst (ideal_step w i)) js \<and> (\<forall>a\<in>snd (ideal_step w i). a \<le> fst (ideal_step w i))"
    using 2(2,3) by (auto simp: ideal_ok_def max_def split: if_splits)
  then show ?case using 2(1,2)
    by (cases "ideal_run (ideal_step w i) js") (auto simp: ideal_ok_def split: if_splits)
qed simp

lemma arrivals_filter:
  assumes "list_all2 arrival_ok (zip oks net) ins" and "length oks = length net"
  shows "map fst (filter (\<lambda>(e, r, m', l'). r = 0) (zip net ins)) = map snd (filter fst (zip oks net)) \<and>
    list_all (\<lambda>((i, (m, len), w), r, m', l'). l' = len \<and> mread m' 0 len = mread m 0 len)
      (filter (\<lambda>(e, r, m', l'). r = 0) (zip net ins))"
  using assms(2,1)
proof (induction oks net arbitrary: ins rule: list_induct2)
  case (Cons ok oks e net)
  then show ?case by (cases ins) (auto simp: arrival_ok_def EACCES_def split: if_splits)
qed simp

lemma filter_zip_swap:
  "length oks = length net \<Longrightarrow>
    map fst (map snd (filter fst (zip oks net))) = map fst (filter snd (zip (map fst net) oks))"
  by (induction oks net rule: list_induct2) auto

section \<open>Properties\<close>

lemma network_refines:
  assumes lib: "srtp_library G key strm ks mkey mdata hmac dlen"
    and sa: "rtp_keyed key mkey k km dlen sa" "rtp_rel sa ha Aa"
    and sb: "rtp_keyed key mkey k km dlen sb" "rtp_rel sb h A"
    and cfg: "same_config sa sb" "rcc_mode sa = 0"
    and ps: "list_all (\<lambda>(m, len, sz). len < 2 ^ 31 \<and> rtp_header_len m < 65536) ps"
      "send_log G sa ha ps = Done (log, sa')"
    and net: "set net \<subseteq> set log" "net_within 32768 h (map fst net)"
  shows "\<exists>ins sb' oks h' A'. recv_run G sb (map (\<lambda>e. snd (snd e)) net) = Done (ins, sb') \<and>
    ideal_run (h, A) (map fst net) = (oks, (h', A')) \<and> rtp_rel sb' h' A' \<and>
    list_all2 arrival_ok (zip oks net) ins"
proof (rule recv_run_refines [OF lib sb _ _ net(2)])
  show "rcc_mode sb = 0" using same_config_mode [OF cfg(1)] cfg(2) by simp
  have "list_all (logged G (\<lambda>t. rtp_keyed key mkey k km dlen t \<and> same_config t sb)) log"
  proof (rule list_all_logged_mono)
    show "list_all (logged G (\<lambda>t. rtp_keyed key mkey k km dlen t \<and> same_config sa t)) log"
      using send_log_entries [OF lib sa cfg(2) ps] by blast
    show "rtp_keyed key mkey k km dlen t \<and> same_config t sb"
      if "rtp_keyed key mkey k km dlen t \<and> same_config sa t" for t
      using that cfg(1) by (simp add: same_config_def)
  qed
  then show "list_all (logged G (\<lambda>t. rtp_keyed key mkey k km dlen t \<and> same_config t sb)) net"
    using net(1) by (auto simp: list_all_iff)
qed

lemma net_within_mono: "net_within a h js \<Longrightarrow> a \<le> b \<Longrightarrow> net_within b h js"
  by (induction a h js rule: net_within.induct) auto

text \<open>Packets of a log whose indices are different are told apart by their indices.\<close>

lemma copies_of_log:
  assumes "distinct (map fst log)" and "set es \<subseteq> set log" and "distinct (map fst (map fst got))"
    and "set (map fst got) \<subseteq> set es" and "fst ` set es \<subseteq> fst ` set (map fst got)"
  shows "set (map fst got) = set es"
proof (rule antisym [OF assms(4)], rule subsetI)
  fix e assume e: "e \<in> set es"
  then obtain e' where e': "fst e = fst e'" "e' \<in> set (map fst got)" using assms(5) by (meson imageE imageI subsetD)
  have "inj_on fst (set log)" using assms(1) by (simp add: distinct_map)
  then have "e = e'" using e e' assms(2,4) by (meson inj_onD subsetD)
  then show "e \<in> set (map fst got)" using e'(2) by (rule ssubst)
qed

text \<open>For the witnesses: one packet.\<close>

lemma demo_log:
  "\<exists>m' s'. send_log stub_gcrypt demo_session 0 [(demo_packet, 18, 40)] =
     Done ([(1, (demo_packet, 18), (m', 28))], s')"
proof -
  obtain s' m' where "srtp_send stub_gcrypt demo_session demo_packet 18 40 = Done (0, s', m', 28)"
    using demo_send by blast
  moreover have "seq_off demo_session 1 = 1" using demo_fresh by (simp add: seq_off_def srtp_fresh_def)
  ultimately show ?thesis by (simp add: demo_header)
qed

text \<open>
  (C5) The receiver refines the ideal window, for sessions without counter carry (no RCC mode):
  whatever packets of the sender the network delivers, lost, repeated and reordered, as long as
  it stays within what sequence numbers can express, \<open>srtp_recv\<close> accepts exactly those that the
  ideal window accepts, gives back what was sent, and refuses the rest with \<open>EACCES\<close> and leaves
  them as they are. With counter carry it does not (\<open>srtp.c\<close>:679 moves the counter before a replay
  is refused).
\<close>

theorem srtp_network_refines:
  assumes lib: "srtp_library G key strm ks mkey mdata hmac dlen"
    and sa: "rtp_keyed key mkey k km dlen sa" "rtp_rel sa ha Aa"
    and sb: "rtp_keyed key mkey k km dlen sb" "rtp_rel sb h A"
    and cfg: "same_config sa sb" "rcc_mode sa = 0"
    and ps: "list_all (\<lambda>(m, len, sz). len < 2 ^ 31 \<and> rtp_header_len m < 65536) ps"
      "send_log G sa ha ps = Done (log, sa')"
    and net: "set net \<subseteq> set log" "net_within 32768 h (map fst net)"
  shows "\<exists>ins sb' oks h' A'. recv_run G sb (map (\<lambda>e. snd (snd e)) net) = Done (ins, sb') \<and>
    ideal_run (h, A) (map fst net) = (oks, (h', A')) \<and> rtp_rel sb' h' A' \<and>
    list_all2 arrival_ok (zip oks net) ins"
  using assms by (rule network_refines)

theorem srtp_network_refines_witness:
  "\<exists>e s. send_log stub_gcrypt demo_session 0 [(demo_packet, 18, 40)] = Done ([e], s) \<and>
    (\<exists>ins sb'. recv_run stub_gcrypt demo_session [snd (snd e), snd (snd e)] = Done (ins, sb') \<and>
      list_all2 arrival_ok (zip [True, False] [e, e]) ins)"
proof -
  obtain m' s' where sent: "send_log stub_gcrypt demo_session 0 [(demo_packet, 18, 40)] =
      Done ([(1, (demo_packet, 18), (m', 28))], s')"
    using demo_log by blast
  have "ideal_run (0, {}) [1, 1] = ([True, False], (1, {1}))" by (simp add: ideal_ok_def ideal_step_def)
  with srtp_network_refines [OF stub_library demo_keyed rtp_rel_fresh [OF demo_fresh] demo_keyed
      rtp_rel_fresh [OF demo_fresh] same_config_refl demo_mode _ sent,
      of "[(1, (demo_packet, 18), (m', 28)), (1, (demo_packet, 18), (m', 28))]"]
  show ?thesis using sent by (fastforce simp: demo_header)
qed

text \<open>
  (C4) Exactly once, for sessions without counter carry (no RCC mode): sender and receiver start
  in step, and the network loses, repeats and reorders packets as far as sequence numbers can
  express (none 32768 or more behind the highest index before it, none 64 or more ahead). Then of
  every packet, however often it arrives, at most one copy is accepted, what the application gets
  is what was sent, and every other copy is refused. When moreover none arrives 64 or more behind
  the highest index before it, exactly one copy of every packet that arrives is accepted.
\<close>

theorem srtp_network_exactly_once:
  assumes lib: "srtp_library G key strm ks mkey mdata hmac dlen"
    and sa: "rtp_keyed key mkey k km dlen sa" "rtp_rel sa h A"
    and sb: "rtp_keyed key mkey k km dlen sb" "rtp_rel sb h A"
    and cfg: "same_config sa sb" "rcc_mode sa = 0"
    and ps: "list_all (\<lambda>(m, len, sz). len < 2 ^ 31 \<and> rtp_header_len m < 65536) ps"
      "send_log G sa h ps = Done (log, sa')"
    and net: "set net \<subseteq> set log" "net_within 32768 h (map fst net)"
  shows "\<exists>ins sb' got. recv_run G sb (map (\<lambda>e. snd (snd e)) net) = Done (ins, sb') \<and>
    length ins = length net \<and> got = filter (\<lambda>(e, r, m', l'). r = 0) (zip net ins) \<and>
    distinct (map fst got) \<and> set (map fst got) \<subseteq> set net \<and>
    list_all (\<lambda>((i, (m, len), w), r, m', l'). l' = len \<and> mread m' 0 len = mread m 0 len) got \<and>
    (net_within 64 h (map fst net) \<longrightarrow> set (map fst got) = set net)"
proof -
  from network_refines [OF lib sa sb cfg ps net] obtain ins sb' oks w' where
    r: "recv_run G sb (map (\<lambda>e. snd (snd e)) net) = Done (ins, sb')"
      "ideal_run (h, A) (map fst net) = (oks, w')" "list_all2 arrival_ok (zip oks net) ins"
    by blast
  have len: "length oks = length net" using length_ideal_run [of "(h, A)" "map fst net"] r(2) by simp
  define got where "got = filter (\<lambda>(e, r, m', l'). r = 0) (zip net ins)"
  note f = arrivals_filter [OF r(3) len, folded got_def]
  have log: "distinct (map fst log)" "fst ` set log \<inter> A = {}"
    using send_log_entries [OF lib sa cfg(2) ps] by blast+
  have eq: "map fst (map fst got) = map fst (filter snd (zip (map fst net) oks))"
    using f filter_zip_swap [OF len] by simp
  have dist: "distinct (map fst (map fst got))"
    using ideal_at_most_once [of "map fst net" "(h, A)"] r(2) unfolding eq by simp
  have sub: "set (map fst got) \<subseteq> set net" by (auto simp: got_def dest: set_zip_leftD)
  have "set (map fst got) = set net" if w: "net_within 64 h (map fst net)"
  proof (rule copies_of_log [OF log(1) net(1) dist sub])
    have "fst ` set net \<inter> A = {}" using log(2) net(1) by blast
    moreover have "set (map fst net) - A \<subseteq> set (map fst (map fst got))"
      unfolding eq using ideal_all [of "(h, A)" "map fst net"] w r(2) sb(2) by (simp add: rtp_rel_def)
    ultimately show "fst ` set net \<subseteq> fst ` set (map fst got)"
      by (simp only: list.set_map) blast
  qed
  moreover have "distinct (map fst got)" using dist unfolding distinct_map [of fst "map fst got"] by blast
  moreover have "length ins = length net" using list_all2_lengthD [OF r(3)] len by simp
  ultimately show ?thesis using r(1) f got_def sub by blast
qed

theorem srtp_network_exactly_once_witness:
  "\<exists>e s. send_log stub_gcrypt demo_session 0 [(demo_packet, 18, 40)] = Done ([e], s) \<and>
    (\<exists>ins sb' got. recv_run stub_gcrypt demo_session [snd (snd e), snd (snd e)] = Done (ins, sb') \<and>
      got = filter (\<lambda>(e, r, m', l'). r = 0) (zip [e, e] ins) \<and> distinct (map fst got) \<and>
      set (map fst got) = {e})"
proof -
  obtain m' s' where sent: "send_log stub_gcrypt demo_session 0 [(demo_packet, 18, 40)] =
      Done ([(1, (demo_packet, 18), (m', 28))], s')"
    using demo_log by blast
  from srtp_network_exactly_once [OF stub_library demo_keyed rtp_rel_fresh [OF demo_fresh] demo_keyed
      rtp_rel_fresh [OF demo_fresh] same_config_refl demo_mode _ sent,
      of "[(1, (demo_packet, 18), (m', 28)), (1, (demo_packet, 18), (m', 28))]"]
  show ?thesis using sent by (fastforce simp: demo_header)
qed

end
