(* ===== verification/Openssl.thy ===== *)
theory Openssl
  imports Srtp_Prelude
begin

text \<open>
  OpenSSL, the allocator and the socket layer as \<open>libdtlssrtp\<close> uses them: a parameter of the
  model, one operation per function the code calls. \<open>'x\<close> is the state of an \<open>SSL_CTX\<close>, \<open>'s\<close>
  that of an \<open>SSL\<close> with the BIOs set in it, \<open>'b\<close> that of a BIO not yet set, \<open>'k\<close> stands for
  certificates and keys, \<open>'w\<close> for the state of the process. A BIO of an \<open>SSL\<close> is reached
  through it (\<open>SSL_get_rbio\<close>, \<open>SSL_get_wbio\<close>), so its operations act on \<open>'s\<close>. Documented
  behaviour that theorems rely on is stated as the predicates \<open>ssl_roles\<close>, \<open>ssl_resources\<close>,
  \<open>ssl_owns\<close>, \<open>bio_reads\<close>, \<open>bio_empty\<close>, \<open>ssl_exports\<close> and \<open>ctx_verify\<close>; \<open>toy_ssl\<close> is a small implementation for the witnesses.
\<close>

section \<open>The interface\<close>

type_synonym timeval = "int \<times> int"
type_synonym 'k ssl_verify_cb = "int \<Rightarrow> 'k \<Rightarrow> int"

record ('x, 's, 'b, 'k, 'w) openssl =
  SSL_CTX_new :: "'w \<Rightarrow> 'x option \<times> 'w"   \<comment> \<open>of \<open>DTLSv1_method ()\<close>\<close>
  SSL_CTX_free :: "'x \<Rightarrow> 'w \<Rightarrow> 'w"
  SSL_CTX_set_read_ahead :: "'x \<Rightarrow> bool \<Rightarrow> 'x"
  EC_KEY_new_by_curve_name :: "'w \<Rightarrow> 'k option \<times> 'w"   \<comment> \<open>of \<open>NID_X9_62_prime256v1\<close>\<close>
  EC_KEY_free :: "'k \<Rightarrow> 'w \<Rightarrow> 'w"
  SSL_CTX_set_tmp_ecdh :: "'x \<Rightarrow> 'k \<Rightarrow> 'x"
  SSL_CTX_set_verify :: "'x \<Rightarrow> int \<Rightarrow> 'k ssl_verify_cb option \<Rightarrow> 'x"
  SSL_CTX_set_tlsext_use_srtp :: "'x \<Rightarrow> string \<Rightarrow> 'x"
  SSL_CTX_use_certificate :: "'x \<Rightarrow> 'k \<Rightarrow> int \<times> 'x"
  SSL_CTX_use_PrivateKey :: "'x \<Rightarrow> 'k option \<Rightarrow> int \<times> 'x"
  SSL_CTX_check_private_key :: "'x \<Rightarrow> int"
  SSL_CTX_set_cipher_list :: "'x \<Rightarrow> string \<Rightarrow> int \<times> 'x"
  SSL_CTX_load_verify_locations :: "'x \<Rightarrow> string option \<Rightarrow> string option \<Rightarrow> int \<times> 'x"
  SSL_new :: "'x option \<Rightarrow> 'w \<Rightarrow> 's option \<times> 'w"
  SSL_free :: "'s \<Rightarrow> 'w \<Rightarrow> 'w"
  BIO_new_mem :: "'w \<Rightarrow> 'b option \<times> 'w"   \<comment> \<open>\<open>BIO_new (BIO_s_mem ())\<close>\<close>
  BIO_set_mem_eof_return :: "'b \<Rightarrow> int \<Rightarrow> 'b"
  BIO_free :: "'b \<Rightarrow> 'w \<Rightarrow> 'w"
  SSL_set_bio :: "'s \<Rightarrow> 'b \<Rightarrow> 'b \<Rightarrow> 's"
  SSL_set_accept_state :: "'s \<Rightarrow> 's"
  SSL_set_connect_state :: "'s \<Rightarrow> 's"
  BIO_ctrl_pending :: "'s \<Rightarrow> nat"   \<comment> \<open>of the write BIO\<close>
  BIO_read :: "'s \<Rightarrow> nat \<Rightarrow> int \<times> bytes \<times> 's"   \<comment> \<open>from the write BIO\<close>
  BIO_write :: "'s \<Rightarrow> bytes \<Rightarrow> int \<times> 's"   \<comment> \<open>to the read BIO\<close>
  SSL_read :: "'s \<Rightarrow> nat \<Rightarrow> int \<times> 's"
  SSL_get_error :: "'s \<Rightarrow> int \<Rightarrow> int"
  SSL_is_init_finished :: "'s \<Rightarrow> bool"
  SSL_do_handshake :: "'s \<Rightarrow> int \<times> 's"
  DTLSv1_handle_timeout :: "'s \<Rightarrow> int \<times> 's"
  DTLSv1_get_timeout :: "'s \<Rightarrow> timeval option"   \<comment> \<open>\<open>None\<close>: it returns 0\<close>
  SSL_clear :: "'s \<Rightarrow> 's"
  SSL_shutdown :: "'s \<Rightarrow> int \<times> 's"
  SSL_renegotiate :: "'s \<Rightarrow> int \<times> 's"
  SSL_get_peer_certificate :: "'s \<Rightarrow> 'w \<Rightarrow> 'k option \<times> 'w"   \<comment> \<open>takes a reference\<close>
  SSL_export_keying_material :: "'s \<Rightarrow> bytes \<Rightarrow> string \<Rightarrow> int \<times> bytes"   \<comment> \<open>the buffer, before and after\<close>
  c_calloc :: "'w \<Rightarrow> bool \<times> 'w"
  c_dealloc :: "'w \<Rightarrow> 'w"   \<comment> \<open>\<open>free\<close>\<close>

definition SSL_ERROR_SSL :: int where "SSL_ERROR_SSL = 1"
definition SSL_VERIFY_NONE :: int where "SSL_VERIFY_NONE = 0"

section \<open>Documented behaviour\<close>

text \<open>
  \<open>server\<close> observes which side of the handshake an \<open>SSL\<close> plays: the two setters decide it,
  and no other call but \<open>SSL_clear\<close> changes it.
\<close>

definition ssl_roles :: "('x, 's, 'b, 'k, 'w) openssl \<Rightarrow> ('s \<Rightarrow> bool) \<Rightarrow> bool" where
  "ssl_roles L server \<longleftrightarrow>
     (\<forall>s. server (SSL_set_accept_state L s) \<and> \<not> server (SSL_set_connect_state L s)) \<and>
     (\<forall>s n. server (snd (snd (BIO_read L s n))) = server s \<and> server (snd (SSL_read L s n)) = server s) \<and>
     (\<forall>s bs. server (snd (BIO_write L s bs)) = server s) \<and>
     (\<forall>s. server (snd (SSL_do_handshake L s)) = server s \<and>
        server (snd (DTLSv1_handle_timeout L s)) = server s \<and>
        server (snd (SSL_shutdown L s)) = server s \<and> server (snd (SSL_renegotiate L s)) = server s)"

text \<open>
  Ownership: \<open>objs\<close> counts the library objects (and references to certificates) of the process and \<open>blocks\<close> its memory blocks;
  \<open>bios\<close> is how many BIOs an \<open>SSL\<close> owns. \<open>SSL_set_bio\<close> takes the two BIOs over, \<open>SSL_free\<close>
  frees them with the \<open>SSL\<close>. A failed call takes nothing.
\<close>

definition ssl_resources ::
  "('x, 's, 'b, 'k, 'w) openssl \<Rightarrow> ('w \<Rightarrow> int) \<Rightarrow> ('w \<Rightarrow> int) \<Rightarrow> ('s \<Rightarrow> int) \<Rightarrow> bool" where
  "ssl_resources L objs blocks bios \<longleftrightarrow>
     (\<forall>w r w'. SSL_CTX_new L w = (r, w') \<longrightarrow>
        objs w' = objs w + (if r = None then 0 else 1) \<and> blocks w' = blocks w) \<and>
     (\<forall>x w. objs (SSL_CTX_free L x w) = objs w - 1 \<and> blocks (SSL_CTX_free L x w) = blocks w) \<and>
     (\<forall>w r w'. EC_KEY_new_by_curve_name L w = (r, w') \<longrightarrow>
        objs w' = objs w + (if r = None then 0 else 1) \<and> blocks w' = blocks w) \<and>
     (\<forall>k w. objs (EC_KEY_free L k w) = objs w - 1 \<and> blocks (EC_KEY_free L k w) = blocks w) \<and>
     (\<forall>x w r w'. SSL_new L x w = (r, w') \<longrightarrow>
        objs w' = objs w + (if r = None then 0 else 1) \<and> blocks w' = blocks w \<and>
        (\<forall>s. r = Some s \<longrightarrow> bios s = 0)) \<and>
     (\<forall>s w. objs (SSL_free L s w) = objs w - 1 - bios s \<and> blocks (SSL_free L s w) = blocks w) \<and>
     (\<forall>w r w'. BIO_new_mem L w = (r, w') \<longrightarrow>
        objs w' = objs w + (if r = None then 0 else 1) \<and> blocks w' = blocks w) \<and>
     (\<forall>s w r w'. SSL_get_peer_certificate L s w = (r, w') \<longrightarrow>
        objs w' = objs w + (if r = None then 0 else 1) \<and> blocks w' = blocks w) \<and>
     (\<forall>b w. objs (BIO_free L b w) = objs w - 1 \<and> blocks (BIO_free L b w) = blocks w) \<and>
     (\<forall>s a b. bios (SSL_set_bio L s a b) = 2) \<and>
     (\<forall>s. bios (SSL_set_accept_state L s) = bios s \<and> bios (SSL_set_connect_state L s) = bios s) \<and>
     (\<forall>w r w'. c_calloc L w = (r, w') \<longrightarrow>
        objs w' = objs w \<and> blocks w' = blocks w + (if r then 1 else 0)) \<and>
     (\<forall>w. objs (c_dealloc L w) = objs w \<and> blocks (c_dealloc L w) = blocks w - 1)"

text \<open>No call on an \<open>SSL\<close> in use changes which BIOs it owns.\<close>

definition ssl_owns :: "('x, 's, 'b, 'k, 'w) openssl \<Rightarrow> ('s \<Rightarrow> int) \<Rightarrow> bool" where
  "ssl_owns L bios \<longleftrightarrow>
     (\<forall>s n. bios (snd (snd (BIO_read L s n))) = bios s \<and> bios (snd (SSL_read L s n)) = bios s) \<and>
     (\<forall>s bs. bios (snd (BIO_write L s bs)) = bios s) \<and>
     (\<forall>s. bios (snd (SSL_do_handshake L s)) = bios s \<and> bios (snd (DTLSv1_handle_timeout L s)) = bios s \<and>
        bios (snd (SSL_shutdown L s)) = bios s \<and> bios (snd (SSL_renegotiate L s)) = bios s \<and>
        bios (SSL_clear L s) = bios s)"

text \<open>
  Reading a memory BIO: as many bytes as are pending can be read at once, and are then gone.
\<close>

definition bio_reads :: "('x, 's, 'b, 'k, 'w) openssl \<Rightarrow> bool" where
  "bio_reads L \<longleftrightarrow> (\<forall>s. 0 < BIO_ctrl_pending L s \<longrightarrow>
     (\<exists>bs s'. BIO_read L s (BIO_ctrl_pending L s) = (int (BIO_ctrl_pending L s), bs, s') \<and>
        length bs = BIO_ctrl_pending L s \<and> BIO_ctrl_pending L s' = 0))"

text \<open>Reading an empty memory BIO returns what \<open>BIO_set_mem_eof_return\<close> set, which the code sets to -1.\<close>

definition bio_empty :: "('x, 's, 'b, 'k, 'w) openssl \<Rightarrow> bool" where
  "bio_empty L \<longleftrightarrow> (\<forall>s n. BIO_ctrl_pending L s = 0 \<longrightarrow> fst (BIO_read L s n) = -1)"

text \<open>
  Exporting keying material stays inside the buffer, and fills it when it returns 1; the
  failures are 0 and -1.
\<close>

definition ssl_exports :: "('x, 's, 'b, 'k, 'w) openssl \<Rightarrow> bool" where
  "ssl_exports L \<longleftrightarrow> (\<forall>s buf label r out. SSL_export_keying_material L s buf label = (r, out) \<longrightarrow>
     length out = length buf \<and> (r = 1 \<or> r = 0 \<or> r = -1))"

text \<open>The verification mode of a context is the one set last; no other call changes it.\<close>

definition ctx_verify :: "('x, 's, 'b, 'k, 'w) openssl \<Rightarrow> ('x \<Rightarrow> int) \<Rightarrow> bool" where
  "ctx_verify L mode \<longleftrightarrow>
     (\<forall>x v cb. mode (SSL_CTX_set_verify L x v cb) = v) \<and>
     (\<forall>x s. mode (SSL_CTX_set_tlsext_use_srtp L x s) = mode x) \<and>
     (\<forall>x k. mode (snd (SSL_CTX_use_certificate L x k)) = mode x) \<and>
     (\<forall>x k. mode (snd (SSL_CTX_use_PrivateKey L x k)) = mode x) \<and>
     (\<forall>x c. mode (snd (SSL_CTX_set_cipher_list L x c)) = mode x) \<and>
     (\<forall>x a b. mode (snd (SSL_CTX_load_verify_locations L x a b)) = mode x)"

text \<open>The laws one by one.\<close>

lemma ssl_resources_new:
  assumes "ssl_resources L objs blocks bios"
  shows "SSL_CTX_new L w = (x, w') \<Longrightarrow> objs w' = objs w + (if x = None then 0 else 1) \<and> blocks w' = blocks w"
    and "EC_KEY_new_by_curve_name L w = (k, w') \<Longrightarrow>
      objs w' = objs w + (if k = None then 0 else 1) \<and> blocks w' = blocks w"
    and "BIO_new_mem L w = (b, w') \<Longrightarrow> objs w' = objs w + (if b = None then 0 else 1) \<and> blocks w' = blocks w"
    and "SSL_new L y w = (s, w') \<Longrightarrow> objs w' = objs w + (if s = None then 0 else 1) \<and>
      blocks w' = blocks w \<and> (\<forall>s'. s = Some s' \<longrightarrow> bios s' = 0)"
    and "c_calloc L w = (ok, w') \<Longrightarrow> objs w' = objs w \<and> blocks w' = blocks w + (if ok then 1 else 0)"
    and "SSL_get_peer_certificate L z w = (c, w') \<Longrightarrow>
      objs w' = objs w + (if c = None then 0 else 1) \<and> blocks w' = blocks w"
  using assms by (simp_all add: ssl_resources_def)

lemma ssl_resources_free:
  assumes "ssl_resources L objs blocks bios"
  shows "objs (SSL_CTX_free L x w) = objs w - 1" "blocks (SSL_CTX_free L x w) = blocks w"
    and "objs (EC_KEY_free L k w) = objs w - 1" "blocks (EC_KEY_free L k w) = blocks w"
    and "objs (SSL_free L s w) = objs w - 1 - bios s" "blocks (SSL_free L s w) = blocks w"
    and "objs (BIO_free L b w) = objs w - 1" "blocks (BIO_free L b w) = blocks w"
    and "objs (c_dealloc L w) = objs w" "blocks (c_dealloc L w) = blocks w - 1"
    and "bios (SSL_set_bio L s a c) = 2" "bios (SSL_set_accept_state L s) = bios s"
      "bios (SSL_set_connect_state L s) = bios s"
  using assms by (simp_all add: ssl_resources_def)

section \<open>An implementation for the witnesses\<close>

text \<open>
  A toy peer: the handshake is over once a non-empty datagram came in, each received
  datagram makes two bytes pending. The world is the number of objects, of blocks, and the
  datagrams sent. An \<open>SSL\<close> is its role, whether it is done, the pending bytes, and its BIOs.
\<close>

type_synonym toy_ctx = "int \<times> string"
record toy_conn =
  toy_server :: bool
  toy_done :: bool
  toy_out :: bytes
  toy_in :: bytes
  toy_bios :: int
type_synonym toy_world = "int \<times> int \<times> (int \<times> bytes) list"

definition toy_ssl :: "(toy_ctx, toy_conn, unit, nat, toy_world) openssl" where
  "toy_ssl = \<lparr>
     SSL_CTX_new = (\<lambda>(n, b, out). (Some (-1, []), (n + 1, b, out))),
     SSL_CTX_free = (\<lambda>x (n, b, out). (n - 1, b, out)),
     SSL_CTX_set_read_ahead = (\<lambda>x f. x),
     EC_KEY_new_by_curve_name = (\<lambda>(n, b, out). (Some 0, (n + 1, b, out))),
     EC_KEY_free = (\<lambda>k (n, b, out). (n - 1, b, out)),
     SSL_CTX_set_tmp_ecdh = (\<lambda>x k. x),
     SSL_CTX_set_verify = (\<lambda>(v, p) v' cb. (v', p)),
     SSL_CTX_set_tlsext_use_srtp = (\<lambda>(v, p) p'. (v, p')),
     SSL_CTX_use_certificate = (\<lambda>x k. (if k = 0 then 0 else 1, x)),
     SSL_CTX_use_PrivateKey = (\<lambda>x k. (if k = None then 0 else 1, x)),
     SSL_CTX_check_private_key = (\<lambda>x. 1),
     SSL_CTX_set_cipher_list = (\<lambda>x c. (1, x)),
     SSL_CTX_load_verify_locations = (\<lambda>x a b. (1, x)),
     SSL_new = (\<lambda>x (n, b, out). if x = None then (None, (n, b, out))
       else (Some \<lparr>toy_server = False, toy_done = False, toy_out = [], toy_in = [], toy_bios = 0\<rparr>,
             (n + 1, b, out))),
     SSL_free = (\<lambda>s (n, b, out). (n - 1 - toy_bios s, b, out)),
     BIO_new_mem = (\<lambda>(n, b, out). if n < 9 then (Some (), (n + 1, b, out)) else (None, (n, b, out))),
     BIO_set_mem_eof_return = (\<lambda>b v. b),
     BIO_free = (\<lambda>b (n, k, out). (n - 1, k, out)),
     SSL_set_bio = (\<lambda>s a b. s\<lparr>toy_bios := 2\<rparr>),
     SSL_set_accept_state = (\<lambda>s. s\<lparr>toy_server := True\<rparr>),
     SSL_set_connect_state = (\<lambda>s. s\<lparr>toy_server := False\<rparr>),
     BIO_ctrl_pending = (\<lambda>s. length (toy_out s)),
     BIO_read = (\<lambda>s n. (if toy_out s = [] then -1 else int (min n (length (toy_out s))), take n (toy_out s),
                       s\<lparr>toy_out := drop n (toy_out s)\<rparr>)),
     BIO_write = (\<lambda>s bs. (int (length bs), s\<lparr>toy_in := bs\<rparr>)),
     SSL_read = (\<lambda>s n. (-1, if toy_in s = [] then s
       else s\<lparr>toy_done := True, toy_out := toy_out s @ [1, 2], toy_in := []\<rparr>)),
     SSL_get_error = (\<lambda>s r. 2),
     SSL_is_init_finished = toy_done,
     SSL_do_handshake = (\<lambda>s. (-1, s\<lparr>toy_out := toy_out s @ [22]\<rparr>)),
     DTLSv1_handle_timeout = (\<lambda>s. (1, s\<lparr>toy_out := toy_out s @ [23]\<rparr>)),
     DTLSv1_get_timeout = (\<lambda>s. None),
     SSL_clear = (\<lambda>s. s\<lparr>toy_done := False\<rparr>),
     SSL_shutdown = (\<lambda>s. (1, s\<lparr>toy_done := False\<rparr>)),
     SSL_renegotiate = (\<lambda>s. (1, s)),
     SSL_get_peer_certificate = (\<lambda>s (n, b, out). (Some 7, (n + 1, b, out))),
     SSL_export_keying_material = (\<lambda>s buf label. (1, map of_nat [0..<length buf])),
     c_calloc = (\<lambda>(n, b, out). (True, (n, b + 1, out))),
     c_dealloc = (\<lambda>(n, b, out). (n, b - 1, out)) \<rparr>"

lemma toy_roles: "ssl_roles toy_ssl toy_server"
  by (simp add: ssl_roles_def toy_ssl_def)

lemma toy_resources: "ssl_resources toy_ssl fst (\<lambda>(n, b, out). b) toy_bios"
  by (auto simp: ssl_resources_def toy_ssl_def split: if_splits)

lemma toy_owns: "ssl_owns toy_ssl toy_bios"
  by (simp add: ssl_owns_def toy_ssl_def)

lemma toy_reads: "bio_reads toy_ssl"
  by (simp add: bio_reads_def toy_ssl_def)

lemma toy_empty: "bio_empty toy_ssl"
  by (simp add: bio_empty_def toy_ssl_def)

lemma toy_exports: "ssl_exports toy_ssl"
  by (simp add: ssl_exports_def toy_ssl_def)

lemma toy_verify: "ctx_verify toy_ssl fst"
  by (auto simp: ctx_verify_def toy_ssl_def)

end
