(* ===== verification/Data_Sink.thy ===== *)
theory Data_Sink
  imports Openssl
begin

text \<open>
  The data sink of \<open>data_sink.h\<close>, the table of functions through which a DTLS session sends
  datagrams and schedules its timer, and the UDP sink of \<open>dsink_udp.c\<close> on \<open>sendto(2)\<close>. The
  carrier, a \<open>void *\<close> in the interface, is the file descriptor that its users cast to it; a
  target is the bytes of a socket address or null.
\<close>

type_synonym 'w dsink_sendto = "int \<Rightarrow> bytes \<Rightarrow> int \<Rightarrow> bytes option \<Rightarrow> int \<Rightarrow> 'w \<Rightarrow> int \<times> 'w"
type_synonym 'w dsink_timer_sched = "int \<Rightarrow> timeval option \<Rightarrow> 'w \<Rightarrow> 'w"

record 'w dsink =
  sink_name :: string
  sink_sendto :: "'w dsink_sendto"
  sink_sched :: "'w dsink_timer_sched option"

text \<open>
  \<open>sys_sendto\<close> is the system call, a parameter; it takes the address length as an unsigned
  \<open>socklen_t\<close>.
\<close>

type_synonym 'w sys_sendto = "int \<Rightarrow> bytes \<Rightarrow> int \<Rightarrow> bytes option \<Rightarrow> u32 \<Rightarrow> 'w \<Rightarrow> int \<times> 'w"

definition udp_sendto :: "'w sys_sendto \<Rightarrow> 'w dsink_sendto" where
  "udp_sendto sys_sendto carrier data flags target tglen w =
     sys_sendto carrier data flags target (word_of_int tglen) w"

definition dsink_udp :: "'w sys_sendto \<Rightarrow> 'w dsink" where
  "dsink_udp sys_sendto =
     \<lparr>sink_name = ''dsink_udp'', sink_sendto = udp_sendto sys_sendto, sink_sched = None\<rparr>"

definition dsink_udp_getsink :: "'w sys_sendto \<Rightarrow> 'w dsink" where
  "dsink_udp_getsink sys_sendto = dsink_udp sys_sendto"

lemma getsink_simps [simp]:
  "sink_sched (dsink_udp_getsink f) = None"
  "sink_sendto (dsink_udp_getsink f) = udp_sendto f"
  by (simp_all add: dsink_udp_getsink_def dsink_udp_def)

text \<open>A network for the witnesses that records what is sent.\<close>

definition toy_sendto :: "toy_world sys_sendto" where
  "toy_sendto fd data flags target tglen w =
     (case w of (n, b, out) \<Rightarrow> (int (length data), (n, b, out @ [(fd, data)])))"

end
