(* ===== verification/Dtls_Session.thy ===== *)
theory Dtls_Session
  imports Data_Sink
begin

text \<open>
  The DTLS session of \<open>dtls_srtp.c\<close> and \<open>dtls_srtp.h\<close>: its states, creation and destruction,
  and the calls that drive the handshake. The mutex of a session is whether it is locked;
  locking a locked default mutex and unlocking a free one are undefined by POSIX. Dereferences of
  null that the code does not guard are \<open>Undefined\<close>. The locale \<open>session_calls\<close> is the
  contract that all calls share, from which follows what holds over whole runs.
\<close>

section \<open>The code\<close>

datatype dtls_con_state =
  DTLS_CONSTATE_ACT | DTLS_CONSTATE_PASS | DTLS_CONSTATE_ACTPASS | DTLS_CONSTATE_HOLDCONN

datatype dtls_con_type = DTLS_CONTYPE_NEW | DTLS_CONTYPE_EXISTING

record ('s, 'w) dtls_sess =
  ssl :: "'s option"
  sink :: "'w dsink option"
  state :: dtls_con_state
  con_type :: dtls_con_type
  lock :: bool

definition dtls_sess_set_sink :: "('s, 'w) dtls_sess \<Rightarrow> 'w dsink option \<Rightarrow> ('s, 'w) dtls_sess" where
  "dtls_sess_set_sink sess k = sess\<lparr>sink := k\<rparr>"

definition dtls_sess_get_sink :: "('s, 'w) dtls_sess \<Rightarrow> 'w dsink option" where
  "dtls_sess_get_sink sess = sink sess"

definition dtls_sess_set_state :: "('s, 'w) dtls_sess \<Rightarrow> dtls_con_state \<Rightarrow> ('s, 'w) dtls_sess" where
  "dtls_sess_set_state sess st = sess\<lparr>state := st\<rparr>"

definition dtls_sess_get_state :: "('s, 'w) dtls_sess \<Rightarrow> dtls_con_state" where
  "dtls_sess_get_state sess = state sess"

definition dtls_sess_get_timeout ::
  "('x, 's, 'b, 'k, 'w) openssl \<Rightarrow> 's \<Rightarrow> timeval option" where
  "dtls_sess_get_timeout L s = DTLSv1_get_timeout L s"

text \<open>
  \<open>con_state\<close> is an \<open>int\<close> that is stored in the enumeration. Every value but the first three
  behaves as \<open>DTLS_CONSTATE_HOLDCONN\<close>: no comparison of the code distinguishes it.
\<close>

definition con_state_of :: "int \<Rightarrow> dtls_con_state" where
  "con_state_of i = (if i = 0 then DTLS_CONSTATE_ACT else if i = 1 then DTLS_CONSTATE_PASS
     else if i = 2 then DTLS_CONSTATE_ACTPASS else DTLS_CONSTATE_HOLDCONN)"

text \<open>The values of the enumeration, and the order they give the states.\<close>

fun con_state_value :: "dtls_con_state \<Rightarrow> int" where
  "con_state_value DTLS_CONSTATE_ACT = 0"
| "con_state_value DTLS_CONSTATE_PASS = 1"
| "con_state_value DTLS_CONSTATE_ACTPASS = 2"
| "con_state_value DTLS_CONSTATE_HOLDCONN = 3"

instantiation dtls_con_state :: linorder
begin

definition less_eq_dtls_con_state :: "dtls_con_state \<Rightarrow> dtls_con_state \<Rightarrow> bool" where
  "less_eq_dtls_con_state a b \<longleftrightarrow> con_state_value a \<le> con_state_value b"

definition less_dtls_con_state :: "dtls_con_state \<Rightarrow> dtls_con_state \<Rightarrow> bool" where
  "less_dtls_con_state a b \<longleftrightarrow> con_state_value a < con_state_value b"

instance
proof
  show "x = y" if "x \<le> y" "y \<le> x" for x y :: dtls_con_state
    using that unfolding less_eq_dtls_con_state_def by (cases x; cases y; simp)
qed (auto simp: less_eq_dtls_con_state_def less_dtls_con_state_def)

end

lemma con_state_of_value [simp]: "con_state_of (con_state_value st) = st"
  by (cases st) (simp_all add: con_state_of_def)

lemma con_state_value_of: "0 \<le> i \<Longrightarrow> i \<le> 3 \<Longrightarrow> con_state_value (con_state_of i) = i"
  by (auto simp: con_state_of_def)

text \<open>The role that \<open>dtls_sess_new\<close> and \<open>dtls_sess_setup\<close> give the \<open>SSL\<close>.\<close>

definition set_role ::
  "('x, 's, 'b, 'k, 'w) openssl \<Rightarrow> dtls_con_state \<Rightarrow> 's \<Rightarrow> 's" where
  "set_role L st s = (if st = DTLS_CONSTATE_PASS then SSL_set_accept_state L s
     else SSL_set_connect_state L s)"

text \<open>
  \<open>dtls_sess_new\<close>; the label \<open>error\<close> frees the \<open>SSL\<close> if there is one, then the session. The
  code does not check what \<open>calloc\<close> returns.
\<close>

definition dtls_sess_new ::
  "('x, 's, 'b, 'k, 'w) openssl \<Rightarrow> 'x option \<Rightarrow> 'w dsink option \<Rightarrow> int \<Rightarrow> 'w \<Rightarrow>
   (('s, 'w) dtls_sess option \<times> 'w) outcome" where
  "dtls_sess_new L sslcfg snk con_state w =
     (case c_calloc L w of (False, w0) \<Rightarrow> Undefined | (True, w0) \<Rightarrow>
      case SSL_new L sslcfg w0 of (None, w1) \<Rightarrow> Done (None, c_dealloc L w1)
      | (Some s0, w1) \<Rightarrow>
      case BIO_new_mem L w1 of (None, w2) \<Rightarrow> Done (None, c_dealloc L (SSL_free L s0 w2))
      | (Some rbio0, w2) \<Rightarrow>
      let rbio = BIO_set_mem_eof_return L rbio0 (-1) in
      case BIO_new_mem L w2 of
        (None, w3) \<Rightarrow> Done (None, c_dealloc L (SSL_free L s0 (BIO_free L rbio w3)))
      | (Some wbio0, w3) \<Rightarrow>
      let wbio = BIO_set_mem_eof_return L wbio0 (-1);
          st = con_state_of con_state;
          s1 = set_role L st (SSL_set_bio L s0 rbio wbio);
          sess = \<lparr>ssl = Some s1, sink = None, state = st, con_type = DTLS_CONTYPE_NEW,
                  lock = False\<rparr> in
      Done (Some (dtls_sess_set_sink sess snk), w3))"

text \<open>Destroying a locked mutex is undefined.\<close>

definition dtls_sess_free ::
  "('x, 's, 'b, 'k, 'w) openssl \<Rightarrow> ('s, 'w) dtls_sess \<Rightarrow> 'w \<Rightarrow> 'w outcome" where
  "dtls_sess_free L sess w =
     (let w1 = (case ssl sess of None \<Rightarrow> w | Some s \<Rightarrow> SSL_free L s w) in
      if lock sess then Undefined else Done (c_dealloc L w1))"

text \<open>
  \<open>dtls_sess_send_pending\<close>: a negative result of \<open>BIO_read\<close> becomes a \<open>size_t\<close> close to \<open>2^64\<close>
  that \<open>sendto\<close> reads from the array.
\<close>

definition dtls_sess_send_pending ::
  "('x, 's, 'b, 'k, 'w) openssl \<Rightarrow> ('s, 'w) dtls_sess \<Rightarrow> int \<Rightarrow> bytes option \<Rightarrow> int \<Rightarrow> 'w \<Rightarrow>
   (int \<times> ('s, 'w) dtls_sess \<times> 'w) outcome" where
  "dtls_sess_send_pending L sess carrier dest destlen w =
     (case ssl sess of None \<Rightarrow> Done (-2, sess, w)
      | Some s \<Rightarrow>
      let pending = BIO_ctrl_pending L s in
      if pending = 0 then Done (0, sess, w)
      else case BIO_read L s pending of (out, outgoing, s1) \<Rightarrow>
      let sess1 = sess\<lparr>ssl := Some s1\<rparr> in
      case sink sess1 of None \<Rightarrow> Undefined
      | Some k \<Rightarrow>
      let w1 = (case sink_sched k of None \<Rightarrow> w
                | Some f \<Rightarrow> f carrier (dtls_sess_get_timeout L s1) w) in
      if out < 0 then Undefined
      else case sink_sendto k carrier (take (nat out) outgoing) 0 dest destlen w1 of (ret, w2) \<Rightarrow>
        Done (ret, sess1, w2))"

text \<open>An endpoint of both roles becomes the server when it receives the first packet.\<close>

definition become_passive ::
  "('x, 's, 'b, 'k, 'w) openssl \<Rightarrow> ('s, 'w) dtls_sess \<Rightarrow> 's \<Rightarrow> ('s, 'w) dtls_sess" where
  "become_passive L sess s0 = (if state sess = DTLS_CONSTATE_ACTPASS
     then sess\<lparr>state := DTLS_CONSTATE_PASS, ssl := Some (SSL_set_accept_state L s0)\<rparr> else sess)"

text \<open>
  \<open>dtls_sess_put_packet\<close>: an array of length zero (\<open>char dummy[len]\<close>) is undefined, before
  anything else happens.
\<close>

definition dtls_sess_put_packet ::
  "('x, 's, 'b, 'k, 'w) openssl \<Rightarrow> ('s, 'w) dtls_sess \<Rightarrow> int \<Rightarrow> bytes \<Rightarrow> bytes option \<Rightarrow> int \<Rightarrow>
   'w \<Rightarrow> (int \<times> ('s, 'w) dtls_sess \<times> 'w) outcome" where
  "dtls_sess_put_packet L sess carrier buf dest destlen w =
     (if buf = [] then Undefined
      else case ssl sess of None \<Rightarrow> Done (-1, sess, w)
      | Some s0 \<Rightarrow>
      if lock sess then Undefined
      else obind (dtls_sess_send_pending L (become_passive L sess s0) carrier dest destlen w)
        (\<lambda>(r1, sess2, w2).
      let s2 = snd (BIO_write L (the (ssl sess2)) buf) in
      case SSL_read L s2 (length buf) of (ret, s3) \<Rightarrow>
      let sess3 = sess2\<lparr>ssl := Some s3\<rparr> in
      if ret < 0 \<and> SSL_get_error L s3 ret = SSL_ERROR_SSL then Done (ret, sess3, w2)
      else obind (dtls_sess_send_pending L sess3 carrier dest destlen w2) (\<lambda>(r3, sess4, w4).
        Done (ret, if SSL_is_init_finished L (the (ssl sess4))
                   then sess4\<lparr>con_type := DTLS_CONTYPE_EXISTING\<rparr> else sess4, w4))))"

definition dtls_do_handshake ::
  "('x, 's, 'b, 'k, 'w) openssl \<Rightarrow> ('s, 'w) dtls_sess \<Rightarrow> int \<Rightarrow> bytes option \<Rightarrow> int \<Rightarrow> 'w \<Rightarrow>
   (int \<times> ('s, 'w) dtls_sess \<times> 'w) outcome" where
  "dtls_do_handshake L sess carrier dest destlen w =
     (case ssl sess of None \<Rightarrow> Done (0, sess, w)
      | Some s0 \<Rightarrow>
      if dtls_sess_get_state sess \<noteq> DTLS_CONSTATE_ACT \<and>
         dtls_sess_get_state sess \<noteq> DTLS_CONSTATE_ACTPASS then Done (0, sess, w)
      else let sess1 = (if dtls_sess_get_state sess = DTLS_CONSTATE_ACTPASS
                        then dtls_sess_set_state sess DTLS_CONSTATE_ACT else sess);
               sess2 = sess1\<lparr>ssl := Some (snd (SSL_do_handshake L s0))\<rparr> in
      if lock sess2 then Undefined
      else obind (dtls_sess_send_pending L (sess2\<lparr>lock := True\<rparr>) carrier dest destlen w)
        (\<lambda>(ret, sess3, w3). Done (ret, sess3\<lparr>lock := False\<rparr>, w3)))"

definition dtls_sess_handle_timeout ::
  "('x, 's, 'b, 'k, 'w) openssl \<Rightarrow> ('s, 'w) dtls_sess \<Rightarrow> int \<Rightarrow> bytes option \<Rightarrow> int \<Rightarrow> 'w \<Rightarrow>
   (int \<times> ('s, 'w) dtls_sess \<times> 'w) outcome" where
  "dtls_sess_handle_timeout L sess carrier dest destlen w =
     (case ssl sess of None \<Rightarrow> Undefined
      | Some s \<Rightarrow>
      dtls_sess_send_pending L
        (if SSL_is_init_finished L s then sess
         else sess\<lparr>ssl := Some (snd (DTLSv1_handle_timeout L s))\<rparr>) carrier dest destlen w)"

definition dtls_sess_setup ::
  "('x, 's, 'b, 'k, 'w) openssl \<Rightarrow> ('s, 'w) dtls_sess \<Rightarrow> ('s, 'w) dtls_sess" where
  "dtls_sess_setup L sess =
     (case ssl sess of None \<Rightarrow> sess
      | Some s \<Rightarrow>
      if \<not> SSL_is_init_finished L s then sess
      else sess\<lparr>ssl := Some (set_role L (state sess) (SSL_clear L s)), con_type := DTLS_CONTYPE_NEW\<rparr>)"

definition dtls_sess_reset ::
  "('x, 's, 'b, 'k, 'w) openssl \<Rightarrow> ('s, 'w) dtls_sess \<Rightarrow> ('s, 'w) dtls_sess outcome" where
  "dtls_sess_reset L sess =
     (case ssl sess of None \<Rightarrow> Undefined
      | Some s \<Rightarrow>
      Done (if SSL_is_init_finished L s
            then sess\<lparr>ssl := Some (snd (SSL_shutdown L s)), con_type := DTLS_CONTYPE_NEW\<rparr>
            else sess))"

definition dtls_sess_renegotiate ::
  "('x, 's, 'b, 'k, 'w) openssl \<Rightarrow> ('s, 'w) dtls_sess \<Rightarrow> int \<Rightarrow> bytes option \<Rightarrow> int \<Rightarrow> 'w \<Rightarrow>
   (('s, 'w) dtls_sess \<times> 'w) outcome" where
  "dtls_sess_renegotiate L sess carrier dest destlen w =
     (case ssl sess of None \<Rightarrow> Undefined
      | Some s \<Rightarrow>
      let s1 = snd (SSL_renegotiate L s); s2 = snd (SSL_do_handshake L s1) in
      obind (dtls_sess_send_pending L (sess\<lparr>ssl := Some s2\<rparr>) carrier dest destlen w)
        (\<lambda>(r, sess', w'). Done (sess', w')))"

definition dtls_sess_get_peer_certificate ::
  "('x, 's, 'b, 'k, 'w) openssl \<Rightarrow> ('s, 'w) dtls_sess \<Rightarrow> 'w \<Rightarrow> ('k option \<times> 'w) outcome" where
  "dtls_sess_get_peer_certificate L sess w =
     (case ssl sess of None \<Rightarrow> Undefined | Some s \<Rightarrow> Done (SSL_get_peer_certificate L s w))"

section \<open>Contract: the calls of a session\<close>

text \<open>An endpoint that may play both roles commits to one; every other state is kept.\<close>

definition role_step :: "dtls_con_state \<Rightarrow> dtls_con_state \<Rightarrow> bool" where
  "role_step a b \<longleftrightarrow> b = a \<or> a = DTLS_CONSTATE_ACTPASS \<and> (b = DTLS_CONSTATE_ACT \<or> b = DTLS_CONSTATE_PASS)"

lemma role_step_decreases: "role_step a b \<Longrightarrow> b \<le> a"
  by (auto simp: role_step_def less_eq_dtls_con_state_def)

lemma role_step_refl [simp]: "role_step a a"
  by (simp add: role_step_def)

lemma role_step_trans: "role_step a b \<Longrightarrow> role_step b c \<Longrightarrow> role_step a c"
  by (auto simp: role_step_def)

definition sess_keeps :: "('s, 'w) dtls_sess \<Rightarrow> ('s, 'w) dtls_sess \<Rightarrow> bool" where
  "sess_keeps a b \<longleftrightarrow> lock b = lock a \<and> sink b = sink a \<and> (ssl b = None \<longleftrightarrow> ssl a = None) \<and>
     role_step (state a) (state b)"

lemma sess_keeps_refl [simp]: "sess_keeps a a"
  by (simp add: sess_keeps_def)

lemma sess_keeps_trans: "sess_keeps a b \<Longrightarrow> sess_keeps b c \<Longrightarrow> sess_keeps a c"
  by (auto simp: sess_keeps_def intro: role_step_trans)

fun calls_run ::
  "('c \<Rightarrow> ('s, 'w) dtls_sess \<Rightarrow> 'w \<Rightarrow> (int \<times> ('s, 'w) dtls_sess \<times> 'w) outcome) \<Rightarrow> 'c list \<Rightarrow>
   ('s, 'w) dtls_sess \<Rightarrow> 'w \<Rightarrow> (int list \<times> ('s, 'w) dtls_sess \<times> 'w) outcome" where
  "calls_run call [] s w = Done ([], s, w)"
| "calls_run call (c # cs) s w =
     obind (call c s w) (\<lambda>(r, s1, w1).
     obind (calls_run call cs s1 w1) (\<lambda>(rs, s2, w2). Done (r # rs, s2, w2)))"

locale session_calls =
  fixes call :: "'c \<Rightarrow> ('s, 'w) dtls_sess \<Rightarrow> 'w \<Rightarrow> (int \<times> ('s, 'w) dtls_sess \<times> 'w) outcome"
  assumes call_keeps: "call c s w = Done (r, s', w') \<Longrightarrow> sess_keeps s s'"
begin

lemma run_keeps: "calls_run call cs s w = Done (rs, s', w') \<Longrightarrow> sess_keeps s s'"
proof (induction cs arbitrary: s w rs)
  case Nil
  then show ?case by simp
next
  case (Cons c cs)
  then obtain r s1 w1 rs1 where "call c s w = Done (r, s1, w1)"
      "calls_run call cs s1 w1 = Done (rs1, s', w')"
    by auto
  then show ?case using Cons.IH call_keeps sess_keeps_trans by metis
qed

lemma run_committed:
  assumes "calls_run call cs s w = Done (rs, s', w')" and "state s \<noteq> DTLS_CONSTATE_ACTPASS"
  shows "state s' = state s"
  using run_keeps [OF assms(1)] assms(2) by (simp add: sess_keeps_def role_step_def)

lemma run_state_decreases: "calls_run call cs s w = Done (rs, s', w') \<Longrightarrow> state s' \<le> state s"
  using run_keeps by (blast intro: role_step_decreases dest: sess_keeps_def [THEN iffD1])

text \<open>Once a run has left \<open>DTLS_CONSTATE_ACTPASS\<close>, what follows does not change the role again.\<close>

lemma run_role_agrees:
  assumes "calls_run call cs s w = Done (rs, s1, w1)" and "state s1 \<noteq> state s"
    and "calls_run call cs' s1 w1 = Done (rs', s2, w2)"
  shows "state s2 = state s1 \<and> (state s1 = DTLS_CONSTATE_ACT \<or> state s1 = DTLS_CONSTATE_PASS)"
  using run_keeps [OF assms(1)] run_committed [OF assms(3)] assms(2)
  by (auto simp: sess_keeps_def role_step_def)

end

text \<open>
  The calls of the library that work on a session. The raw setters \<open>dtls_sess_set_state\<close> and
  \<open>dtls_sess_set_sink\<close> of the header are left out: they overwrite a field whatever the \<open>SSL\<close> and
  the transport are. The library itself uses the first where the role is set and the second at
  creation; those uses are modelled in place.
\<close>

datatype dtls_api = Put_packet bytes | Do_handshake | Handle_timeout | Send_pending | Setup | Reset | Renegotiate

fun dtls_api_call ::
  "('x, 's, 'b, 'k, 'w) openssl \<Rightarrow> int \<Rightarrow> bytes option \<Rightarrow> int \<Rightarrow> dtls_api \<Rightarrow> ('s, 'w) dtls_sess \<Rightarrow>
   'w \<Rightarrow> (int \<times> ('s, 'w) dtls_sess \<times> 'w) outcome" where
  "dtls_api_call L c dest n (Put_packet buf) s w = dtls_sess_put_packet L s c buf dest n w"
| "dtls_api_call L c dest n Do_handshake s w = dtls_do_handshake L s c dest n w"
| "dtls_api_call L c dest n Handle_timeout s w = dtls_sess_handle_timeout L s c dest n w"
| "dtls_api_call L c dest n Send_pending s w = dtls_sess_send_pending L s c dest n w"
| "dtls_api_call L c dest n Setup s w = Done (0, dtls_sess_setup L s, w)"
| "dtls_api_call L c dest n Reset s w = obind (dtls_sess_reset L s) (\<lambda>s'. Done (0, s', w))"
| "dtls_api_call L c dest n Renegotiate s w =
     obind (dtls_sess_renegotiate L s c dest n w) (\<lambda>(s', w'). Done (0, s', w'))"

lemma send_pending_cases:
  assumes "dtls_sess_send_pending L s c dest n w = Done (r, s', w')"
  obtains (null) "ssl s = None" "r = -2" "s' = s" "w' = w"
  | (idle) x where "ssl s = Some x" "BIO_ctrl_pending L x = 0" "r = 0" "s' = s" "w' = w"
  | (sent) x k out bs y where "ssl s = Some x" "0 < BIO_ctrl_pending L x"
      "BIO_read L x (BIO_ctrl_pending L x) = (out, bs, y)" "sink s = Some k" "0 \<le> out"
      "sink_sendto k c (take (nat out) bs) 0 dest n
         (case sink_sched k of None \<Rightarrow> w | Some f \<Rightarrow> f c (dtls_sess_get_timeout L y) w) = (r, w')"
      "s' = s\<lparr>ssl := Some y\<rparr>"
proof (cases "ssl s")
  case None
  with assms have "r = -2" "s' = s" "w' = w" by (simp_all add: dtls_sess_send_pending_def)
  with None show thesis by (rule null)
next
  case (Some x)
  obtain out bs y where rd: "BIO_read L x (BIO_ctrl_pending L x) = (out, bs, y)" by (metis surj_pair)
  show thesis
  proof (cases "BIO_ctrl_pending L x = 0")
    case True
    with assms Some have "r = 0" "s' = s" "w' = w" by (simp_all add: dtls_sess_send_pending_def)
    with Some True show thesis by (rule idle)
  next
    case False
    with assms Some rd obtain k where k: "sink s = Some k" "0 \<le> out"
      by (cases "sink s") (auto simp: dtls_sess_send_pending_def Let_def split: if_splits)
    let ?w1 = "case sink_sched k of None \<Rightarrow> w | Some f \<Rightarrow> f c (dtls_sess_get_timeout L y) w"
    obtain r1 w1 where st: "sink_sendto k c (take (nat out) bs) 0 dest n ?w1 = (r1, w1)"
      by (metis surj_pair)
    from False assms Some rd k st have "r1 = r" "w1 = w'" "s' = s\<lparr>ssl := Some y\<rparr>"
      by (simp_all add: dtls_sess_send_pending_def)
    with Some False rd k st show thesis by (intro sent) auto
  qed
qed

lemma send_pending_frame:
  assumes "dtls_sess_send_pending L s c dest n w = Done (r, s', w')"
  shows "state s' = state s" "lock s' = lock s" "sink s' = sink s" "con_type s' = con_type s"
    "ssl s' = None \<longleftrightarrow> ssl s = None"
proof -
  have "state s' = state s \<and> lock s' = lock s \<and> sink s' = sink s \<and> con_type s' = con_type s \<and>
      (ssl s' = None \<longleftrightarrow> ssl s = None)"
    using assms by (cases rule: send_pending_cases) simp_all
  then show "state s' = state s" "lock s' = lock s" "sink s' = sink s" "con_type s' = con_type s"
    "ssl s' = None \<longleftrightarrow> ssl s = None"
    by blast+
qed

lemma send_pending_keeps: "dtls_sess_send_pending L s c dest n w = Done (r, s', w') \<Longrightarrow> sess_keeps s s'"
  by (simp add: sess_keeps_def send_pending_frame)

text \<open>The ways through \<open>dtls_sess_put_packet\<close>: no \<open>SSL\<close>, an SSL error, and success.\<close>

lemma put_packet_cases:
  assumes "dtls_sess_put_packet L s c buf dest n w = Done (r, s', w')"
  obtains (null) "ssl s = None" "r = -1" "s' = s" "w' = w"
  | (failed) s0 r1 s2 s3 where "ssl s = Some s0" "\<not> lock s"
      "dtls_sess_send_pending L (become_passive L s s0) c dest n w = Done (r1, s2, w')"
      "SSL_read L (snd (BIO_write L (the (ssl s2)) buf)) (length buf) = (r, s3)"
      "r < 0" "SSL_get_error L s3 r = SSL_ERROR_SSL" "s' = s2\<lparr>ssl := Some s3\<rparr>"
  | (read) s0 r1 s2 w2 s3 r3 s4 where "ssl s = Some s0" "\<not> lock s"
      "dtls_sess_send_pending L (become_passive L s s0) c dest n w = Done (r1, s2, w2)"
      "SSL_read L (snd (BIO_write L (the (ssl s2)) buf)) (length buf) = (r, s3)"
      "\<not> (r < 0 \<and> SSL_get_error L s3 r = SSL_ERROR_SSL)"
      "dtls_sess_send_pending L (s2\<lparr>ssl := Some s3\<rparr>) c dest n w2 = Done (r3, s4, w')"
      "s' = (if SSL_is_init_finished L (the (ssl s4)) then s4\<lparr>con_type := DTLS_CONTYPE_EXISTING\<rparr> else s4)"
proof (cases "ssl s")
  case None
  then show thesis using assms null by (auto simp: dtls_sess_put_packet_def split: if_splits)
next
  case (Some s0)
  from assms Some obtain r1 s2 w2 where
    1: "\<not> lock s" "dtls_sess_send_pending L (become_passive L s s0) c dest n w = Done (r1, s2, w2)"
    by (auto simp: dtls_sess_put_packet_def split: if_splits)
  obtain ret s3 where 2: "SSL_read L (snd (BIO_write L (the (ssl s2)) buf)) (length buf) = (ret, s3)"
    by fastforce
  show thesis
  proof (cases "ret < 0 \<and> SSL_get_error L s3 ret = SSL_ERROR_SSL")
    case True
    with assms Some 1 2 have "r = ret" "s' = s2\<lparr>ssl := Some s3\<rparr>" "w' = w2"
      by (auto simp: dtls_sess_put_packet_def Let_def split: if_splits)
    with True Some 1 2 show thesis by (intro failed) auto
  next
    case False
    with assms Some 1 2 obtain r3 s4 where "r = ret"
        "dtls_sess_send_pending L (s2\<lparr>ssl := Some s3\<rparr>) c dest n w2 = Done (r3, s4, w')"
        "s' = (if SSL_is_init_finished L (the (ssl s4)) then s4\<lparr>con_type := DTLS_CONTYPE_EXISTING\<rparr> else s4)"
      by (auto simp: dtls_sess_put_packet_def Let_def split: if_splits)
    with False Some 1 2 show thesis by (intro read) auto
  qed
qed

lemma become_passive_keeps: "ssl s = Some s0 \<Longrightarrow> sess_keeps s (become_passive L s s0)"
  by (simp add: sess_keeps_def become_passive_def role_step_def)

lemma sess_keeps_ssl: "sess_keeps a b \<Longrightarrow> ssl a \<noteq> None \<Longrightarrow> sess_keeps a (b\<lparr>ssl := Some x\<rparr>)"
  by (simp add: sess_keeps_def)

lemma sess_keeps_type [simp]: "sess_keeps a (b\<lparr>con_type := t\<rparr>) = sess_keeps a b"
  by (simp add: sess_keeps_def)

lemma put_packet_keeps:
  assumes "dtls_sess_put_packet L s c buf dest n w = Done (r, s', w')"
  shows "sess_keeps s s'"
  using assms
proof (cases rule: put_packet_cases)
  case (failed s0 r1 s2 s3)
  have "sess_keeps s s2"
    using become_passive_keeps [OF failed(1)] send_pending_keeps [OF failed(3)] by (rule sess_keeps_trans)
  then show ?thesis using failed(1,7) by (simp add: sess_keeps_ssl)
next
  case (read s0 r1 s2 w2 s3 r3 s4)
  have "sess_keeps s s2"
    using become_passive_keeps [OF read(1)] send_pending_keeps [OF read(3)] by (rule sess_keeps_trans)
  then have "sess_keeps s (s2\<lparr>ssl := Some s3\<rparr>)" using read(1) by (simp add: sess_keeps_ssl)
  with send_pending_keeps [OF read(6)] have "sess_keeps s s4" using sess_keeps_trans by blast
  then show ?thesis using read(7) by simp
qed simp

lemma do_handshake_keeps:
  assumes "dtls_do_handshake L s c dest n w = Done (r, s', w')"
  shows "sess_keeps s s'"
  using assms
  by (auto simp: dtls_do_handshake_def Let_def dtls_sess_get_state_def dtls_sess_set_state_def
      sess_keeps_def role_step_def split: option.splits if_splits dest: send_pending_frame)

lemma handle_timeout_keeps:
  assumes "dtls_sess_handle_timeout L s c dest n w = Done (r, s', w')"
  shows "sess_keeps s s'"
  using assms
  by (auto simp: dtls_sess_handle_timeout_def sess_keeps_def split: option.splits if_splits
      dest: send_pending_frame)

lemma setup_keeps: "sess_keeps s (dtls_sess_setup L s)"
  by (simp add: dtls_sess_setup_def sess_keeps_def split: option.split)

lemma reset_keeps: "dtls_sess_reset L s = Done s' \<Longrightarrow> sess_keeps s s'"
  by (auto simp: dtls_sess_reset_def sess_keeps_def split: option.splits if_splits)

lemma renegotiate_keeps: "dtls_sess_renegotiate L s c dest n w = Done (s', w') \<Longrightarrow> sess_keeps s s'"
  by (auto simp: dtls_sess_renegotiate_def sess_keeps_def Let_def split: option.splits
      dest: send_pending_frame)

lemmas api_keeps = put_packet_keeps do_handshake_keeps handle_timeout_keeps send_pending_keeps
  setup_keeps reset_keeps renegotiate_keeps

interpretation dtls_calls: session_calls "dtls_api_call L c dest n" for L c dest n
proof
  show "sess_keeps s s'" if "dtls_api_call L c dest n call s w = Done (r, s', w')" for call s w r s' w'
    using that by (cases call) (auto intro: api_keeps)
qed

section \<open>Invariants of the \<open>SSL\<close> over a run\<close>

text \<open>
  \<open>P\<close> relates the state of a session to its \<open>SSL\<close>; \<open>ssl_inv\<close> collects what the calls of the
  library have to keep of it, \<open>sess_inv\<close> lifts it to sessions.
\<close>

definition ssl_inv ::
  "('x, 's, 'b, 'k, 'w) openssl \<Rightarrow> (dtls_con_state \<Rightarrow> 's \<Rightarrow> bool) \<Rightarrow> bool" where
  "ssl_inv L P \<longleftrightarrow>
     (\<forall>st x n. P st x \<longrightarrow> P st (snd (snd (BIO_read L x n))) \<and> P st (snd (SSL_read L x n))) \<and>
     (\<forall>st x bs. P st x \<longrightarrow> P st (snd (BIO_write L x bs))) \<and>
     (\<forall>st x. P st x \<longrightarrow> P st (snd (SSL_do_handshake L x)) \<and> P st (snd (DTLSv1_handle_timeout L x)) \<and>
        P st (snd (SSL_shutdown L x)) \<and> P st (snd (SSL_renegotiate L x)) \<and>
        P st (set_role L st (SSL_clear L x))) \<and>
     (\<forall>x. P DTLS_CONSTATE_ACTPASS x \<longrightarrow> P DTLS_CONSTATE_ACT x \<and>
        P DTLS_CONSTATE_PASS (SSL_set_accept_state L x))"

definition sess_inv :: "(dtls_con_state \<Rightarrow> 's \<Rightarrow> bool) \<Rightarrow> ('s, 'w) dtls_sess \<Rightarrow> bool" where
  "sess_inv P s \<longleftrightarrow> (\<forall>x. ssl s = Some x \<longrightarrow> P (state s) x)"

lemma sess_invI: "(\<And>x. ssl s = Some x \<Longrightarrow> P (state s) x) \<Longrightarrow> sess_inv P s"
  by (simp add: sess_inv_def)

lemma sess_inv_upd [simp]:
  "sess_inv P (s\<lparr>ssl := Some x\<rparr>) = P (state s) x"
  "sess_inv P (s\<lparr>lock := b\<rparr>) = sess_inv P s"
  "sess_inv P (s\<lparr>con_type := t\<rparr>) = sess_inv P s"
  by (simp_all add: sess_inv_def)

lemma ssl_invD:
  assumes "ssl_inv L P" and "P st x"
  shows "BIO_read L x m = (i, bs, y) \<Longrightarrow> P st y" "SSL_read L x m = (i, y) \<Longrightarrow> P st y"
    "P st (snd (BIO_write L x bs'))" "P st (snd (SSL_do_handshake L x))"
    "P st (snd (DTLSv1_handle_timeout L x))" "P st (snd (SSL_shutdown L x))"
    "P st (snd (SSL_renegotiate L x))" "P st (set_role L st (SSL_clear L x))"
proof -
  have "P st (snd (snd (BIO_read L x m)))" "P st (snd (SSL_read L x m))" for m
    using assms by (simp_all add: ssl_inv_def)
  from this [of m] show "BIO_read L x m = (i, bs, y) \<Longrightarrow> P st y" "SSL_read L x m = (i, y) \<Longrightarrow> P st y"
    by simp_all
qed (use assms in \<open>simp_all add: ssl_inv_def\<close>)

lemma ssl_inv_commit:
  assumes "ssl_inv L P" and "P DTLS_CONSTATE_ACTPASS x"
  shows "P DTLS_CONSTATE_ACT x" "P DTLS_CONSTATE_PASS (SSL_set_accept_state L x)"
  using assms by (simp_all add: ssl_inv_def)

lemma send_pending_inv:
  assumes "ssl_inv L P" and "dtls_sess_send_pending L s c dest n w = Done (r, s', w')"
    and "sess_inv P s"
  shows "sess_inv P s'"
  using assms(2)
proof (cases rule: send_pending_cases)
  case (sent x k out bs y)
  then show ?thesis using assms(3) ssl_invD(1) [OF assms(1) _ sent(3)] by (simp add: sess_inv_def)
qed (use assms(3) in simp_all)

lemma put_packet_inv:
  assumes inv: "ssl_inv L P" and put: "dtls_sess_put_packet L s c buf dest n w = Done (r, s', w')"
    and ok: "sess_inv P s"
  shows "sess_inv P s'"
proof -
  have pas: "sess_inv P (become_passive L s s0)" if "ssl s = Some s0" for s0
    using that ok ssl_inv_commit(2) [OF inv, of s0] by (auto simp: become_passive_def sess_inv_def)
  have fed: "sess_inv P (a\<lparr>ssl := Some y\<rparr>)"
    if a: "dtls_sess_send_pending L (become_passive L s s0) c dest n w = Done (r1, a, w1)" "ssl s = Some s0"
      "SSL_read L (snd (BIO_write L (the (ssl a)) buf)) m = (i, y)" for a y m i s0 r1 w1
  proof -
    have "sess_inv P a" using send_pending_inv [OF inv a(1)] pas [OF a(2)] by blast
    moreover obtain x where x: "ssl a = Some x"
      using send_pending_frame(5) [OF a(1)] a(2) by (auto simp: become_passive_def split: if_splits)
    ultimately have "P (state a) (snd (BIO_write L (the (ssl a)) buf))"
      by (simp add: sess_inv_def ssl_invD(3) [OF inv])
    then show ?thesis using ssl_invD(2) [OF inv _ a(3)] by simp
  qed
  from put show ?thesis
  proof (cases rule: put_packet_cases)
    case (failed s0 r1 s2 s3)
    then show ?thesis using fed [OF failed(3,1,4)] by simp
  next
    case (read s0 r1 s2 w2 s3 r3 s4)
    have "sess_inv P s4" using fed [OF read(3,1,4)] send_pending_inv [OF inv read(6)] by blast
    then show ?thesis using read(7) by simp
  qed (use ok in simp)
qed

text \<open>The two ways through \<open>dtls_do_handshake\<close>.\<close>

lemma do_handshake_cases:
  assumes "dtls_do_handshake L s c dest n w = Done (r, s', w')"
  obtains (idle) "r = 0" "s' = s" "w' = w"
    "ssl s = None \<or> state s \<noteq> DTLS_CONSTATE_ACT \<and> state s \<noteq> DTLS_CONSTATE_ACTPASS"
  | (sent) s0 s3 where "ssl s = Some s0" "state s = DTLS_CONSTATE_ACT \<or> state s = DTLS_CONSTATE_ACTPASS"
      "\<not> lock s"
      "dtls_sess_send_pending L (s\<lparr>state := DTLS_CONSTATE_ACT, ssl := Some (snd (SSL_do_handshake L s0)),
         lock := True\<rparr>) c dest n w = Done (r, s3, w')"
      "s' = s3\<lparr>lock := False\<rparr>"
proof (cases "ssl s")
  case None
  then show thesis using assms idle by (simp add: dtls_do_handshake_def)
next
  case (Some s0)
  show thesis
  proof (cases "state s = DTLS_CONSTATE_ACT \<or> state s = DTLS_CONSTATE_ACTPASS")
    case False
    then show thesis using assms idle Some by (simp add: dtls_do_handshake_def dtls_sess_get_state_def)
  next
    case True
    have act: "(if state s = DTLS_CONSTATE_ACTPASS then s\<lparr>state := DTLS_CONSTATE_ACT\<rparr> else s) =
        s\<lparr>state := DTLS_CONSTATE_ACT\<rparr>"
      using True by auto
    from assms Some True obtain s3 where "\<not> lock s"
        "dtls_sess_send_pending L (s\<lparr>state := DTLS_CONSTATE_ACT, ssl := Some (snd (SSL_do_handshake L s0)),
           lock := True\<rparr>) c dest n w = Done (r, s3, w')" "s' = s3\<lparr>lock := False\<rparr>"
      unfolding dtls_do_handshake_def dtls_sess_get_state_def dtls_sess_set_state_def Let_def act
      by (auto split: if_splits)
    then show thesis using sent Some True by blast
  qed
qed

lemma do_handshake_inv:
  assumes inv: "ssl_inv L P" and d: "dtls_do_handshake L s c dest n w = Done (r, s', w')"
    and ok: "sess_inv P s"
  shows "sess_inv P s'"
  using d
proof (cases rule: do_handshake_cases)
  case (sent s0 s3)
  have "P DTLS_CONSTATE_ACT s0" using ok sent(1,2) ssl_inv_commit(1) [OF inv] by (auto simp: sess_inv_def)
  then have "sess_inv P (s\<lparr>state := DTLS_CONSTATE_ACT, ssl := Some (snd (SSL_do_handshake L s0)), lock := True\<rparr>)"
    using ssl_invD(4) [OF inv] by simp
  then show ?thesis using send_pending_inv [OF inv sent(4)] sent(5) by simp
qed (use ok in simp)

text \<open>The two header functions that send after an operation of the library.\<close>

lemma handle_timeout_cases:
  assumes "dtls_sess_handle_timeout L s c dest n w = Done (r, s', w')"
  obtains x where "ssl s = Some x"
    "dtls_sess_send_pending L (if SSL_is_init_finished L x then s
       else s\<lparr>ssl := Some (snd (DTLSv1_handle_timeout L x))\<rparr>) c dest n w = Done (r, s', w')"
  using assms by (auto simp: dtls_sess_handle_timeout_def split: option.splits)

lemma renegotiate_cases:
  assumes "dtls_sess_renegotiate L s c dest n w = Done (s', w')"
  obtains x r where "ssl s = Some x"
    "dtls_sess_send_pending L (s\<lparr>ssl := Some (snd (SSL_do_handshake L (snd (SSL_renegotiate L x))))\<rparr>)
       c dest n w = Done (r, s', w')"
  using assms by (auto simp: dtls_sess_renegotiate_def Let_def split: option.splits)

lemma handle_timeout_inv:
  assumes inv: "ssl_inv L P" and d: "dtls_sess_handle_timeout L s c dest n w = Done (r, s', w')"
    and ok: "sess_inv P s"
  shows "sess_inv P s'"
  using d
proof (cases rule: handle_timeout_cases)
  case (1 x)
  have "P (state s) x" using ok 1(1) by (simp add: sess_inv_def)
  then have "sess_inv P (if SSL_is_init_finished L x then s
      else s\<lparr>ssl := Some (snd (DTLSv1_handle_timeout L x))\<rparr>)"
    using ok ssl_invD(5) [OF inv] by simp
  then show ?thesis using send_pending_inv [OF inv 1(2)] by blast
qed

lemma renegotiate_inv:
  assumes inv: "ssl_inv L P" and d: "dtls_sess_renegotiate L s c dest n w = Done (s', w')"
    and ok: "sess_inv P s"
  shows "sess_inv P s'"
  using d
proof (cases rule: renegotiate_cases)
  case (1 x r)
  have "P (state s) x" using ok 1(1) by (simp add: sess_inv_def)
  then have "sess_inv P (s\<lparr>ssl := Some (snd (SSL_do_handshake L (snd (SSL_renegotiate L x))))\<rparr>)"
    by (simp add: ssl_invD(4,7) [OF inv])
  then show ?thesis using send_pending_inv [OF inv 1(2)] by blast
qed

lemma setup_inv: "ssl_inv L P \<Longrightarrow> sess_inv P s \<Longrightarrow> sess_inv P (dtls_sess_setup L s)"
  by (auto simp: dtls_sess_setup_def sess_inv_def ssl_invD(8) split: option.split)

lemma reset_inv: "ssl_inv L P \<Longrightarrow> dtls_sess_reset L s = Done s' \<Longrightarrow> sess_inv P s \<Longrightarrow> sess_inv P s'"
  by (auto simp: dtls_sess_reset_def sess_inv_def ssl_invD(6) split: option.splits if_splits)

lemma api_inv:
  assumes "ssl_inv L P" and "dtls_api_call L c dest n call s w = Done (r, s', w')" and "sess_inv P s"
  shows "sess_inv P s'"
  using assms(2,3)
  by (cases call) (auto intro: put_packet_inv do_handshake_inv handle_timeout_inv send_pending_inv
      setup_inv reset_inv renegotiate_inv assms(1))

section \<open>Effects on the process\<close>

text \<open>An observation of the process that sending and scheduling leave alone.\<close>

definition sink_keeps :: "('w \<Rightarrow> 'a) \<Rightarrow> 'w dsink option \<Rightarrow> bool" where
  "sink_keeps f k \<longleftrightarrow> (\<forall>k'. k = Some k' \<longrightarrow>
     (\<forall>c bs fl dest n w. f (snd (sink_sendto k' c bs fl dest n w)) = f w) \<and>
     (\<forall>g c tv w. sink_sched k' = Some g \<longrightarrow> f (g c tv w) = f w))"

lemma send_pending_world:
  assumes "sink_keeps f (sink s)" and "dtls_sess_send_pending L s c dest n w = Done (r, s', w')"
  shows "f w' = f w"
  using assms(2)
proof (cases rule: send_pending_cases)
  case (sent x k out bs y)
  let ?w1 = "case sink_sched k of None \<Rightarrow> w | Some f \<Rightarrow> f c (dtls_sess_get_timeout L y) w"
  have "f ?w1 = f w" using assms(1) sent(4) by (simp add: sink_keeps_def split: option.split)
  moreover have "f (snd (sink_sendto k c (take (nat out) bs) 0 dest n ?w1)) = f ?w1"
    using assms(1) sent(4) by (simp add: sink_keeps_def)
  ultimately show ?thesis using sent(6) by simp
qed simp_all

lemma api_world:
  assumes k: "sink_keeps f (sink s)" and d: "dtls_api_call L c dest n call s w = Done (r, s', w')"
  shows "f w' = f w"
proof -
  have sp: "f w2 = f w1" if "dtls_sess_send_pending L a c dest n w1 = Done (r1, b, w2)" "sink a = sink s"
    for a b w1 w2 r1 using send_pending_world [OF _ that(1)] k that(2) by simp
  show ?thesis
  proof (cases call)
    case (Put_packet buf)
    with d have "dtls_sess_put_packet L s c buf dest n w = Done (r, s', w')" by simp
    then show ?thesis
    proof (cases rule: put_packet_cases)
      case (failed s0 r1 s2 s3)
      then show ?thesis by (auto intro: sp simp: become_passive_def)
    next
      case (read s0 r1 s2 w2 s3 r3 s4)
      have "sink s2 = sink s" using send_pending_frame(3) [OF read(3)] by (simp add: become_passive_def)
      then have "f w' = f w2" by (intro sp [OF read(6)]) simp
      moreover have "f w2 = f w" by (rule sp [OF read(3)]) (simp add: become_passive_def)
      ultimately show ?thesis by simp
    qed simp
  next
    case Do_handshake
    with d have "dtls_do_handshake L s c dest n w = Done (r, s', w')" by simp
    then show ?thesis by (cases rule: do_handshake_cases) (auto dest: sp)
  next
    case Handle_timeout
    with d have "dtls_sess_handle_timeout L s c dest n w = Done (r, s', w')" by simp
    then show ?thesis by (cases rule: handle_timeout_cases) (auto dest: sp split: if_splits)
  next
    case Renegotiate
    with d have "dtls_sess_renegotiate L s c dest n w = Done (s', w')" by (auto)
    then show ?thesis by (cases rule: renegotiate_cases) (auto dest: sp)
  qed (use d sp in auto)
qed

text \<open>Invariants of a session and its process over a run.\<close>

lemma calls_run_inv:
  assumes "\<And>c s w r s' w'. call c s w = Done (r, s', w') \<Longrightarrow> I s w \<Longrightarrow> I s' w'"
    and "calls_run call cs s w = Done (rs, s', w')" and "I s w"
  shows "I s' w'"
  using assms(2,3)
proof (induction cs arbitrary: s w rs)
  case (Cons c cs)
  then obtain r s1 w1 rs1 where "call c s w = Done (r, s1, w1)"
      "calls_run call cs s1 w1 = Done (rs1, s', w')"
    by auto
  then show ?case using Cons.IH Cons.prems(2) assms(1) by blast
qed simp

lemma run_inv:
  assumes "ssl_inv L P" and "calls_run (dtls_api_call L c dest n) cs s w = Done (rs, s', w')"
    and "sess_inv P s"
  shows "sess_inv P s'"
  using calls_run_inv [where I = "\<lambda>s w. sess_inv P s", OF _ assms(2)] api_inv [OF assms(1)] assms(3)
  by blast

lemma run_world:
  assumes "sink_keeps f (sink s)" and "calls_run (dtls_api_call L c dest n) cs s w = Done (rs, s', w')"
  shows "f w' = f w"
proof -
  have "sink_keeps f (sink s') \<and> f w' = f w"
    by (rule calls_run_inv [where I = "\<lambda>t v. sink_keeps f (sink t) \<and> f v = f w", OF _ assms(2)])
      (use assms(1) in \<open>auto dest: api_world dtls_calls.call_keeps simp: sess_keeps_def\<close>)
  then show ?thesis by simp
qed

end
