(* ===== verification/Dtls_Guarantees.thy ===== *)
theory Dtls_Guarantees
  imports Dtls_Session
begin

text \<open>
  What holds of a DTLS session over every sequence of calls: its role and that of the \<open>SSL\<close>
  agree, the calls return, what the library has to send is handed to the sink, and a session
  gives back what it took.
\<close>

section \<open>Creation\<close>

lemma sess_new_cases:
  assumes "dtls_sess_new L ctx k st w = Done (Some s, w')"
  obtains w0 x w1 rbio w2 wbio where "c_calloc L w = (True, w0)" "SSL_new L ctx w0 = (Some x, w1)"
    "BIO_new_mem L w1 = (Some rbio, w2)" "BIO_new_mem L w2 = (Some wbio, w')"
    "s = \<lparr>ssl = Some (set_role L (con_state_of st) (SSL_set_bio L x (BIO_set_mem_eof_return L rbio (-1))
       (BIO_set_mem_eof_return L wbio (-1)))), sink = k, state = con_state_of st,
       con_type = DTLS_CONTYPE_NEW, lock = False\<rparr>"
  using assms unfolding dtls_sess_new_def dtls_sess_set_sink_def Let_def
  by (auto split: prod.splits bool.splits option.splits)

lemma sess_new_frame:
  assumes "dtls_sess_new L ctx k st w = Done (Some s, w')"
  shows "\<not> lock s" "sink s = k" "ssl s \<noteq> None" "state s = con_state_of st"
  using assms by (cases rule: sess_new_cases; simp)+

section \<open>Roles\<close>

definition role_agrees :: "('s \<Rightarrow> bool) \<Rightarrow> dtls_con_state \<Rightarrow> 's \<Rightarrow> bool" where
  "role_agrees server st x \<longleftrightarrow> server x = (st = DTLS_CONSTATE_PASS)"

lemma roles_inv: "ssl_roles L server \<Longrightarrow> ssl_inv L (role_agrees server)"
  by (simp add: ssl_roles_def ssl_inv_def role_agrees_def set_role_def)

lemma sess_new_role:
  assumes "ssl_roles L server" and "dtls_sess_new L ctx k st w = Done (Some s, w')"
  shows "sess_inv (role_agrees server) s"
  using assms(2)
  by (cases rule: sess_new_cases)
    (use assms(1) in \<open>simp add: sess_inv_def role_agrees_def set_role_def ssl_roles_def\<close>)

text \<open>
  (C8) After any sequence of \<open>dtls_sess_put_packet\<close>, \<open>dtls_do_handshake\<close>,
  \<open>dtls_sess_handle_timeout\<close>, \<open>dtls_sess_send_pending\<close>, \<open>dtls_sess_setup\<close>, \<open>dtls_sess_reset\<close> and
  \<open>dtls_sess_renegotiate\<close> on a new session (the type \<open>dtls_api\<close>; the raw setters are not among
  them), its \<open>SSL\<close> plays the server if and only if the state of the session is
  \<open>DTLS_CONSTATE_PASS\<close>, the mutex is free, and the state is the one asked for, unless that was
  \<open>DTLS_CONSTATE_ACTPASS\<close> and the session has committed to a role.
\<close>

theorem dtls_session_roles:
  assumes roles: "ssl_roles L server" and new: "dtls_sess_new L ctx k st w = Done (Some s, w1)"
    and run: "calls_run (dtls_api_call L c dest n) cs s w1 = Done (rs, s', w')"
  shows "\<exists>x. ssl s' = Some x \<and> (server x \<longleftrightarrow> state s' = DTLS_CONSTATE_PASS) \<and> \<not> lock s' \<and>
    role_step (con_state_of st) (state s')"
proof -
  have "sess_inv (role_agrees server) s'"
    using run_inv [OF roles_inv [OF roles] run sess_new_role [OF roles new]] .
  moreover have "sess_keeps s s'" using dtls_calls.run_keeps [OF run] .
  ultimately show ?thesis
    using sess_new_frame [OF new] by (auto simp: sess_keeps_def sess_inv_def role_agrees_def)
qed

text \<open>
  The setter \<open>dtls_sess_set_state\<close> of the header is no such call: used by an application it tears
  state and role apart.
\<close>

lemma set_state_breaks_role:
  assumes "sess_inv (role_agrees server) s" and "ssl s \<noteq> None" and "state s \<noteq> DTLS_CONSTATE_PASS"
  shows "\<not> sess_inv (role_agrees server) (dtls_sess_set_state s DTLS_CONSTATE_PASS)"
  using assms by (auto simp: sess_inv_def role_agrees_def dtls_sess_set_state_def)

text \<open>A session of the witnesses, able to play both roles, that receives a packet first.\<close>

definition toy_new :: "(toy_conn, toy_world) dtls_sess" where
  "toy_new = \<lparr>ssl = Some \<lparr>toy_server = False, toy_done = False, toy_out = [], toy_in = [], toy_bios = 2\<rparr>,
     sink = Some (dsink_udp_getsink toy_sendto), state = DTLS_CONSTATE_ACTPASS,
     con_type = DTLS_CONTYPE_NEW, lock = False\<rparr>"

lemmas toy_simps = toy_ssl_def toy_new_def toy_sendto_def udp_sendto_def con_state_of_def set_role_def
  dtls_sess_set_sink_def dtls_sess_get_state_def dtls_sess_set_state_def

lemma toy_sess_new:
  "dtls_sess_new toy_ssl (Some (0, [])) (Some (dsink_udp_getsink toy_sendto)) 2 (1, 0, []) =
     Done (Some toy_new, (4, 1, []))"
  by (simp add: dtls_sess_new_def toy_simps)

definition toy_passive :: "(toy_conn, toy_world) dtls_sess" where
  "toy_passive = toy_new\<lparr>ssl := Some \<lparr>toy_server = True, toy_done = True, toy_out = [], toy_in = [],
     toy_bios = 2\<rparr>, state := DTLS_CONSTATE_PASS, con_type := DTLS_CONTYPE_EXISTING\<rparr>"

lemma toy_send_idle: "dtls_sess_send_pending toy_ssl toy_passive c dest n w = Done (0, toy_passive, w)"
  by (simp add: dtls_sess_send_pending_def toy_passive_def toy_simps)

lemma toy_put:
  "dtls_sess_put_packet toy_ssl toy_new 5 [22] None 0 (4, 1, []) =
     Done (-1, toy_passive, (4, 1, [(5, [1, 2])]))"
  by (simp add: dtls_sess_put_packet_def dtls_sess_send_pending_def become_passive_def toy_passive_def
      toy_simps SSL_ERROR_SSL_def)

lemma toy_run:
  "calls_run (dtls_api_call toy_ssl 5 None 0) [Put_packet [22], Do_handshake, Handle_timeout]
     toy_new (4, 1, []) = Done ([-1, 0, 0], toy_passive, (4, 1, [(5, [1, 2])]))"
proof -
  have "dtls_do_handshake toy_ssl toy_passive 5 None 0 w = Done (0, toy_passive, w)" for w
    by (simp add: dtls_do_handshake_def dtls_sess_get_state_def toy_passive_def toy_new_def)
  moreover have "dtls_sess_handle_timeout toy_ssl toy_passive 5 None 0 w = Done (0, toy_passive, w)" for w
  proof -
    have "dtls_sess_handle_timeout toy_ssl toy_passive 5 None 0 w =
        dtls_sess_send_pending toy_ssl toy_passive 5 None 0 w"
      by (simp add: dtls_sess_handle_timeout_def toy_passive_def toy_simps)
    then show ?thesis by (simp add: toy_send_idle)
  qed
  ultimately show ?thesis by (simp add: toy_put)
qed

theorem dtls_session_roles_witness:
  "\<exists>x. ssl toy_passive = Some x \<and> (toy_server x \<longleftrightarrow> state toy_passive = DTLS_CONSTATE_PASS) \<and>
     \<not> lock toy_passive \<and> role_step (con_state_of 2) (state toy_passive)"
  using dtls_session_roles [OF toy_roles toy_sess_new toy_run] .

text \<open>
  A role once taken is kept: when some calls have changed the state of a session, it is
  \<open>DTLS_CONSTATE_ACT\<close> or \<open>DTLS_CONSTATE_PASS\<close>, and no later calls change it again. So a
  handshake that this side has started is not turned into a passive one by a packet, nor the
  other way round.
\<close>

theorem dtls_role_committed:
  assumes "calls_run (dtls_api_call L c dest n) cs s w = Done (rs, s1, w1)" and "state s1 \<noteq> state s"
    and "calls_run (dtls_api_call L c dest n) cs' s1 w1 = Done (rs', s2, w2)"
  shows "state s2 = state s1 \<and> (state s1 = DTLS_CONSTATE_ACT \<or> state s1 = DTLS_CONSTATE_PASS)"
  using assms by (rule dtls_calls.run_role_agrees)

theorem dtls_role_committed_witness:
  "state toy_passive = state toy_passive \<and>
     (state toy_passive = DTLS_CONSTATE_ACT \<or> state toy_passive = DTLS_CONSTATE_PASS)"
proof -
  have "state toy_passive \<noteq> state toy_new" by (simp add: toy_passive_def toy_new_def)
  moreover have "calls_run (dtls_api_call toy_ssl 5 None 0) [] toy_passive (4, 1, [(5, [1, 2])]) =
      Done ([], toy_passive, (4, 1, [(5, [1, 2])]))"
    by simp
  ultimately show ?thesis by (rule dtls_role_committed [OF toy_run])
qed

text \<open>The calls after which the role is decided.\<close>

fun commits :: "dtls_api \<Rightarrow> bool" where
  "commits (Put_packet buf) = True"
| "commits Do_handshake = True"
| "commits _ = False"

lemma api_commits:
  assumes "dtls_api_call L c dest n call s w = Done (r, s', w')" and "commits call" and "ssl s \<noteq> None"
  shows "state s' \<noteq> DTLS_CONSTATE_ACTPASS"
proof (cases call)
  case (Put_packet buf)
  with assms(1) have "dtls_sess_put_packet L s c buf dest n w = Done (r, s', w')" by simp
  then show ?thesis using assms(3)
    by (cases rule: put_packet_cases)
      (auto simp: become_passive_def dest!: send_pending_frame(1) split: if_splits)
next
  case Do_handshake
  with assms(1) have "dtls_do_handshake L s c dest n w = Done (r, s', w')" by simp
  then show ?thesis using assms(3)
    by (cases rule: do_handshake_cases) (auto dest: send_pending_frame(1))
qed (use assms(2) in simp_all)

lemma run_commits:
  assumes "calls_run (dtls_api_call L c dest n) cs s w = Done (rs, s', w')" and "list_ex commits cs" and "ssl s \<noteq> None"
  shows "state s' \<noteq> DTLS_CONSTATE_ACTPASS"
  using assms
proof (induction cs arbitrary: s w rs)
  case (Cons call cs)
  then obtain r s1 w1 rs1 where 1: "dtls_api_call L c dest n call s w = Done (r, s1, w1)"
      "calls_run (dtls_api_call L c dest n) cs s1 w1 = Done (rs1, s', w')"
    by auto
  have "ssl s1 \<noteq> None" using dtls_calls.call_keeps [OF 1(1)] Cons.prems(3) by (simp add: sess_keeps_def)
  then show ?case
    using Cons.IH [OF 1(2)] Cons.prems(2,3) api_commits [OF 1(1)] dtls_calls.run_committed [OF 1(2)] by auto
qed simp

section \<open>Progress\<close>

text \<open>A session that is ready for a call, and the calls that the C standard gives a meaning.\<close>

definition live :: "('s, 'w) dtls_sess \<Rightarrow> bool" where
  "live s \<longleftrightarrow> ssl s \<noteq> None \<and> sink s \<noteq> None \<and> \<not> lock s"

fun call_ok :: "dtls_api \<Rightarrow> bool" where
  "call_ok (Put_packet buf) = (buf \<noteq> [])"
| "call_ok _ = True"

locale live_calls = session_calls call
  for call :: "'c \<Rightarrow> ('s, 'w) dtls_sess \<Rightarrow> 'w \<Rightarrow> (int \<times> ('s, 'w) dtls_sess \<times> 'w) outcome" +
  fixes ok :: "'c \<Rightarrow> bool"
  assumes call_returns: "ok c \<Longrightarrow> live s \<Longrightarrow> \<exists>r s' w'. call c s w = Done (r, s', w')"
begin

lemma run_returns:
  assumes "list_all ok cs" and "live s"
  shows "\<exists>rs s' w'. calls_run call cs s w = Done (rs, s', w') \<and> length rs = length cs \<and> live s'"
  using assms
proof (induction cs arbitrary: s w)
  case (Cons c cs)
  then obtain r s1 w1 where 1: "call c s w = Done (r, s1, w1)" using call_returns by fastforce
  then have "live s1" using call_keeps [OF 1] Cons.prems(2) by (simp add: live_def sess_keeps_def)
  then show ?case using Cons.IH [of s1 w1] Cons.prems(1) 1 by fastforce
qed simp

end

lemma bio_readsE:
  assumes "bio_reads L" and "0 < BIO_ctrl_pending L x"
  obtains bs y where "BIO_read L x (BIO_ctrl_pending L x) = (int (BIO_ctrl_pending L x), bs, y)"
    "length bs = BIO_ctrl_pending L x" "BIO_ctrl_pending L y = 0"
  using assms unfolding bio_reads_def by blast

lemma send_pending_returns:
  assumes "bio_reads L" and "sink s \<noteq> None"
  shows "\<exists>r s' w'. dtls_sess_send_pending L s c dest n w = Done (r, s', w')"
proof (cases "\<exists>x. ssl s = Some x \<and> 0 < BIO_ctrl_pending L x")
  case True
  then obtain x where x: "ssl s = Some x" "0 < BIO_ctrl_pending L x" by blast
  then obtain bs y where "BIO_read L x (BIO_ctrl_pending L x) = (int (BIO_ctrl_pending L x), bs, y)"
    by (elim bio_readsE [OF assms(1)])
  with x assms(2) show ?thesis by (auto simp: dtls_sess_send_pending_def Let_def split: prod.split)
next
  case False
  then show ?thesis by (auto simp: dtls_sess_send_pending_def split: option.split)
qed

lemma put_packet_returns:
  assumes "bio_reads L" and "live s" and "buf \<noteq> []"
  shows "\<exists>r s' w'. dtls_sess_put_packet L s c buf dest n w = Done (r, s', w')"
proof -
  from assms(2) obtain s0 where s0: "ssl s = Some s0" by (auto simp: live_def)
  have "sink (become_passive L s s0) \<noteq> None" using assms(2) by (simp add: live_def become_passive_def)
  then obtain r1 s2 w2 where
    1: "dtls_sess_send_pending L (become_passive L s s0) c dest n w = Done (r1, s2, w2)"
    using send_pending_returns [OF assms(1)] by meson
  then have k: "sink s2 \<noteq> None" using send_pending_frame(3) [OF 1] assms(2)
    by (simp add: live_def become_passive_def)
  obtain ret s3 where 2: "SSL_read L (snd (BIO_write L (the (ssl s2)) buf)) (length buf) = (ret, s3)"
    by (metis surj_pair)
  obtain r3 s4 w4 where
    "dtls_sess_send_pending L (s2\<lparr>ssl := Some s3\<rparr>) c dest n w2 = Done (r3, s4, w4)"
    using send_pending_returns [OF assms(1), of "s2\<lparr>ssl := Some s3\<rparr>"] k by fastforce
  then show ?thesis using assms(2,3) s0 1 2
    by (simp add: dtls_sess_put_packet_def live_def Let_def)
qed

lemma do_handshake_returns:
  assumes "bio_reads L" and "live s"
  shows "\<exists>r s' w'. dtls_do_handshake L s c dest n w = Done (r, s', w')"
proof -
  from assms(2) obtain s0 where s0: "ssl s = Some s0" by (auto simp: live_def)
  let ?s1 = "if state s = DTLS_CONSTATE_ACTPASS then s\<lparr>state := DTLS_CONSTATE_ACT\<rparr> else s"
  let ?s2 = "?s1\<lparr>ssl := Some (snd (SSL_do_handshake L s0)), lock := True\<rparr>"
  obtain r s3 w3 where "dtls_sess_send_pending L ?s2 c dest n w = Done (r, s3, w3)"
    using send_pending_returns [OF assms(1), of ?s2] assms(2) by (fastforce simp: live_def)
  then show ?thesis using s0 assms(2)
    by (auto simp: dtls_do_handshake_def dtls_sess_get_state_def dtls_sess_set_state_def live_def)
qed

lemma api_returns:
  assumes b: "bio_reads L" and ok: "call_ok call" and l: "live s"
  shows "\<exists>r s' w'. dtls_api_call L c dest n call s w = Done (r, s', w')"
proof -
  from l obtain x where x: "ssl s = Some x" by (auto simp: live_def)
  have sp: "\<exists>r s' w'. dtls_sess_send_pending L a c dest n w = Done (r, s', w')" if "sink a = sink s" for a
    using send_pending_returns [OF b] l that by (simp add: live_def)
  show ?thesis
  proof (cases call)
    case Handle_timeout
    then show ?thesis using x sp by (simp add: dtls_sess_handle_timeout_def)
  next
    case Renegotiate
    have "\<exists>r s' w'. dtls_sess_send_pending L (s\<lparr>ssl := Some (snd (SSL_do_handshake L
        (snd (SSL_renegotiate L x))))\<rparr>) c dest n w = Done (r, s', w')"
      by (rule sp) simp
    then show ?thesis using Renegotiate x by (auto simp: dtls_sess_renegotiate_def Let_def)
  next
    case Reset
    then show ?thesis using x by (simp add: dtls_sess_reset_def)
  qed (use b ok l put_packet_returns do_handshake_returns sp in auto)
qed

interpretation dtls_live: live_calls "dtls_api_call L c dest n" "\<lambda>call. bio_reads L \<and> call_ok call"
  for L c dest n
  by unfold_locales (auto intro: api_returns)

text \<open>
  (C9) A session that was made with a sink never gets stuck: every sequence of calls (of the type
  \<open>dtls_api\<close>) whose packets are not empty returns, without a dead lock, a null dereference or a read past the
  pending bytes, and the session is ready for more. It rests only on the documented behaviour of
  memory BIOs.
\<close>

theorem dtls_session_progress:
  assumes reads: "bio_reads L" and new: "dtls_sess_new L ctx (Some k) st w = Done (Some s, w1)"
    and ok: "list_all call_ok cs"
  shows "\<exists>rs s' w'. calls_run (dtls_api_call L c dest n) cs s w1 = Done (rs, s', w') \<and>
    length rs = length cs \<and> live s'"
proof -
  have "live s" using sess_new_frame [OF new] by (simp add: live_def)
  moreover have "list_all (\<lambda>call. bio_reads L \<and> call_ok call) cs" using reads ok by (simp add: list_all_iff)
  ultimately show ?thesis by (intro dtls_live.run_returns)
qed

theorem dtls_session_progress_witness:
  "\<exists>rs s' w'. calls_run (dtls_api_call toy_ssl 5 None 0) [Put_packet [22], Renegotiate, Reset] toy_new (4, 1, []) =
     Done (rs, s', w') \<and> length rs = length [Put_packet [22], Renegotiate, Reset] \<and> live s'"
  by (rule dtls_session_progress [OF toy_reads toy_sess_new]) simp

text \<open>
  The two ways \<open>dtls_sess_put_packet\<close> can go wrong at once: an empty packet, for which the code
  declares an array of no elements, and a held mutex.
\<close>

lemma dtls_put_packet_undefined:
  "dtls_sess_put_packet L s c [] dest n w = Undefined"
  "ssl s = Some x \<Longrightarrow> lock s \<Longrightarrow> dtls_sess_put_packet L s c buf dest n w = Undefined"
  by (simp_all add: dtls_sess_put_packet_def)

section \<open>Sending\<close>

lemma send_pending_flushes:
  assumes "bio_reads L" and "dtls_sess_send_pending L s c dest n w = Done (r, s', w')" and "ssl s' = Some y"
  shows "BIO_ctrl_pending L y = 0"
  using assms(2)
proof (cases rule: send_pending_cases)
  case (sent x k out bs y')
  then show ?thesis using assms(3) bio_readsE [OF assms(1) sent(2)] by auto
qed (use assms(3) in simp_all)

text \<open>
  \<open>dtls_sess_send_pending\<close> sends all the bytes that the library has produced, in one
  datagram to the given address, returns what the sink returned, and leaves nothing pending.
\<close>

theorem dtls_send_pending_sends_all:
  assumes reads: "bio_reads L" and x: "ssl s = Some x" "0 < BIO_ctrl_pending L x"
    and k: "sink s = Some k" "sink_sched k = None"
  shows "\<exists>bs y r w'. BIO_read L x (BIO_ctrl_pending L x) = (int (length bs), bs, y) \<and>
    length bs = BIO_ctrl_pending L x \<and> sink_sendto k c bs 0 dest n w = (r, w') \<and>
    dtls_sess_send_pending L s c dest n w = Done (r, s\<lparr>ssl := Some y\<rparr>, w') \<and> BIO_ctrl_pending L y = 0"
proof -
  obtain bs y where 1: "BIO_read L x (BIO_ctrl_pending L x) = (int (BIO_ctrl_pending L x), bs, y)"
      "length bs = BIO_ctrl_pending L x" "BIO_ctrl_pending L y = 0"
    using bio_readsE [OF reads x(2)] by blast
  obtain r w' where 2: "sink_sendto k c bs 0 dest n w = (r, w')" by (metis surj_pair)
  have "dtls_sess_send_pending L s c dest n w = Done (r, s\<lparr>ssl := Some y\<rparr>, w')"
    using 1 2 x k by (simp add: dtls_sess_send_pending_def)
  then show ?thesis using 1 2 by auto
qed

definition toy_busy :: toy_conn where
  "toy_busy = \<lparr>toy_server = False, toy_done = False, toy_out = [20, 21], toy_in = [], toy_bios = 2\<rparr>"

theorem dtls_send_pending_sends_all_witness:
  "\<exists>bs y r w'. BIO_read toy_ssl toy_busy (BIO_ctrl_pending toy_ssl toy_busy) = (int (length bs), bs, y) \<and>
    length bs = BIO_ctrl_pending toy_ssl toy_busy \<and>
    sink_sendto (dsink_udp_getsink toy_sendto) 5 bs 0 None 0 (4, 1, []) = (r, w') \<and>
    dtls_sess_send_pending toy_ssl (toy_new\<lparr>ssl := Some toy_busy\<rparr>) 5 None 0 (4, 1, []) =
      Done (r, toy_new\<lparr>ssl := Some toy_busy, ssl := Some y\<rparr>, w') \<and> BIO_ctrl_pending toy_ssl y = 0"
  using dtls_send_pending_sends_all
    [OF toy_reads, of "toy_new\<lparr>ssl := Some toy_busy\<rparr>" toy_busy "dsink_udp_getsink toy_sendto" 5 None 0 "(4, 1, [])"]
  by (simp add: toy_new_def toy_busy_def toy_ssl_def)

text \<open>
  When \<open>dtls_sess_put_packet\<close> returns, nothing that the library produced in answer is left
  unsent, except after an \<open>SSL_ERROR_SSL\<close> (then not even the alert is sent); a finished
  handshake is recorded in the type of the connection.
\<close>

theorem dtls_put_packet_answers:
  assumes reads: "bio_reads L" and put: "dtls_sess_put_packet L s c buf dest n w = Done (r, s', w')"
    and x: "ssl s' = Some x"
  shows "BIO_ctrl_pending L x = 0 \<and> (if SSL_is_init_finished L x then con_type s' = DTLS_CONTYPE_EXISTING
      else con_type s' = con_type s) \<or>
    r < 0 \<and> SSL_get_error L x r = SSL_ERROR_SSL \<and> con_type s' = con_type s"
  using put
proof (cases rule: put_packet_cases)
  case null
  then show ?thesis using x by simp
next
  case (failed s0 r1 s2 s3)
  have "con_type s2 = con_type s" using send_pending_frame(4) [OF failed(3)] by (simp add: become_passive_def)
  then show ?thesis using x failed by simp
next
  case (read s0 r1 s2 w2 s3 r3 s4)
  have s4: "ssl s4 = Some x" using x read(7) by (simp split: if_splits)
  have "con_type s4 = con_type s"
    using send_pending_frame(4) [OF read(3)] send_pending_frame(4) [OF read(6)] by (simp add: become_passive_def)
  then show ?thesis using send_pending_flushes [OF reads read(6) s4] read(7) s4 by simp
qed

theorem dtls_put_packet_answers_witness:
  "let x = the (ssl toy_passive) in
   BIO_ctrl_pending toy_ssl x = 0 \<and> (if SSL_is_init_finished toy_ssl x
     then con_type toy_passive = DTLS_CONTYPE_EXISTING else con_type toy_passive = con_type toy_new) \<or>
   (-1 :: int) < 0 \<and> SSL_get_error toy_ssl x (-1) = SSL_ERROR_SSL \<and> con_type toy_passive = con_type toy_new"
proof -
  have "ssl toy_passive = Some (the (ssl toy_passive))" by (simp add: toy_passive_def)
  from dtls_put_packet_answers [OF toy_reads toy_put this] show ?thesis unfolding Let_def .
qed

section \<open>Ownership\<close>

lemma owns_inv:
  assumes "ssl_owns L bios" and "ssl_resources L objs blocks bios"
  shows "ssl_inv L (\<lambda>st x. bios x = 2)"
  using assms(1) by (simp add: ssl_owns_def ssl_inv_def set_role_def ssl_resources_free [OF assms(2)])

text \<open>
  \<open>dtls_sess_new\<close> leaks nothing: when it fails, the \<open>SSL\<close>, the BIO made first and the
  memory of the session are given back; when it succeeds, the session owns one block and three
  objects, the \<open>SSL\<close> and its two BIOs.
\<close>

theorem dtls_sess_new_no_leak:
  assumes res: "ssl_resources L objs blocks bios" and new: "dtls_sess_new L ctx k st w = Done (r, w')"
  shows "objs w' = objs w + (if r = None then 0 else 3) \<and> blocks w' = blocks w + (if r = None then 0 else 1)"
proof -
  from new show ?thesis
    unfolding dtls_sess_new_def Let_def
    by (auto split: prod.splits bool.splits option.splits simp: ssl_resources_free [OF res]
        dest!: ssl_resources_new [OF res])
qed

theorem dtls_sess_new_no_leak_witness:
  "\<exists>w'. dtls_sess_new toy_ssl (Some (0, [])) None 0 (7, 0, []) = Done (None, w') \<and> fst w' = 7"
proof -
  have r: "dtls_sess_new toy_ssl (Some (0, [])) None 0 (7, 0, []) = Done (None, (7, 0, []))"
    by (simp add: dtls_sess_new_def toy_simps)
  from dtls_sess_new_no_leak [OF toy_resources r] r show ?thesis by simp
qed

text \<open>
  (C16) The whole life of a session leaks nothing: after \<open>dtls_sess_new\<close>, any sequence of calls
  (of the type \<open>dtls_api\<close>) and \<open>dtls_sess_free\<close>, the process owns as many objects and blocks as before. In particular the
  mutex is never held when it is destroyed.
\<close>

theorem dtls_session_life_no_leak:
  assumes res: "ssl_resources L objs blocks bios" and owns: "ssl_owns L bios"
    and net: "sink_keeps (\<lambda>v. (objs v, blocks v)) k"
    and new: "dtls_sess_new L ctx k st w = Done (Some s, w1)"
    and run: "calls_run (dtls_api_call L c dest n) cs s w1 = Done (rs, s', w2)"
  shows "\<exists>w3. dtls_sess_free L s' w2 = Done w3 \<and> objs w3 = objs w \<and> blocks w3 = blocks w"
proof -
  have "sess_inv (\<lambda>st x. bios x = 2) s"
    using new by (cases rule: sess_new_cases) (simp add: set_role_def ssl_resources_free [OF res] sess_inv_def)
  then have "sess_inv (\<lambda>st x. bios x = 2) s'" using run_inv [OF owns_inv [OF owns res] run] by blast
  moreover have "sess_keeps s s'" using dtls_calls.run_keeps [OF run] .
  ultimately obtain x where x: "ssl s' = Some x" "bios x = 2" "\<not> lock s'"
    using sess_new_frame [OF new] by (auto simp: sess_inv_def sess_keeps_def)
  have "(objs w2, blocks w2) = (objs w1, blocks w1)"
    using run_world [OF _ run] net sess_new_frame(2) [OF new] by blast
  moreover have "objs w1 = objs w + 3" "blocks w1 = blocks w + 1"
    using new by (cases rule: sess_new_cases, auto dest!: ssl_resources_new [OF res])+
  ultimately show ?thesis using x by (simp add: dtls_sess_free_def ssl_resources_free [OF res])
qed

theorem dtls_session_life_no_leak_witness:
  "\<exists>w3. dtls_sess_free toy_ssl toy_passive (4, 1, [(5, [1, 2])]) = Done w3 \<and> fst w3 = 1 \<and>
     (case w3 of (n, b, out) \<Rightarrow> b) = 0"
proof -
  have "sink_keeps (\<lambda>v. (fst v, case v of (n, b, out) \<Rightarrow> b)) (Some (dsink_udp_getsink toy_sendto))"
    by (auto simp: sink_keeps_def udp_sendto_def toy_sendto_def)
  from dtls_session_life_no_leak [OF toy_resources toy_owns this toy_sess_new toy_run] show ?thesis by simp
qed

end
