(* ===== verification/Dtls_Keys.thy ===== *)
theory Dtls_Keys
  imports Dtls_Guarantees
begin

text \<open>
  From a finished handshake to SRTP keys: exporting the key material of a session, splitting it
  by direction, and telling DTLS packets from RTP packets (\<open>dtls_srtp.c\<close>, \<open>dtls_srtp.h\<close>). A
  pointer into the key material is the index it points at.
\<close>

section \<open>The code\<close>

definition MASTER_KEY_LEN :: nat where "MASTER_KEY_LEN = 16"
definition MASTER_SALT_LEN :: nat where "MASTER_SALT_LEN = 14"

lemmas master_lens = MASTER_KEY_LEN_def MASTER_SALT_LEN_def

record srtp_key_material =
  material :: bytes
  ispassive :: dtls_con_state

record srtp_key_ptrs =
  localkey :: nat
  remotekey :: nat
  localsalt :: nat
  remotesalt :: nat

text \<open>
  The code reads the first byte as a \<open>char\<close>, whatever the length of the packet is; \<open>char\<close> is
  signed on the targets of the program.
\<close>

definition packet_is_dtls :: "bytes \<Rightarrow> bool outcome" where
  "packet_is_dtls buf = (case buf of [] \<Rightarrow> Undefined | b # _ \<Rightarrow> Done (20 \<le> sint b \<and> sint b \<le> 64))"

text \<open>The block that \<open>key_material_free\<close> hands back, and the process after it.\<close>

definition key_material_free ::
  "('x, 's, 'b, 'k, 'w) openssl \<Rightarrow> srtp_key_material \<Rightarrow> 'w \<Rightarrow> srtp_key_material \<times> 'w" where
  "key_material_free L km w = (km\<lparr>material := replicate (length (material km)) 0\<rparr>, c_dealloc L w)"

text \<open>
  \<open>calloc\<close> clears the block, so that \<open>ispassive\<close> is 0 (\<open>DTLS_CONSTATE_ACT\<close>) before it is set;
  its result is not checked.
\<close>

definition srtp_get_key_material ::
  "('x, 's, 'b, 'k, 'w) openssl \<Rightarrow> ('s, 'w) dtls_sess \<Rightarrow> 'w \<Rightarrow>
   (srtp_key_material option \<times> 'w) outcome" where
  "srtp_get_key_material L sess w =
     (case ssl sess of None \<Rightarrow> Undefined
      | Some s \<Rightarrow>
      if \<not> SSL_is_init_finished L s then Done (None, w)
      else case c_calloc L w of (False, w1) \<Rightarrow> Undefined | (True, w1) \<Rightarrow>
      let km = \<lparr>material = replicate ((MASTER_KEY_LEN + MASTER_SALT_LEN) * 2) 0,
                ispassive = DTLS_CONSTATE_ACT\<rparr> in
      case SSL_export_keying_material L s (material km) ''EXTRACTOR-dtls_srtp'' of (r, out) \<Rightarrow>
      let km1 = km\<lparr>material := out\<rparr> in
      if r = 0 then Done (None, snd (key_material_free L km1 w1))
      else Done (Some (km1\<lparr>ispassive := state sess\<rparr>), w1))"

definition srtp_key_material_extract :: "srtp_key_material \<Rightarrow> srtp_key_ptrs" where
  "srtp_key_material_extract km =
     (if ispassive km = DTLS_CONSTATE_ACT
      then let lk = 0; rk = lk + MASTER_KEY_LEN; ls = rk + MASTER_KEY_LEN; rs = ls + MASTER_SALT_LEN in
        \<lparr>localkey = lk, remotekey = rk, localsalt = ls, remotesalt = rs\<rparr>
      else let rk = 0; lk = rk + MASTER_KEY_LEN; rs = lk + MASTER_KEY_LEN; ls = rs + MASTER_SALT_LEN in
        \<lparr>localkey = lk, remotekey = rk, localsalt = ls, remotesalt = rs\<rparr>)"

section \<open>Specification: the key block of RFC 5764\<close>

text \<open>
  Section 4.2: the exported block is the client's write key, the server's write key, the
  client's write salt and the server's write salt.
\<close>

record dtls_srtp_keys =
  client_key :: bytes
  server_key :: bytes
  client_salt :: bytes
  server_salt :: bytes

definition key_block :: "dtls_srtp_keys \<Rightarrow> bytes" where
  "key_block K = client_key K @ server_key K @ client_salt K @ server_salt K"

definition srtp_keys_ok :: "dtls_srtp_keys \<Rightarrow> bool" where
  "srtp_keys_ok K \<longleftrightarrow> length (client_key K) = 16 \<and> length (server_key K) = 16 \<and>
     length (client_salt K) = 14 \<and> length (server_salt K) = 14"

text \<open>What a user of the pointers reads: local key, remote key, local salt, remote salt.\<close>

definition read_keys :: "srtp_key_material \<Rightarrow> bytes \<times> bytes \<times> bytes \<times> bytes" where
  "read_keys km = (let p = srtp_key_material_extract km; at = (\<lambda>i n. take n (drop i (material km))) in
     (at (localkey p) MASTER_KEY_LEN, at (remotekey p) MASTER_KEY_LEN,
      at (localsalt p) MASTER_SALT_LEN, at (remotesalt p) MASTER_SALT_LEN))"

lemma key_block_ex:
  assumes "length m = 60"
  obtains K where "m = key_block K" "srtp_keys_ok K"
proof
  let ?K = "\<lparr>client_key = take 16 m, server_key = take 16 (drop 16 m),
    client_salt = take 14 (drop 32 m), server_salt = drop 46 m\<rparr>"
  have "take 14 (drop 32 m) @ drop 46 m = drop 32 m"
    using append_take_drop_id [of 14 "drop 32 m"] by simp
  moreover have "take 16 (drop 16 m) @ drop 32 m = drop 16 m"
    using append_take_drop_id [of 16 "drop 16 m"] by simp
  ultimately show "m = key_block ?K" by (simp add: key_block_def)
  show "srtp_keys_ok ?K" using assms by (simp add: srtp_keys_ok_def)
qed

lemma read_keys_block:
  assumes "material km = key_block K" and "srtp_keys_ok K"
  shows "read_keys km = (if ispassive km = DTLS_CONSTATE_ACT
     then (client_key K, server_key K, client_salt K, server_salt K)
     else (server_key K, client_key K, server_salt K, client_salt K))"
  using assms
  by (simp add: read_keys_def srtp_key_material_extract_def key_block_def srtp_keys_ok_def master_lens Let_def)

lemma get_key_material_cases:
  assumes "srtp_get_key_material L s w = Done (r, w')"
  obtains (early) x where "ssl s = Some x" "\<not> SSL_is_init_finished L x" "r = None" "w' = w"
  | (failed) x w1 out where "ssl s = Some x" "SSL_is_init_finished L x" "c_calloc L w = (True, w1)"
      "SSL_export_keying_material L x (replicate 60 0) ''EXTRACTOR-dtls_srtp'' = (0, out)"
      "r = None" "w' = c_dealloc L w1"
  | (exported) x i out where "ssl s = Some x" "SSL_is_init_finished L x" "c_calloc L w = (True, w')"
      "SSL_export_keying_material L x (replicate 60 0) ''EXTRACTOR-dtls_srtp'' = (i, out)" "i \<noteq> 0"
      "r = Some \<lparr>material = out, ispassive = state s\<rparr>"
proof (cases "ssl s")
  case None
  then show thesis using assms by (simp add: srtp_get_key_material_def)
next
  case (Some x)
  obtain i out where e: "SSL_export_keying_material L x (replicate 60 0) ''EXTRACTOR-dtls_srtp'' = (i, out)"
    by (metis surj_pair)
  show thesis
  proof (cases "SSL_is_init_finished L x")
    case False
    with assms Some have "r = None" "w' = w" by (simp_all add: srtp_get_key_material_def)
    with Some False show thesis by (rule early)
  next
    case True
    obtain ok w1 where c: "c_calloc L w = (ok, w1)" by (metis surj_pair)
    with assms Some True have ok: "ok" by (cases ok) (auto simp: srtp_get_key_material_def)
    show thesis
    proof (cases "i = 0")
      case 0: True
      have "r = None" "w' = c_dealloc L w1"
        using assms Some True c ok e 0 by (simp_all add: srtp_get_key_material_def key_material_free_def master_lens)
      then show thesis using failed Some True c ok e 0 by simp
    next
      case 1: False
      have "r = Some \<lparr>material = out, ispassive = state s\<rparr>" "w' = w1"
        using assms Some True c ok e 1 by (simp_all add: srtp_get_key_material_def master_lens)
      then show thesis using exported Some True c ok e 1 by simp
    qed
  qed
qed

section \<open>Properties\<close>

text \<open>
  Two endpoints that exported the same material read it mirrored: the local key and salt
  of the one that started the handshake are the remote ones of the other and the reverse, they are
  the keys that RFC 5764 gives to the client and to the server, and the four parts are the
  whole of the material, without overlap.
\<close>

theorem srtp_key_material_mirrored:
  assumes a: "ispassive a = DTLS_CONSTATE_ACT" and b: "ispassive b = DTLS_CONSTATE_PASS"
    and m: "material a = material b" "length (material a) = 60"
  shows "\<exists>K. srtp_keys_ok K \<and> key_block K = material a \<and>
    read_keys a = (client_key K, server_key K, client_salt K, server_salt K) \<and>
    read_keys b = (server_key K, client_key K, server_salt K, client_salt K)"
proof -
  obtain K where K: "material a = key_block K" "srtp_keys_ok K" using key_block_ex [OF m(2)] .
  then have "material b = key_block K" using m(1) by simp
  then show ?thesis using K read_keys_block [of a K] read_keys_block [of b K] a b by auto
qed

theorem srtp_key_material_mirrored_witness:
  "let m = map of_nat [0..<60]; a = \<lparr>material = m, ispassive = DTLS_CONSTATE_ACT\<rparr>;
       b = \<lparr>material = m, ispassive = DTLS_CONSTATE_PASS\<rparr> in
   \<exists>K. srtp_keys_ok K \<and> key_block K = material a \<and>
    read_keys a = (client_key K, server_key K, client_salt K, server_salt K) \<and>
    read_keys b = (server_key K, client_key K, server_salt K, client_salt K)"
  unfolding Let_def by (rule srtp_key_material_mirrored) simp_all

lemma keys_follow_role:
  assumes roles: "ssl_roles L server" and exp: "ssl_exports L"
    and new: "dtls_sess_new L ctx k st w = Done (Some s, w1)" "st \<in> {0, 1, 2}"
    and run: "calls_run (dtls_api_call L c dest n) cs s w1 = Done (rs, s', w2)"
    and km: "srtp_get_key_material L s' w2 = Done (Some km, w3)" "state s' \<noteq> DTLS_CONSTATE_ACTPASS"
  shows "\<exists>x K. ssl s' = Some x \<and> SSL_is_init_finished L x \<and> srtp_keys_ok K \<and> material km = key_block K \<and>
    read_keys km = (if server x then (server_key K, client_key K, server_salt K, client_salt K)
      else (client_key K, server_key K, client_salt K, server_salt K))"
  using km(1)
proof (cases rule: get_key_material_cases)
  case (exported x i out)
  have "length out = 60" using exp exported(4) by (auto simp: ssl_exports_def)
  then obtain K where K: "out = key_block K" "srtp_keys_ok K" by (rule key_block_ex)
  have inv: "sess_inv (role_agrees server) s'"
    using run_inv [OF roles_inv [OF roles] run sess_new_role [OF roles new(1)]] .
  then have sx: "server x = (state s' = DTLS_CONSTATE_PASS)"
    using exported(1) by (simp add: sess_inv_def role_agrees_def)
  have "role_step (con_state_of st) (state s')"
    using dtls_calls.run_keeps [OF run] sess_new_frame(4) [OF new(1)] by (simp add: sess_keeps_def)
  then have "state s' = DTLS_CONSTATE_ACT \<or> state s' = DTLS_CONSTATE_PASS"
    using new(2) km(2) by (auto simp: role_step_def con_state_of_def)
  then show ?thesis
    using exported(1,2,6) K sx read_keys_block [of km K] by (intro exI [of _ x] exI [of _ K]) auto
qed simp_all

text \<open>
  (C15) The directions follow the roles: after any calls (of the type \<open>dtls_api\<close>: the raw setter of the
  state is not among them) on a session made in one of the three documented states, if key
  material is exported, the local keys are the server's write keys when
  the \<open>SSL\<close> is the server and the client's when it is the client. The state
  \<open>DTLS_CONSTATE_ACTPASS\<close> has to be left by then, as it is by every received packet.
\<close>

theorem dtls_keys_follow_role:
  assumes roles: "ssl_roles L server" and exp: "ssl_exports L"
    and new: "dtls_sess_new L ctx k st w = Done (Some s, w1)" "st \<in> {0, 1, 2}"
    and run: "calls_run (dtls_api_call L c dest n) cs s w1 = Done (rs, s', w2)"
    and km: "srtp_get_key_material L s' w2 = Done (Some km, w3)" "state s' \<noteq> DTLS_CONSTATE_ACTPASS"
  shows "\<exists>x K. ssl s' = Some x \<and> SSL_is_init_finished L x \<and> srtp_keys_ok K \<and> material km = key_block K \<and>
    read_keys km = (if server x then (server_key K, client_key K, server_salt K, client_salt K)
      else (client_key K, server_key K, client_salt K, server_salt K))"
  using assms by (rule keys_follow_role)

lemma toy_export:
  "srtp_get_key_material toy_ssl toy_passive (4, 1, [(5, [1, 2])]) =
     Done (Some \<lparr>material = map of_nat [0..<60], ispassive = DTLS_CONSTATE_PASS\<rparr>, (4, 2, [(5, [1, 2])]))"
  by (simp add: srtp_get_key_material_def toy_passive_def toy_simps master_lens)

theorem dtls_keys_follow_role_witness:
  "\<exists>x K. ssl toy_passive = Some x \<and> SSL_is_init_finished toy_ssl x \<and> srtp_keys_ok K \<and>
    map of_nat [0..<60] = key_block K \<and>
    read_keys \<lparr>material = map of_nat [0..<60], ispassive = DTLS_CONSTATE_PASS\<rparr> =
      (if toy_server x then (server_key K, client_key K, server_salt K, client_salt K)
       else (client_key K, server_key K, client_salt K, server_salt K))"
  using dtls_keys_follow_role [OF toy_roles toy_exports toy_sess_new _ toy_run toy_export]
  by (simp add: toy_passive_def)

text \<open>
  In the fourth state, \<open>DTLS_CONSTATE_HOLDCONN\<close>, the directions are wrong: the \<open>SSL\<close> of
  such a session is always a client, but the keys that its user reads as local are the server's.
  Both ends then encrypt with the same key and neither can decrypt the other.
\<close>

theorem dtls_holdconn_keys_reversed:
  assumes roles: "ssl_roles L server" and exp: "ssl_exports L"
    and new: "dtls_sess_new L ctx k 3 w = Done (Some s, w1)"
    and run: "calls_run (dtls_api_call L c dest n) cs s w1 = Done (rs, s', w2)"
    and km: "srtp_get_key_material L s' w2 = Done (Some km, w3)"
  shows "\<exists>x K. ssl s' = Some x \<and> \<not> server x \<and> srtp_keys_ok K \<and> material km = key_block K \<and>
    read_keys km = (server_key K, client_key K, server_salt K, client_salt K)"
  using km
proof (cases rule: get_key_material_cases)
  case (exported x i out)
  have "length out = 60" using exp exported(4) by (auto simp: ssl_exports_def)
  then obtain K where K: "out = key_block K" "srtp_keys_ok K" by (rule key_block_ex)
  have st: "state s' = DTLS_CONSTATE_HOLDCONN"
    using dtls_calls.run_committed [OF run] sess_new_frame(4) [OF new] by (simp add: con_state_of_def)
  have "sess_inv (role_agrees server) s'"
    using run_inv [OF roles_inv [OF roles] run sess_new_role [OF roles new]] .
  then have "\<not> server x" using exported(1) st by (simp add: sess_inv_def role_agrees_def)
  then show ?thesis using exported(1,6) K st read_keys_block [of km K] by auto
qed simp_all

definition toy_hold :: "(toy_conn, toy_world) dtls_sess" where
  "toy_hold = toy_new\<lparr>state := DTLS_CONSTATE_HOLDCONN\<rparr>"

definition toy_held :: "(toy_conn, toy_world) dtls_sess" where
  "toy_held = toy_hold\<lparr>ssl := Some \<lparr>toy_server = False, toy_done = True, toy_out = [], toy_in = [],
     toy_bios = 2\<rparr>, con_type := DTLS_CONTYPE_EXISTING\<rparr>"

theorem dtls_holdconn_keys_reversed_witness:
  "\<exists>x K. ssl toy_held = Some x \<and> \<not> toy_server x \<and> srtp_keys_ok K \<and>
    material \<lparr>material = map of_nat [0..<60], ispassive = DTLS_CONSTATE_HOLDCONN\<rparr> = key_block K \<and>
    read_keys \<lparr>material = map of_nat [0..<60], ispassive = DTLS_CONSTATE_HOLDCONN\<rparr> =
      (server_key K, client_key K, server_salt K, client_salt K)"
proof -
  have n: "dtls_sess_new toy_ssl (Some (0, [])) (Some (dsink_udp_getsink toy_sendto)) 3 (1, 0, []) =
      Done (Some toy_hold, (4, 1, []))"
    by (simp add: dtls_sess_new_def toy_hold_def toy_simps)
  have "dtls_sess_put_packet toy_ssl toy_hold 5 [22] None 0 (4, 1, []) =
      Done (-1, toy_held, (4, 1, [(5, [1, 2])]))"
    by (simp add: dtls_sess_put_packet_def dtls_sess_send_pending_def become_passive_def toy_hold_def
        toy_held_def toy_simps SSL_ERROR_SSL_def)
  then have r: "calls_run (dtls_api_call toy_ssl 5 None 0) [Put_packet [22]] toy_hold (4, 1, []) =
      Done ([-1], toy_held, (4, 1, [(5, [1, 2])]))"
    by simp
  have m: "srtp_get_key_material toy_ssl toy_held (4, 1, [(5, [1, 2])]) =
     Done (Some \<lparr>material = map of_nat [0..<60], ispassive = DTLS_CONSTATE_HOLDCONN\<rparr>, (4, 2, [(5, [1, 2])]))"
    by (simp add: srtp_get_key_material_def toy_held_def toy_hold_def toy_simps master_lens)
  show ?thesis by (rule dtls_holdconn_keys_reversed [OF toy_roles toy_exports n r m])
qed

text \<open>
  Key material is handed out only after the handshake, in a block that the caller owns; a
  failed export gives its block back, and \<open>key_material_free\<close> clears the keys before it gives
  the block back. No library object is taken.
\<close>

theorem key_material_life:
  assumes res: "ssl_resources L objs blocks bios"
    and get: "srtp_get_key_material L s w = Done (r, w')"
  shows "objs w' = objs w \<and>
    (case r of None \<Rightarrow> blocks w' = blocks w
     | Some km \<Rightarrow> (\<exists>x. ssl s = Some x \<and> SSL_is_init_finished L x) \<and> ispassive km = state s \<and>
         blocks w' = blocks w + 1 \<and>
         (case key_material_free L km w' of (km', w'') \<Rightarrow>
            set (material km') \<subseteq> {0} \<and> objs w'' = objs w \<and> blocks w'' = blocks w))"
  using get
proof (cases rule: get_key_material_cases)
  case (exported x i out)
  then show ?thesis using ssl_resources_new(5) [OF res exported(3)]
    by (auto simp: key_material_free_def ssl_resources_free [OF res])
next
  case (failed x w1 out)
  then show ?thesis using ssl_resources_new(5) [OF res failed(3)] by (simp add: ssl_resources_free [OF res])
qed simp

theorem key_material_life_witness:
  "case key_material_free toy_ssl \<lparr>material = map of_nat [0..<60], ispassive = DTLS_CONSTATE_PASS\<rparr>
     (4, 2, [(5, [1, 2])]) of (km', w'') \<Rightarrow> set (material km') \<subseteq> {0} \<and> fst w'' = 4"
  using key_material_life [OF toy_resources toy_export] by auto

text \<open>
  An export that fails with -1 is taken for a success: the code tests only for 0, so
  when the library has written nothing, the caller gets sixty zero bytes as key material.
\<close>

theorem key_material_of_failed_export:
  assumes "ssl s = Some x" "SSL_is_init_finished L x" "c_calloc L w = (True, w1)"
    and "SSL_export_keying_material L x (replicate 60 0) ''EXTRACTOR-dtls_srtp'' = (-1, replicate 60 0)"
  shows "\<exists>km. srtp_get_key_material L s w = Done (Some km, w1) \<and>
    read_keys km = (replicate 16 0, replicate 16 0, replicate 14 0, replicate 14 0)"
  using assms
  by (simp add: srtp_get_key_material_def master_lens read_keys_def srtp_key_material_extract_def Let_def)

theorem key_material_of_failed_export_witness:
  "\<exists>km. srtp_get_key_material (toy_ssl\<lparr>SSL_export_keying_material := \<lambda>s buf label. (-1, buf)\<rparr>) toy_passive
      (4, 1, []) = Done (Some km, (4, 2, [])) \<and>
    read_keys km = (replicate 16 0, replicate 16 0, replicate 14 0, replicate 14 0)"
  by (rule key_material_of_failed_export [where x = "the (ssl toy_passive)"])
    (simp_all add: toy_passive_def toy_ssl_def)

lemma packet_is_dtls_byte:
  "packet_is_dtls (b # bs) = Done (unat b \<in> {20..64})"
proof -
  have range: "(20 \<le> i \<and> i \<le> 64) = (20 \<le> i mod 256 \<and> i mod 256 \<le> 64)" if "- 128 \<le> i" "i < 128" for i :: int
  proof (cases "0 \<le> i")
    case True
    then show ?thesis using that by (simp add: mod_pos_pos_trivial)
  next
    case False
    then have "(i + 256) mod 256 = i + 256" using that by (intro mod_pos_pos_trivial) simp_all
    then show ?thesis using False that by simp
  qed
  have "- 128 \<le> sint b" "sint b < 128" using sint_ge [of b] sint_lt [of b] by simp_all
  note r = range [OF this]
  have u: "sint b mod 256 = uint b" by (simp only: uint_sint [of b] take_bit_eq_mod) simp
  have "(20 \<le> sint b \<and> sint b \<le> 64) = (20 \<le> uint b \<and> uint b \<le> 64)"
    using r unfolding u .
  also have "\<dots> = (20 \<le> unat b \<and> unat b \<le> 64)"
  proof -
    have "(20 \<le> int n \<and> int n \<le> 64) = (20 \<le> n \<and> n \<le> 64)" for n by auto
    from this [of "unat b"] show ?thesis unfolding uint_nat .
  qed
  finally show ?thesis by (simp add: packet_is_dtls_def)
qed

text \<open>
  \<open>packet_is_dtls\<close> accepts exactly the first bytes 20 to 64. These are all the DTLS record
  types of RFC 5764 section 5.1.2 (20 to 63) and one value more; no RTP or RTCP packet (128 to
  191) and no STUN message (0 to 3) is among them. Whether \<open>char\<close> is signed does not matter.
\<close>

theorem packet_is_dtls_first_byte:
  "packet_is_dtls (b # bs) = Done (unat b \<in> {20..64})"
  by (rule packet_is_dtls_byte)

end
