(* ===== verification/Dtls_Threads.thy ===== *)
theory Dtls_Threads
  imports Dtls_Keys
begin

text \<open>
  Threads on one DTLS session. A session has a mutex because a program may start the handshake
  (\<open>dtls_do_handshake\<close>) from one thread while another feeds it packets (\<open>dtls_sess_put_packet\<close>)
  and a third runs the timer (\<open>dtls_sess_handle_timeout\<close>). Here these functions, and
  \<open>dtls_sess_send_pending\<close> inside them, are cut into the accesses they make to the shared session: a
  test or an assignment of the state, a call of OpenSSL or of the sink, a lock or an unlock, one step
  each. Any number of threads runs interleaved. Steps are atomic; what C calls a data race is not
  looked at below that. A thread that locks a held mutex waits. Run alone, a thread computes what the
  sequential functions of \<open>Dtls_Session\<close> compute.
\<close>

section \<open>The code, step by step\<close>

text \<open>
  Where a thread is, with the values of its local variables. Inside \<open>dtls_sess_send_pending\<close>: the test
  for null, the count of pending bytes, reading them, the timer of the sink, and sending them.
\<close>

datatype send_pc = S_null | S_pending | S_read nat | S_sched int bytes | S_send int bytes

datatype dtls_pc =
  H_null | H_act | H_actpass | H_test | H_set | H_ssl | H_lock | H_send send_pc | H_unlock int
| P_null bytes | P_lock bytes | P_unlock bytes | P_test bytes | P_set bytes | P_accept bytes
| P_send bytes send_pc | P_write bytes | P_read bytes | P_error int | P_again int send_pc | P_type int
| T_init | T_timeout | T_send send_pc
| Returned int

text \<open>
  One step of \<open>dtls_sess_send_pending\<close>: where it goes on, or what it returns. The result of \<open>BIO_read\<close>
  is stored as a \<open>size_t\<close>: a negative one makes \<open>sendto\<close> read far behind the array.
\<close>

fun send_next ::
  "('x, 's, 'b, 'k, 'w) openssl \<Rightarrow> int \<Rightarrow> bytes option \<Rightarrow> int \<Rightarrow> send_pc \<Rightarrow> ('s, 'w) dtls_sess \<Rightarrow> 'w \<Rightarrow>
   ((send_pc + int) \<times> ('s, 'w) dtls_sess \<times> 'w) outcome" where
  "send_next L c dest n S_null s w = Done (if ssl s = None then Inr (-2) else Inl S_pending, s, w)"
| "send_next L c dest n S_pending s w =
     (case ssl s of None \<Rightarrow> Undefined
      | Some x \<Rightarrow> Done (if BIO_ctrl_pending L x = 0 then Inr 0 else Inl (S_read (BIO_ctrl_pending L x)), s, w))"
| "send_next L c dest n (S_read pending) s w =
     (case ssl s of None \<Rightarrow> Undefined
      | Some x \<Rightarrow> (case BIO_read L x pending of (out, outgoing, y) \<Rightarrow>
          Done (Inl (S_sched out outgoing), s\<lparr>ssl := Some y\<rparr>, w)))"
| "send_next L c dest n (S_sched out outgoing) s w =
     (case sink s of None \<Rightarrow> Undefined
      | Some k \<Rightarrow> (case sink_sched k of None \<Rightarrow> Done (Inl (S_send out outgoing), s, w)
         | Some f \<Rightarrow> (case ssl s of None \<Rightarrow> Undefined
             | Some x \<Rightarrow> Done (Inl (S_send out outgoing), s, f c (dtls_sess_get_timeout L x) w))))"
| "send_next L c dest n (S_send out outgoing) s w =
     (case sink s of None \<Rightarrow> Undefined
      | Some k \<Rightarrow> if out < 0 then Undefined
          else (case sink_sendto k c (take (nat out) outgoing) 0 dest n w of (ret, w') \<Rightarrow> Done (Inr ret, s, w')))"

text \<open>The step of a thread that is inside \<open>dtls_sess_send_pending\<close>, called from \<open>here\<close>.\<close>

definition send_on ::
  "(send_pc \<Rightarrow> dtls_pc) \<Rightarrow> (int \<Rightarrow> dtls_pc) \<Rightarrow> ((send_pc + int) \<times> ('s, 'w) dtls_sess \<times> 'w) outcome \<Rightarrow>
   (dtls_pc \<times> ('s, 'w) dtls_sess \<times> 'w) outcome" where
  "send_on here behind m = obind m (\<lambda>(r, s', w'). Done (case r of Inl q \<Rightarrow> here q | Inr v \<Rightarrow> behind v, s', w'))"

text \<open>One step of a thread; \<open>None\<close>: it has to wait, or has returned.\<close>

fun thread_next ::
  "('x, 's, 'b, 'k, 'w) openssl \<Rightarrow> int \<Rightarrow> bytes option \<Rightarrow> int \<Rightarrow> dtls_pc \<Rightarrow> ('s, 'w) dtls_sess \<Rightarrow> 'w \<Rightarrow>
   (dtls_pc \<times> ('s, 'w) dtls_sess \<times> 'w) outcome option" where
  "thread_next L c dest n H_null s w = Some (Done (if ssl s = None then Returned 0 else H_act, s, w))"
| "thread_next L c dest n H_act s w =
     Some (Done (if state s \<noteq> DTLS_CONSTATE_ACT then H_actpass else H_test, s, w))"
| "thread_next L c dest n H_actpass s w =
     Some (Done (if state s \<noteq> DTLS_CONSTATE_ACTPASS then Returned 0 else H_test, s, w))"
| "thread_next L c dest n H_test s w =
     Some (Done (if state s = DTLS_CONSTATE_ACTPASS then H_set else H_ssl, s, w))"
| "thread_next L c dest n H_set s w = Some (Done (H_ssl, dtls_sess_set_state s DTLS_CONSTATE_ACT, w))"
| "thread_next L c dest n H_ssl s w =
     Some (case ssl s of None \<Rightarrow> Undefined
       | Some x \<Rightarrow> Done (H_lock, s\<lparr>ssl := Some (snd (SSL_do_handshake L x))\<rparr>, w))"
| "thread_next L c dest n H_lock s w = (if lock s then None else Some (Done (H_send S_null, s\<lparr>lock := True\<rparr>, w)))"
| "thread_next L c dest n (H_send q) s w = Some (send_on H_send H_unlock (send_next L c dest n q s w))"
| "thread_next L c dest n (H_unlock r) s w =
     Some (if lock s then Done (Returned r, s\<lparr>lock := False\<rparr>, w) else Undefined)"
| "thread_next L c dest n (P_null buf) s w =
     Some (if buf = [] then Undefined else Done (if ssl s = None then Returned (-1) else P_lock buf, s, w))"
| "thread_next L c dest n (P_lock buf) s w =
     (if lock s then None else Some (Done (P_unlock buf, s\<lparr>lock := True\<rparr>, w)))"
| "thread_next L c dest n (P_unlock buf) s w =
     Some (if lock s then Done (P_test buf, s\<lparr>lock := False\<rparr>, w) else Undefined)"
| "thread_next L c dest n (P_test buf) s w =
     Some (Done (if state s = DTLS_CONSTATE_ACTPASS then P_set buf else P_send buf S_null, s, w))"
| "thread_next L c dest n (P_set buf) s w = Some (Done (P_accept buf, s\<lparr>state := DTLS_CONSTATE_PASS\<rparr>, w))"
| "thread_next L c dest n (P_accept buf) s w =
     Some (case ssl s of None \<Rightarrow> Undefined
       | Some x \<Rightarrow> Done (P_send buf S_null, s\<lparr>ssl := Some (SSL_set_accept_state L x)\<rparr>, w))"
| "thread_next L c dest n (P_send buf q) s w =
     Some (send_on (P_send buf) (\<lambda>r. P_write buf) (send_next L c dest n q s w))"
| "thread_next L c dest n (P_write buf) s w =
     Some (case ssl s of None \<Rightarrow> Undefined
       | Some x \<Rightarrow> Done (P_read buf, s\<lparr>ssl := Some (snd (BIO_write L x buf))\<rparr>, w))"
| "thread_next L c dest n (P_read buf) s w =
     Some (case ssl s of None \<Rightarrow> Undefined
       | Some x \<Rightarrow> (case SSL_read L x (length buf) of (ret, y) \<Rightarrow> Done (P_error ret, s\<lparr>ssl := Some y\<rparr>, w)))"
| "thread_next L c dest n (P_error ret) s w =
     Some (case ssl s of None \<Rightarrow> Undefined
       | Some x \<Rightarrow> Done (if ret < 0 \<and> SSL_get_error L x ret = SSL_ERROR_SSL then Returned ret else P_again ret S_null, s, w))"
| "thread_next L c dest n (P_again ret q) s w =
     Some (send_on (P_again ret) (\<lambda>r. P_type ret) (send_next L c dest n q s w))"
| "thread_next L c dest n (P_type ret) s w =
     Some (case ssl s of None \<Rightarrow> Undefined
       | Some x \<Rightarrow> Done (Returned ret,
           if SSL_is_init_finished L x then s\<lparr>con_type := DTLS_CONTYPE_EXISTING\<rparr> else s, w))"
| "thread_next L c dest n T_init s w =
     Some (case ssl s of None \<Rightarrow> Undefined
       | Some x \<Rightarrow> Done (if SSL_is_init_finished L x then T_send S_null else T_timeout, s, w))"
| "thread_next L c dest n T_timeout s w =
     Some (case ssl s of None \<Rightarrow> Undefined
       | Some x \<Rightarrow> Done (T_send S_null, s\<lparr>ssl := Some (snd (DTLSv1_handle_timeout L x))\<rparr>, w))"
| "thread_next L c dest n (T_send q) s w = Some (send_on T_send Returned (send_next L c dest n q s w))"
| "thread_next L c dest n (Returned r) s w = None"

text \<open>One of the threads makes a step.\<close>

inductive threads_step ::
  "('x, 's, 'b, 'k, 'w) openssl \<Rightarrow> int \<Rightarrow> bytes option \<Rightarrow> int \<Rightarrow>
   dtls_pc list \<times> ('s, 'w) dtls_sess \<times> 'w \<Rightarrow> dtls_pc list \<times> ('s, 'w) dtls_sess \<times> 'w \<Rightarrow> bool"
  for L c dest n where
  thread: "i < length ps \<Longrightarrow> thread_next L c dest n (ps ! i) s w = Some (Done (p, s', w')) \<Longrightarrow>
     threads_step L c dest n (ps, s, w) (ps[i := p], s', w')"

text \<open>The steps that a schedule prescribes, if they can be made.\<close>

fun threads_sched ::
  "('x, 's, 'b, 'k, 'w) openssl \<Rightarrow> int \<Rightarrow> bytes option \<Rightarrow> int \<Rightarrow> nat list \<Rightarrow>
   dtls_pc list \<times> ('s, 'w) dtls_sess \<times> 'w \<Rightarrow> (dtls_pc list \<times> ('s, 'w) dtls_sess \<times> 'w) option" where
  "threads_sched L c dest n [] a = Some a"
| "threads_sched L c dest n (i # js) (ps, s, w) =
     (if i < length ps then
        case thread_next L c dest n (ps ! i) s w of
          Some (Done (p, s', w')) \<Rightarrow> threads_sched L c dest n js (ps[i := p], s', w')
        | _ \<Rightarrow> None
      else None)"

lemma threads_sched_count:
  "threads_sched L c dest n js a = Some b \<Longrightarrow> (threads_step L c dest n ^^ length js) a b"
proof (induction L c dest n js a rule: threads_sched.induct)
  case (2 L c dest n i js ps s w)
  then obtain p s' w' where go: "i < length ps" "thread_next L c dest n (ps ! i) s w = Some (Done (p, s', w'))"
      "threads_sched L c dest n js (ps[i := p], s', w') = Some b"
    by (auto split: if_splits option.splits outcome.splits)
  then have "(threads_step L c dest n ^^ length js) (ps[i := p], s', w') b" using 2 by blast
  then show ?case using threads_step.thread [OF go(1,2)] relpowp_Suc_I2 by (metis length_Cons)
qed simp

lemma threads_sched_steps:
  "threads_sched L c dest n js a = Some b \<Longrightarrow> (threads_step L c dest n)\<^sup>*\<^sup>* a b"
  by (rule relpowp_imp_rtranclp [OF threads_sched_count])

section \<open>A thread alone\<close>

fun result_of :: "dtls_pc \<Rightarrow> int option" where
  "result_of (Returned r) = Some r"
| "result_of _ = None"

text \<open>Run a thread for at most \<open>k\<close> steps; \<open>None\<close>: it has not returned by then, or waits.\<close>

primrec thread_run ::
  "('x, 's, 'b, 'k, 'w) openssl \<Rightarrow> int \<Rightarrow> bytes option \<Rightarrow> int \<Rightarrow> nat \<Rightarrow> dtls_pc \<Rightarrow> ('s, 'w) dtls_sess \<Rightarrow> 'w \<Rightarrow>
   (int \<times> ('s, 'w) dtls_sess \<times> 'w) outcome option" where
  "thread_run L c dest n 0 p s w = map_option (\<lambda>r. Done (r, s, w)) (result_of p)"
| "thread_run L c dest n (Suc k) p s w =
     (case result_of p of Some r \<Rightarrow> Some (Done (r, s, w)) | None \<Rightarrow>
      case thread_next L c dest n p s w of None \<Rightarrow> None
      | Some m \<Rightarrow> (case m of Done (p', s', w') \<Rightarrow> thread_run L c dest n k p' s' w'
         | Undefined \<Rightarrow> Some Undefined | Aborted \<Rightarrow> Some Aborted))"

lemma thread_run_returned [simp]: "thread_run L c dest n k (Returned r) s w = Some (Done (r, s, w))"
  by (cases k) simp_all

lemma thread_run_step:
  assumes "0 < k" and "result_of p = None" and "thread_next L c dest n p s w = Some (Done (p', s', w'))"
  shows "thread_run L c dest n k p s w = thread_run L c dest n (k - 1) p' s' w'"
  using assms by (cases k) simp_all

text \<open>More fuel does not change a result.\<close>

lemma thread_run_more: "thread_run L c dest n k p s w = Some r \<Longrightarrow> thread_run L c dest n (k + j) p s w = Some r"
proof (induction k arbitrary: p s w)
  case 0
  then show ?case by (cases p) auto
next
  case (Suc k)
  then show ?case by (auto split: option.splits outcome.splits)
qed

text \<open>Running through a call of \<open>dtls_sess_send_pending\<close>.\<close>

lemma send_thread:
  assumes here: "\<And>q s w. thread_next L c dest n (here q) s w = Some (send_on here behind (send_next L c dest n q s w))"
      "\<And>q. result_of (here q) = None"
    and on: "\<And>v s' w'. dtls_sess_send_pending L s c dest n w = Done (v, s', w') \<Longrightarrow>
      thread_run L c dest n k (behind v) s' w' = Some (g (v, s', w'))"
  shows "thread_run L c dest n (k + 5) (here S_null) s w = Some (obind (dtls_sess_send_pending L s c dest n w) g)"
proof (cases "ssl s")
  case None
  then have p: "dtls_sess_send_pending L s c dest n w = Done (-2, s, w)" by (simp add: dtls_sess_send_pending_def)
  from thread_run_more [OF on [OF p], of 4] show ?thesis
    by (simp add: numeral_eq_Suc here send_on_def None p)
next
  case (Some x)
  show ?thesis
  proof (cases "BIO_ctrl_pending L x = 0")
    case True
    then have p: "dtls_sess_send_pending L s c dest n w = Done (0, s, w)"
      using Some by (simp add: dtls_sess_send_pending_def)
    from thread_run_more [OF on [OF p], of 3] show ?thesis
      by (simp add: numeral_eq_Suc here send_on_def Some True p)
  next
    case False
    obtain out bs y where r: "BIO_read L x (BIO_ctrl_pending L x) = (out, bs, y)" by (cases "BIO_read L x (BIO_ctrl_pending L x)")
    show ?thesis
    proof (cases "sink s")
      case None
      then have "dtls_sess_send_pending L s c dest n w = Undefined"
        using Some False r by (simp add: dtls_sess_send_pending_def)
      then show ?thesis using None Some False r by (simp add: numeral_eq_Suc here send_on_def)
    next
      case k: (Some d)
      let ?w = "case sink_sched d of None \<Rightarrow> w | Some f \<Rightarrow> f c (dtls_sess_get_timeout L y) w"
      obtain v w' where v: "sink_sendto d c (take (nat out) bs) 0 dest n ?w = (v, w')" by fastforce
      have p: "dtls_sess_send_pending L s c dest n w =
          (if out < 0 then Undefined else Done (v, s\<lparr>ssl := Some y\<rparr>, w'))"
        using Some False r k v by (simp add: dtls_sess_send_pending_def Let_def)
      have sched: "send_next L c dest n (S_sched out bs) (s\<lparr>ssl := Some y\<rparr>) w =
          Done (Inl (S_send out bs), s\<lparr>ssl := Some y\<rparr>, ?w)"
        using k by (simp split: option.split)
      have "thread_run L c dest n (k + 5) (here S_null) s w =
          thread_run L c dest n (Suc k) (here (S_send out bs)) (s\<lparr>ssl := Some y\<rparr>) ?w"
        using Some False r sched by (simp add: numeral_eq_Suc here send_on_def del: send_next.simps(4))
      also have "\<dots> = Some (obind (dtls_sess_send_pending L s c dest n w) g)"
        using on k v by (cases "out < 0") (simp_all add: here send_on_def p)
      finally show ?thesis .
    qed
  qed
qed

lemmas send_threads = send_thread [of L c dest n H_send H_unlock]
  send_thread [of L c dest n "P_send buf" "\<lambda>r. P_write buf"]
  send_thread [of L c dest n "P_again ret" "\<lambda>r. P_type ret"]
  send_thread [of L c dest n T_send Returned] for L c dest n buf ret

lemma send_pending_alive:
  assumes "dtls_sess_send_pending L s c dest n w = Done (r, s', w')" and "ssl s = Some x"
  obtains y where "ssl s' = Some y"
  using send_pending_frame(5) [OF assms(1)] assms(2) by auto

text \<open>The handshake, from its lock on.\<close>

lemma handshake_thread_lock:
  assumes "\<not> lock s"
  shows "thread_run L c dest n (k + 7) H_lock s w =
    Some (obind (dtls_sess_send_pending L (s\<lparr>lock := True\<rparr>) c dest n w)
      (\<lambda>(r, s', w'). Done (r, s'\<lparr>lock := False\<rparr>, w')))"
proof -
  have "thread_run L c dest n (Suc k + 5) (H_send S_null) (s\<lparr>lock := True\<rparr>) w =
    Some (obind (dtls_sess_send_pending L (s\<lparr>lock := True\<rparr>) c dest n w)
      (\<lambda>(r, s', w'). Done (r, s'\<lparr>lock := False\<rparr>, w')))"
    by (rule send_threads(1)) (auto dest: send_pending_frame(2))
  then show ?thesis using assms by (simp add: numeral_eq_Suc)
qed

lemma handshake_thread:
  assumes "\<not> lock s"
  shows "thread_run L c dest n 13 H_null s w = Some (dtls_do_handshake L s c dest n w)"
proof (cases "ssl s = None \<or> state s \<noteq> DTLS_CONSTATE_ACT \<and> state s \<noteq> DTLS_CONSTATE_ACTPASS")
  case True
  then show ?thesis by (auto simp: numeral_eq_Suc dtls_do_handshake_def dtls_sess_get_state_def split: option.split)
next
  case False
  then obtain x where x: "ssl s = Some x" "state s = DTLS_CONSTATE_ACT \<or> state s = DTLS_CONSTATE_ACTPASS" by auto
  let ?s = "s\<lparr>state := DTLS_CONSTATE_ACT, ssl := Some (snd (SSL_do_handshake L x))\<rparr>"
  have "thread_run L c dest n 13 H_null s w =
      thread_run L c dest n ((if state s = DTLS_CONSTATE_ACT then 2 else 0) + 7) H_lock ?s w"
    using x by (cases s) (auto simp: thread_run_step dtls_sess_set_state_def simp del: thread_run.simps)
  also have "\<dots> = Some (dtls_do_handshake L s c dest n w)"
    using x assms by (subst handshake_thread_lock, simp, cases s)
      (auto simp: dtls_do_handshake_def dtls_sess_get_state_def dtls_sess_set_state_def)
  finally show ?thesis .
qed

lemma timeout_thread:
  "thread_run L c dest n 7 T_init s w = Some (dtls_sess_handle_timeout L s c dest n w)"
proof (cases "ssl s")
  case (Some x)
  let ?s = "if SSL_is_init_finished L x then s else s\<lparr>ssl := Some (snd (DTLSv1_handle_timeout L x))\<rparr>"
  have "thread_run L c dest n 7 T_init s w =
      thread_run L c dest n ((if SSL_is_init_finished L x then 1 else 0) + 5) (T_send S_null) ?s w"
    using Some by (cases "SSL_is_init_finished L x") (simp_all add: thread_run_step del: thread_run.simps)
  also have "\<dots> = Some (obind (dtls_sess_send_pending L ?s c dest n w) Done)"
    by (rule send_threads(4)) simp_all
  also have "obind (dtls_sess_send_pending L ?s c dest n w) Done = dtls_sess_send_pending L ?s c dest n w"
    by (cases "dtls_sess_send_pending L ?s c dest n w") simp_all
  finally show ?thesis using Some by (simp add: dtls_sess_handle_timeout_def)
qed (simp add: numeral_eq_Suc dtls_sess_handle_timeout_def)

text \<open>The end of \<open>dtls_sess_put_packet\<close>, and its part behind the mutex.\<close>

lemma packet_thread_end:
  assumes "ssl s = Some x"
  shows "thread_run L c dest n (k + 6) (P_again r S_null) s w =
    Some (obind (dtls_sess_send_pending L s c dest n w) (\<lambda>(r3, s', w').
      Done (r, if SSL_is_init_finished L (the (ssl s'))
               then s'\<lparr>con_type := DTLS_CONTYPE_EXISTING\<rparr> else s', w')))"
proof -
  have "thread_run L c dest n (Suc k + 5) (P_again r S_null) s w =
    Some (obind (dtls_sess_send_pending L s c dest n w) (\<lambda>(r3, s', w').
      Done (r, if SSL_is_init_finished L (the (ssl s'))
               then s'\<lparr>con_type := DTLS_CONTYPE_EXISTING\<rparr> else s', w')))"
    by (rule send_threads(3)) (use assms in \<open>auto elim: send_pending_alive\<close>)
  then show ?thesis by (simp add: numeral_eq_Suc)
qed

lemma packet_thread_read:
  assumes "ssl s = Some x"
  shows "thread_run L c dest n (k + 9) (P_write buf) s w =
    Some (case SSL_read L (snd (BIO_write L x buf)) (length buf) of (r, y) \<Rightarrow>
      if r < 0 \<and> SSL_get_error L y r = SSL_ERROR_SSL then Done (r, s\<lparr>ssl := Some y\<rparr>, w)
      else obind (dtls_sess_send_pending L (s\<lparr>ssl := Some y\<rparr>) c dest n w) (\<lambda>(r3, s', w').
        Done (r, if SSL_is_init_finished L (the (ssl s'))
                 then s'\<lparr>con_type := DTLS_CONTYPE_EXISTING\<rparr> else s', w')))"
proof (cases "SSL_read L (snd (BIO_write L x buf)) (length buf)")
  case (Pair r y)
  show ?thesis
  proof (cases "r < 0 \<and> SSL_get_error L y r = SSL_ERROR_SSL")
    case True
    then show ?thesis using assms Pair by (simp add: numeral_eq_Suc)
  next
    case False
    then have "thread_run L c dest n (k + 9) (P_write buf) s w =
        thread_run L c dest n (k + 6) (P_again r S_null) (s\<lparr>ssl := Some y\<rparr>) w"
      using assms Pair by (auto simp: numeral_eq_Suc)
    also have "\<dots> = Some (obind (dtls_sess_send_pending L (s\<lparr>ssl := Some y\<rparr>) c dest n w) (\<lambda>(r3, s', w').
        Done (r, if SSL_is_init_finished L (the (ssl s'))
                 then s'\<lparr>con_type := DTLS_CONTYPE_EXISTING\<rparr> else s', w')))"
      by (rule packet_thread_end) simp
    finally show ?thesis by (simp only: Pair prod.case False if_False)
  qed
qed

lemma packet_thread_send:
  assumes "ssl s = Some x"
  shows "thread_run L c dest n (k + 14) (P_send buf S_null) s w =
    Some (obind (dtls_sess_send_pending L s c dest n w) (\<lambda>(r1, s2, w2).
      case SSL_read L (snd (BIO_write L (the (ssl s2)) buf)) (length buf) of (r, y) \<Rightarrow>
      if r < 0 \<and> SSL_get_error L y r = SSL_ERROR_SSL then Done (r, s2\<lparr>ssl := Some y\<rparr>, w2)
      else obind (dtls_sess_send_pending L (s2\<lparr>ssl := Some y\<rparr>) c dest n w2) (\<lambda>(r3, s', w').
        Done (r, if SSL_is_init_finished L (the (ssl s'))
                 then s'\<lparr>con_type := DTLS_CONTYPE_EXISTING\<rparr> else s', w'))))" (is "_ = Some (obind _ ?g)")
proof -
  have "thread_run L c dest n (k + 9 + 5) (P_send buf S_null) s w =
      Some (obind (dtls_sess_send_pending L s c dest n w) ?g)"
  proof (rule send_threads(2))
    fix v s' w' assume "dtls_sess_send_pending L s c dest n w = Done (v, s', w')"
    then obtain y where "ssl s' = Some y" using assms by (rule send_pending_alive)
    then show "thread_run L c dest n (k + 9) (P_write buf) s' w' = Some (?g (v, s', w'))"
      by (simp only: packet_thread_read prod.case option.sel)
  qed simp_all
  moreover have "k + 9 + 5 = k + 14" by simp
  ultimately show ?thesis by (simp only:)
qed

lemma packet_thread:
  assumes "\<not> lock s"
  shows "thread_run L c dest n 20 (P_null buf) s w = Some (dtls_sess_put_packet L s c buf dest n w)"
proof (cases "buf = [] \<or> ssl s = None")
  case True
  then show ?thesis by (auto simp: numeral_eq_Suc dtls_sess_put_packet_def split: option.split)
next
  case False
  then obtain x where x: "ssl s = Some x" "buf \<noteq> []" by auto
  let ?s1 = "become_passive L s x"
  obtain y where y: "ssl ?s1 = Some y" using x(1)
    by (cases "state s = DTLS_CONSTATE_ACTPASS") (auto simp: become_passive_def)
  have "thread_run L c dest n 20 (P_null buf) s w =
      thread_run L c dest n ((if state s = DTLS_CONSTATE_ACTPASS then 0 else 2) + 14) (P_send buf S_null) ?s1 w"
    using x assms by (cases s) (simp add: thread_run_step become_passive_def del: thread_run.simps)
  also have "\<dots> = Some (dtls_sess_put_packet L s c buf dest n w)"
    using x assms by (simp only: packet_thread_send [OF y]) (simp add: dtls_sess_put_packet_def Let_def)
  finally show ?thesis .
qed

text \<open>
  The steps against the functions: a thread that runs alone on a free session computes what
  \<open>dtls_do_handshake\<close>, \<open>dtls_sess_put_packet\<close> and \<open>dtls_sess_handle_timeout\<close> compute, with the same result,
  session and process, also on every path that is undefined.
\<close>

lemmas thread_alone = handshake_thread packet_thread timeout_thread

section \<open>The mutex\<close>

fun holding :: "dtls_pc \<Rightarrow> bool" where
  "holding (H_send q) = True"
| "holding (H_unlock r) = True"
| "holding (P_unlock buf) = True"
| "holding _ = False"

lemma length_filter_update:
  "i < length xs \<Longrightarrow> length (filter P (xs[i := y])) + of_bool (P (xs ! i)) = length (filter P xs) + of_bool (P y)"
proof (induction xs arbitrary: i)
  case (Cons x xs)
  then show ?case by (cases i) auto
qed simp

text \<open>Inside \<open>dtls_sess_send_pending\<close>, nothing but the \<open>SSL\<close> and the process changes.\<close>

lemma send_next_frame:
  assumes "send_next L c dest n q s w = Done (r, s', w')"
  shows "state s' = state s" "lock s' = lock s" "sink s' = sink s" "con_type s' = con_type s"
    "ssl s' = None \<longleftrightarrow> ssl s = None"
  using assms by (cases q; auto split: option.splits prod.splits if_splits)+

lemma send_on_cases:
  assumes "send_on here behind m = Done (q, s', w')"
  obtains (inside) p where "m = Done (Inl p, s', w')" "q = here p"
  | (returned) v where "m = Done (Inr v, s', w')" "q = behind v"
  using assms by (cases m) (auto simp: send_on_def split: sum.splits)

text \<open>A step takes the mutex exactly when the thread starts to hold it.\<close>

lemma thread_next_lock:
  assumes "thread_next L c dest n p s w = Some (Done (q, s', w'))"
  shows "of_bool (holding q) + of_bool (lock s) = (of_bool (holding p) + of_bool (lock s') :: nat)"
  using assms
  by (cases p) (auto simp: dtls_sess_set_state_def split: if_splits option.splits prod.splits
      elim!: send_on_cases dest: send_next_frame(2))

definition mutex_ok :: "dtls_pc list \<times> ('s, 'w) dtls_sess \<times> 'w \<Rightarrow> bool" where
  "mutex_ok = (\<lambda>(ps, s, w). length (filter holding ps) = of_bool (lock s))"

lemma threads_step_mutex:
  assumes "threads_step L c dest n a b" and "mutex_ok a"
  shows "mutex_ok b"
  using assms
proof cases
  case (thread i ps s w p s' w')
  then show ?thesis
    using assms(2) length_filter_update [OF thread(3), of holding p] thread_next_lock [OF thread(4)]
    by (simp add: mutex_ok_def)
qed

lemma threads_inv:
  assumes "(threads_step L c dest n)\<^sup>*\<^sup>* a b" and "I a"
    and "\<And>x y. threads_step L c dest n x y \<Longrightarrow> I x \<Longrightarrow> I y"
  shows "I b"
  using assms(1,2) by (induction rule: rtranclp_induct) (auto intro: assms(3))

text \<open>Threads that have not started yet, on packets that are not empty.\<close>

fun starting :: "dtls_pc \<Rightarrow> bool" where
  "starting H_null = True"
| "starting (P_null buf) = (buf \<noteq> [])"
| "starting T_init = True"
| "starting _ = False"

lemma starting_not_holding: "starting p \<Longrightarrow> \<not> holding p"
  by (cases p) simp_all

lemma starting_mutex:
  assumes "list_all starting ps" and "\<not> lock s"
  shows "mutex_ok (ps, s, w)"
proof -
  have "filter holding ps = []"
    using assms(1) starting_not_holding by (auto simp: filter_empty_conv list_all_iff)
  then show ?thesis using assms(2) by (simp add: mutex_ok_def)
qed

text \<open>
  (C32) Mutual exclusion. However the threads of a session interleave, the mutex is held exactly
  when one of them is between its lock and its unlock, and there is never a second one: the part
  of \<open>dtls_do_handshake\<close> that sends what is pending is not entered twice at a time.
\<close>

theorem dtls_threads_mutex:
  assumes "list_all starting ps" and "\<not> lock s"
    and "(threads_step L c dest n)\<^sup>*\<^sup>* (ps, s, w) (ps', s', w')"
  shows "length (filter holding ps') = (if lock s' then 1 else 0)"
proof -
  have "mutex_ok (ps', s', w')"
    by (rule threads_inv [OF assms(3)]) (use assms(1,2) in \<open>auto intro: starting_mutex threads_step_mutex\<close>)
  then show ?thesis by (simp add: mutex_ok_def)
qed

theorem dtls_threads_mutex_witness:
  "length (filter holding [H_act, P_unlock [22]]) = (if lock (toy_new\<lparr>lock := True\<rparr>) then 1 else 0)"
proof -
  have "(threads_step toy_ssl 5 None 0)\<^sup>*\<^sup>* ([H_null, P_null [22]], toy_new, (4, 1, []))
      ([H_act, P_unlock [22]], toy_new\<lparr>lock := True\<rparr>, (4, 1, []))"
    by (rule threads_sched_steps [of _ _ _ _ "[0, 1, 1]"]) (simp add: toy_new_def)
  then show ?thesis
    by (intro dtls_threads_mutex [of "[H_null, P_null [22]]" toy_new]) (simp_all add: toy_new_def)
qed

section \<open>Every thread returns\<close>

text \<open>How many steps a thread has before it at most.\<close>

fun send_left :: "send_pc \<Rightarrow> nat" where
  "send_left S_null = 5"
| "send_left S_pending = 4"
| "send_left (S_read k) = 3"
| "send_left (S_sched out bs) = 2"
| "send_left (S_send out bs) = 1"

fun steps_left :: "dtls_pc \<Rightarrow> nat" where
  "steps_left H_null = 13"
| "steps_left H_act = 12"
| "steps_left H_actpass = 11"
| "steps_left H_test = 10"
| "steps_left H_set = 9"
| "steps_left H_ssl = 8"
| "steps_left H_lock = 7"
| "steps_left (H_send q) = 1 + send_left q"
| "steps_left (H_unlock r) = 1"
| "steps_left (P_null buf) = 20"
| "steps_left (P_lock buf) = 19"
| "steps_left (P_unlock buf) = 18"
| "steps_left (P_test buf) = 17"
| "steps_left (P_set buf) = 16"
| "steps_left (P_accept buf) = 15"
| "steps_left (P_send buf q) = 9 + send_left q"
| "steps_left (P_write buf) = 9"
| "steps_left (P_read buf) = 8"
| "steps_left (P_error r) = 7"
| "steps_left (P_again r q) = 1 + send_left q"
| "steps_left (P_type r) = 1"
| "steps_left T_init = 7"
| "steps_left T_timeout = 6"
| "steps_left (T_send q) = send_left q"
| "steps_left (Returned r) = 0"

text \<open>
  Where a thread is about to send as many bytes as a failed \<open>BIO_read\<close> returned: the undefined
  read behind the array.
\<close>

fun over_read :: "dtls_pc \<Rightarrow> bool" where
  "over_read (H_send (S_send out bs)) = (out < 0)"
| "over_read (P_send buf (S_send out bs)) = (out < 0)"
| "over_read (P_again r (S_send out bs)) = (out < 0)"
| "over_read (T_send (S_send out bs)) = (out < 0)"
| "over_read _ = False"

text \<open>
  Contract: a step relation whose steps keep an invariant and use up a budget, and that can go
  on from every state with the invariant that is not final.
\<close>

locale bounded_steps =
  fixes step :: "'a \<Rightarrow> 'a \<Rightarrow> bool" and inv :: "'a \<Rightarrow> bool" and budget :: "'a \<Rightarrow> nat" and final :: "'a \<Rightarrow> bool"
  assumes step_inv: "inv a \<Longrightarrow> step a b \<Longrightarrow> inv b"
    and step_budget: "inv a \<Longrightarrow> step a b \<Longrightarrow> budget b < budget a"
    and step_on: "inv a \<Longrightarrow> \<not> final a \<Longrightarrow> \<exists>b. step a b"
begin

lemma steps_inv: "step\<^sup>*\<^sup>* a b \<Longrightarrow> inv a \<Longrightarrow> inv b"
  by (induction rule: rtranclp_induct) (auto intro: step_inv)

lemma steps_budget: "(step ^^ k) a b \<Longrightarrow> inv a \<Longrightarrow> k + budget b \<le> budget a"
proof (induction k arbitrary: b)
  case (Suc k)
  then obtain m where m: "(step ^^ k) a m" "step m b" by auto
  have "inv m" using m(1) Suc.prems(2) by (auto intro: steps_inv relpowp_imp_rtranclp)
  then show ?case using Suc.IH [OF m(1) Suc.prems(2)] step_budget [OF _ m(2)] by simp
qed simp

lemma reaches_final: "inv a \<Longrightarrow> \<exists>b. step\<^sup>*\<^sup>* a b \<and> final b \<and> inv b"
proof (induction "budget a" arbitrary: a rule: less_induct)
  case less
  show ?case
  proof (cases "final a")
    case False
    then obtain m where m: "step a m" using less.prems step_on by blast
    then obtain b where "step\<^sup>*\<^sup>* m b" "final b" "inv b"
      using less.hyps step_budget step_inv less.prems by blast
    then show ?thesis using m by (meson converse_rtranclp_into_rtranclp)
  qed (use less.prems in blast)
qed

end

text \<open>The session can be used, and no thread has an empty packet.\<close>

definition threads_ok :: "dtls_pc list \<times> ('s, 'w) dtls_sess \<times> 'w \<Rightarrow> bool" where
  "threads_ok a \<longleftrightarrow> mutex_ok a \<and> (case a of (ps, s, w) \<Rightarrow>
     ssl s \<noteq> None \<and> sink s \<noteq> None \<and> P_null [] \<notin> set ps)"

definition all_returned :: "dtls_pc list \<times> ('s, 'w) dtls_sess \<times> 'w \<Rightarrow> bool" where
  "all_returned = (\<lambda>(ps, s, w). list_all (\<lambda>p. result_of p \<noteq> None) ps)"

definition total_left :: "dtls_pc list \<times> ('s, 'w) dtls_sess \<times> 'w \<Rightarrow> nat" where
  "total_left = (\<lambda>(ps, s, w). sum_list (map steps_left ps))"

lemma send_next_left: "send_next L c dest n q s w = Done (Inl q', s', w') \<Longrightarrow> send_left q' < send_left q"
  by (cases q) (auto split: option.splits prod.splits if_splits)

lemma thread_next_steps_left:
  assumes "thread_next L c dest n p s w = Some (Done (q, s', w'))"
  shows "steps_left q < steps_left p"
proof -
  have pos: "0 < send_left q" for q by (cases q) simp_all
  show ?thesis using assms
    by (cases p) (auto split: if_splits option.splits prod.splits elim!: send_on_cases dest: send_next_left simp: pos)
qed

lemma thread_next_frame:
  assumes "thread_next L c dest n p s w = Some (Done (q, s', w'))"
  shows "ssl s' = None \<longleftrightarrow> ssl s = None" "sink s' = sink s" "q \<noteq> P_null []"
proof -
  have "(ssl s' = None \<longleftrightarrow> ssl s = None) \<and> sink s' = sink s \<and> q \<noteq> P_null []"
    using assms
    by (cases p) (auto simp: dtls_sess_set_state_def split: if_splits option.splits prod.splits
        elim!: send_on_cases dest: send_next_frame(3,5))
  then show "ssl s' = None \<longleftrightarrow> ssl s = None" "sink s' = sink s" "q \<noteq> P_null []" by blast+
qed

text \<open>The only thread that does not go on is one that waits for the mutex or has returned.\<close>

lemma thread_next_waits:
  "thread_next L c dest n p s w = None \<longleftrightarrow>
     result_of p \<noteq> None \<or> lock s \<and> (p = H_lock \<or> (\<exists>buf. p = P_lock buf))"
  by (cases p) simp_all

text \<open>On a session in use, the one step that is undefined is the over-read.\<close>

lemma send_next_defined:
  assumes "ssl s \<noteq> None" and "sink s \<noteq> None"
  shows "send_next L c dest n q s w \<noteq> Aborted"
    and "send_next L c dest n q s w = Undefined \<longleftrightarrow> (\<exists>out bs. q = S_send out bs \<and> out < 0)"
  using assms by (cases q; auto split: option.split prod.split)+

lemma send_on_defined:
  "send_on here behind m = Undefined \<longleftrightarrow> m = Undefined" "send_on here behind m = Aborted \<longleftrightarrow> m = Aborted"
  by (cases m; auto simp: send_on_def)+

lemma over_read_send:
  "over_read (H_send q) \<longleftrightarrow> (\<exists>out bs. q = S_send out bs \<and> out < 0)"
  "over_read (P_send buf q) \<longleftrightarrow> (\<exists>out bs. q = S_send out bs \<and> out < 0)"
  "over_read (P_again r q) \<longleftrightarrow> (\<exists>out bs. q = S_send out bs \<and> out < 0)"
  "over_read (T_send q) \<longleftrightarrow> (\<exists>out bs. q = S_send out bs \<and> out < 0)"
  by (cases q; simp)+

lemma thread_next_defined:
  assumes s: "ssl s \<noteq> None" "sink s \<noteq> None" and h: "holding p \<longrightarrow> lock s" and p: "p \<noteq> P_null []"
  shows "thread_next L c dest n p s w \<noteq> Some Aborted"
    and "thread_next L c dest n p s w = Some Undefined \<longleftrightarrow> over_read p"
proof -
  note d = send_on_defined send_next_defined [OF s]
  show "thread_next L c dest n p s w \<noteq> Some Aborted"
    using s h p by (cases p) (auto simp: d split: prod.splits)
  show "thread_next L c dest n p s w = Some Undefined \<longleftrightarrow> over_read p"
    using s h p by (cases p) (auto simp: d over_read_send split: prod.splits)
qed

lemma threads_ok_holding:
  assumes "threads_ok (ps, s, w)" and "p \<in> set ps" and "holding p"
  shows "lock s"
proof -
  have "filter holding ps \<noteq> []" using assms(2,3) by (auto simp: filter_empty_conv)
  then show ?thesis using assms(1) by (auto simp: threads_ok_def mutex_ok_def of_bool_def split: if_splits)
qed

lemma threads_steps_defined:
  assumes ok: "threads_ok (ps, s, w)" and p: "p \<in> set ps"
  shows "thread_next L c dest n p s w \<noteq> Some Aborted \<and>
    (thread_next L c dest n p s w = Some Undefined \<longleftrightarrow> over_read p)"
  using ok p threads_ok_holding [OF ok p]
  by (intro conjI thread_next_defined) (auto simp: threads_ok_def)

lemma threads_ok_goes_on:
  assumes ok: "threads_ok (ps, s, w)" and p: "p \<in> set ps" "\<not> over_read p"
    and on: "thread_next L c dest n p s w \<noteq> None"
  shows "\<exists>a. threads_step L c dest n (ps, s, w) a"
proof -
  obtain m where "thread_next L c dest n p s w = Some m" using on by blast
  then obtain q s' w' where "thread_next L c dest n p s w = Some (Done (q, s', w'))"
    using threads_steps_defined [OF ok p(1), of L c dest n] p(2) by (cases m) auto
  then show ?thesis using p by (auto simp: in_set_conv_nth intro: threads_step.thread)
qed

lemma threads_ok_step:
  assumes "threads_step L c dest n a b" and "threads_ok a"
  shows "threads_ok b \<and> total_left b < total_left a"
  using assms(1)
proof cases
  case (thread i ps s w p s' w')
  have "steps_left (ps ! i) \<le> sum_list (map steps_left ps)"
    using thread(3) by (intro member_le_sum_list) auto
  then have "total_left b < total_left a"
    using thread thread_next_steps_left [OF thread(4)]
    by (simp add: total_left_def map_update sum_list_update)
  moreover have "threads_ok b"
    using threads_step_mutex [OF assms(1)] assms(2) thread thread_next_frame [OF thread(4)]
    by (auto simp: threads_ok_def dest!: set_update_subset_insert [THEN subsetD])
  ultimately show ?thesis by blast
qed

definition over_reading :: "dtls_pc list \<times> ('s, 'w) dtls_sess \<times> 'w \<Rightarrow> bool" where
  "over_reading = (\<lambda>(ps, s, w). list_ex over_read ps)"

lemma threads_ok_deadlock_free:
  assumes ok: "threads_ok a" and "\<not> (all_returned a \<or> over_reading a)"
  shows "\<exists>b. threads_step L c dest n a b"
proof -
  obtain ps s w where a: "a = (ps, s, w)" by (cases a)
  have no: "\<not> over_read p" if "p \<in> set ps" for p
    using assms(2) that by (auto simp: a over_reading_def list_ex_iff)
  show ?thesis
  proof (cases "lock s")
    case True
    then have "filter holding ps \<noteq> []" using ok by (auto simp: a threads_ok_def mutex_ok_def)
    then obtain p where "p \<in> set ps" "holding p" by (auto simp: filter_empty_conv)
    moreover have "thread_next L c dest n p s w \<noteq> None"
      using \<open>holding p\<close> unfolding thread_next_waits by (cases p) auto
    ultimately show ?thesis using threads_ok_goes_on [of ps s w p L c dest n] no ok a by simp
  next
    case False
    obtain p where "p \<in> set ps" "result_of p = None" using assms(2) by (auto simp: a all_returned_def list_all_iff)
    moreover have "thread_next L c dest n p s w \<noteq> None" using False \<open>result_of p = None\<close> by (simp add: thread_next_waits)
    ultimately show ?thesis using threads_ok_goes_on [of ps s w p L c dest n] no ok a by simp
  qed
qed

interpretation dtls_threads: bounded_steps "threads_step L c dest n" threads_ok total_left
  "\<lambda>a. all_returned a \<or> over_reading a" for L c dest n
  by unfold_locales (use threads_ok_step threads_ok_deadlock_free in blast)+

lemma starting_ok:
  assumes "list_all starting ps" and "live s"
  shows "threads_ok (ps, s, w)" "total_left (ps, s, w) \<le> 20 * length ps"
proof -
  have "P_null [] \<notin> set ps" using assms(1) by (auto simp: list_all_iff)
  then show "threads_ok (ps, s, w)"
    using assms starting_mutex [OF assms(1), of s w] by (simp add: threads_ok_def live_def)
  have q: "send_left q \<le> k" if "5 \<le> k" for q k using that by (cases q) simp_all
  have "steps_left p \<le> 20" for p by (cases p) (simp_all add: q)
  then have "sum_list (map steps_left ps) \<le> sum_list (map (\<lambda>p. 20) ps)" by (rule sum_list_mono)
  then show "total_left (ps, s, w) \<le> 20 * length ps" by (simp add: total_left_def sum_list_triv)
qed

lemma all_returned_live:
  assumes "threads_ok (ps, s, w)" and "all_returned (ps, s, w)"
  shows "live s"
proof -
  have "filter holding ps = []"
  proof -
    have "\<not> holding p" if "p \<in> set ps" for p
      using assms(2) that by (cases p) (auto simp: all_returned_def list_all_iff)
    then show ?thesis by (simp add: filter_empty_conv)
  qed
  then show ?thesis using assms(1)
    by (auto simp: threads_ok_def mutex_ok_def live_def of_bool_def split: if_splits)
qed

text \<open>
  (C10) No dead lock, and one undefined behaviour. Whatever threads start the handshake, handle a
  timeout and put packets that are not empty on a session that is ready, and however they
  interleave, together they make at most 20 steps for each thread; no thread ever unlocks a free
  mutex or dereferences null; the only undefined step is that of a thread whose \<open>BIO_read\<close> found
  nothing and that sends the result, -1, as a length; and unless that happens, when none of them
  can go on, all have returned and the session is ready again.
\<close>

theorem dtls_threads_finish:
  assumes "live s" and "list_all starting ps"
    and "(threads_step L c dest n ^^ k) (ps, s, w) (ps', s', w')"
  shows "k \<le> 20 * length ps \<and>
    list_all (\<lambda>p. thread_next L c dest n p s' w' \<noteq> Some Aborted \<and>
      (thread_next L c dest n p s' w' = Some Undefined \<longleftrightarrow> over_read p)) ps' \<and>
    ((\<exists>b. threads_step L c dest n (ps', s', w') b) \<or> list_ex over_read ps' \<or>
      list_all (\<lambda>p. result_of p \<noteq> None) ps' \<and> live s')"
proof -
  note start = starting_ok [OF assms(2,1)]
  have ok: "threads_ok (ps', s', w')"
    using dtls_threads.steps_inv [OF relpowp_imp_rtranclp [OF assms(3)]] start(1) by blast
  have "k \<le> 20 * length ps"
    using dtls_threads.steps_budget [OF assms(3)] start [of w] by simp
  moreover have "(\<exists>b. threads_step L c dest n (ps', s', w') b) \<or> list_ex over_read ps' \<or>
      list_all (\<lambda>p. result_of p \<noteq> None) ps' \<and> live s'"
    using threads_ok_deadlock_free [OF ok] all_returned_live [OF ok]
    unfolding all_returned_def over_reading_def by auto
  moreover have "list_all (\<lambda>p. thread_next L c dest n p s' w' \<noteq> Some Aborted \<and>
      (thread_next L c dest n p s' w' = Some Undefined \<longleftrightarrow> over_read p)) ps'"
    using threads_steps_defined [OF ok, of _ L c dest n] unfolding list_all_iff by blast
  ultimately show ?thesis by blast
qed

theorem dtls_threads_finish_witness:
  "3 \<le> 20 * length [H_null, P_null [22]] \<and>
    list_all (\<lambda>p. thread_next toy_ssl 5 None 0 p (toy_new\<lparr>lock := True\<rparr>) (4, 1, []) \<noteq> Some Aborted \<and>
      (thread_next toy_ssl 5 None 0 p (toy_new\<lparr>lock := True\<rparr>) (4, 1, []) = Some Undefined \<longleftrightarrow> over_read p))
      [H_act, P_unlock [22]] \<and>
    ((\<exists>b. threads_step toy_ssl 5 None 0 ([H_act, P_unlock [22]], toy_new\<lparr>lock := True\<rparr>, (4, 1, [])) b) \<or>
       list_ex over_read [H_act, P_unlock [22]] \<or>
       list_all (\<lambda>p. result_of p \<noteq> None) [H_act, P_unlock [22]] \<and> live (toy_new\<lparr>lock := True\<rparr>))"
proof (rule dtls_threads_finish)
  have len: "length [0 :: nat, 1, 1] = 3" by simp
  show "(threads_step toy_ssl 5 None 0 ^^ 3) ([H_null, P_null [22]], toy_new, (4, 1, []))
      ([H_act, P_unlock [22]], toy_new\<lparr>lock := True\<rparr>, (4, 1, []))"
    by (rule threads_sched_count [of _ _ _ _ "[0, 1, 1]", unfolded len]) (simp add: toy_new_def)
qed (simp_all add: toy_new_def live_def)

text \<open>
  (C11) The undefined behaviour is reached. The mutex covers only the sending of
  \<open>dtls_do_handshake\<close>; when the timer and a packet find the same bytes pending, there is an
  interleaving in which one thread reads them, the other gets -1 from \<open>BIO_read\<close> and passes it to
  the sink as the length of its array.
\<close>

theorem dtls_threads_send_race:
  assumes "bio_reads L" and "bio_empty L" and "live s" and "state s \<noteq> DTLS_CONSTATE_ACTPASS" and "buf \<noteq> []"
    and x: "ssl s = Some x" "SSL_is_init_finished L x" "0 < BIO_ctrl_pending L x"
  shows "\<exists>p ps' s' w'. (threads_step L c dest n)\<^sup>*\<^sup>* ([T_init, P_null buf], s, w) (ps', s', w') \<and>
    p \<in> set ps' \<and> thread_next L c dest n p s' w' = Some Undefined"
proof -
  obtain bs y where y: "BIO_read L x (BIO_ctrl_pending L x) = (int (BIO_ctrl_pending L x), bs, y)"
      "BIO_ctrl_pending L y = 0"
    using assms(1) x(3) unfolding bio_reads_def by blast
  obtain bs' z where z: "BIO_read L y (BIO_ctrl_pending L x) = (-1, bs', z)"
    using assms(2) y(2) unfolding bio_empty_def by (metis prod.collapse)
  obtain k where k: "sink s = Some k" using assms(3) by (auto simp: live_def)
  let ?w = "case sink_sched k of None \<Rightarrow> w | Some f \<Rightarrow> f c (dtls_sess_get_timeout L z) w"
  have "(threads_step L c dest n)\<^sup>*\<^sup>* ([T_init, P_null buf], s, w)
      ([T_send (S_sched (int (BIO_ctrl_pending L x)) bs), P_send buf (S_send (-1) bs')],
       s\<lparr>lock := False, ssl := Some z\<rparr>, ?w)"
    by (rule threads_sched_steps [of _ _ _ _ "[1, 1, 1, 1, 1, 1, 0, 0, 0, 0, 1, 1]"])
      (use assms(3-5) x y z k in \<open>simp add: live_def send_on_def split: option.split\<close>)
  then show ?thesis using k
    by (intro exI [of _ "P_send buf (S_send (-1) bs')"]) (force simp: send_on_def)
qed

definition toy_pending :: "(toy_conn, toy_world) dtls_sess" where
  "toy_pending = toy_new\<lparr>ssl := Some \<lparr>toy_server = True, toy_done = True, toy_out = [1, 2], toy_in = [],
     toy_bios = 2\<rparr>, state := DTLS_CONSTATE_PASS\<rparr>"

theorem dtls_threads_send_race_witness:
  "\<exists>p ps' s' w'. (threads_step toy_ssl 5 None 0)\<^sup>*\<^sup>* ([T_init, P_null [22]], toy_pending, (4, 1, [])) (ps', s', w') \<and>
    p \<in> set ps' \<and> thread_next toy_ssl 5 None 0 p s' w' = Some Undefined"
  by (rule dtls_threads_send_race [OF toy_reads toy_empty, where x = "\<lparr>toy_server = True, toy_done = True,
      toy_out = [1, 2], toy_in = [], toy_bios = 2\<rparr>"])
    (simp_all add: toy_pending_def toy_new_def live_def toy_ssl_def)

section \<open>The role under interleaving\<close>

text \<open>Where a thread is about to change the role of the session or of its \<open>SSL\<close>.\<close>

fun committing :: "dtls_pc \<Rightarrow> bool" where
  "committing H_set = True"
| "committing (P_set buf) = True"
| "committing (P_accept buf) = True"
| "committing _ = False"

definition settled :: "('s \<Rightarrow> bool) \<Rightarrow> dtls_con_state \<Rightarrow> bool \<Rightarrow> dtls_pc list \<times> ('s, 'w) dtls_sess \<times> 'w \<Rightarrow> bool" where
  "settled server st b = (\<lambda>(ps, s, w). list_all (\<lambda>p. \<not> committing p) ps \<and> state s = st \<and>
     (\<forall>x. ssl s = Some x \<longrightarrow> server x = b))"

lemma send_next_server:
  assumes roles: "ssl_roles L server" and d: "send_next L c dest n q s w = Done (r, s', w')"
    and s: "\<forall>x. ssl s = Some x \<longrightarrow> server x = b"
  shows "\<forall>x. ssl s' = Some x \<longrightarrow> server x = b"
proof -
  have "server y = server x" if "BIO_read L x k = (out, bs, y)" for x k out bs y
    using roles that unfolding ssl_roles_def by (metis snd_conv)
  then show ?thesis using d s by (cases q) (auto split: option.splits prod.splits if_splits)
qed

text \<open>A thread that finds the role decided does not change it.\<close>

lemma thread_next_settled:
  assumes roles: "ssl_roles L server" and st: "st \<noteq> DTLS_CONSTATE_ACTPASS"
    and d: "thread_next L c dest n p s w = Some (Done (q, s', w'))"
    and s: "\<not> committing p" "state s = st" "\<forall>x. ssl s = Some x \<longrightarrow> server x = b"
  shows "\<not> committing q \<and> state s' = st \<and> (\<forall>x. ssl s' = Some x \<longrightarrow> server x = b)"
proof -
  have reads: "server y = server x" if "SSL_read L x m = (r, y)" for x m r y
    using roles that unfolding ssl_roles_def by (metis snd_conv)
  have keeps: "server (snd (BIO_write L x bs)) = server x" "server (snd (SSL_do_handshake L x)) = server x"
      "server (snd (DTLSv1_handle_timeout L x)) = server x" for x bs
    using roles by (simp_all add: ssl_roles_def)
  have send: "state s' = st \<and> (\<forall>x. ssl s' = Some x \<longrightarrow> server x = b)"
    if "send_next L c dest n m s w = Done (r, s', w')" for m r
    using send_next_frame(1) [OF that] send_next_server [OF roles that s(3)] s(2) by simp
  show ?thesis
  proof (cases "(\<exists>m. p = H_send m) \<or> (\<exists>buf m. p = P_send buf m) \<or> (\<exists>r m. p = P_again r m) \<or> (\<exists>m. p = T_send m)")
    case True
    then show ?thesis using d send by (auto elim!: send_on_cases)
  next
    case False
    then show ?thesis using d s st reads
      by (cases p) (auto simp: keeps split: if_splits option.splits prod.splits)
  qed
qed

lemma threads_step_settled:
  assumes "ssl_roles L server" and "st \<noteq> DTLS_CONSTATE_ACTPASS" and "threads_step L c dest n a b"
    and "settled server st v a"
  shows "settled server st v b"
  using assms(3)
proof cases
  case (thread i ps s w p s' w')
  have "\<not> committing p \<and> state s' = st \<and> (\<forall>x. ssl s' = Some x \<longrightarrow> server x = v)"
    using assms(4) thread(1,3) by (intro thread_next_settled [OF assms(1,2) thread(4)])
      (auto simp: settled_def list_all_iff)
  then show ?thesis using assms(4) thread(1,2)
    by (auto simp: settled_def list_all_iff dest!: set_update_subset_insert [THEN subsetD])
qed

lemma threads_settled:
  assumes "ssl_roles L server" and "st \<noteq> DTLS_CONSTATE_ACTPASS"
    and "(threads_step L c dest n)\<^sup>*\<^sup>* a b" and "settled server st v a"
  shows "settled server st v b"
  by (rule threads_inv [where I = "settled server st v", OF assms(3,4)])
    (rule threads_step_settled [OF assms(1,2)])

text \<open>In \<open>DTLS_CONSTATE_ACT\<close> the local keys are those of the client.\<close>

lemma exported_act_keys:
  assumes "ssl_exports L" and "srtp_get_key_material L s w = Done (Some km, w')" and "state s = DTLS_CONSTATE_ACT"
  shows "\<exists>K. srtp_keys_ok K \<and> material km = key_block K \<and>
    read_keys km = (client_key K, server_key K, client_salt K, server_salt K)"
  using assms(2)
proof (cases rule: get_key_material_cases)
  case (exported x i out)
  have "length out = 60" using assms(1) exported(4) by (auto simp: ssl_exports_def)
  then obtain K where K: "out = key_block K" "srtp_keys_ok K" by (rule key_block_ex)
  then show ?thesis using exported(6) assms(3) read_keys_block [of km K] by auto
qed simp_all

definition toy_passive_new :: "(toy_conn, toy_world) dtls_sess" where
  "toy_passive_new = toy_new\<lparr>ssl := Some \<lparr>toy_server = True, toy_done = False, toy_out = [], toy_in = [],
     toy_bios = 2\<rparr>, state := DTLS_CONSTATE_PASS\<rparr>"

text \<open>
  (C13) An endpoint whose role is fixed from the start keeps it under every interleaving: the state
  never changes, and the \<open>SSL\<close> plays the server exactly in \<open>DTLS_CONSTATE_PASS\<close>.
\<close>

theorem dtls_threads_role_fixed:
  assumes "ssl_roles L server" and "dtls_sess_new L ctx k st w0 = Done (Some s, w)" and "st \<noteq> 2"
    and "list_all starting ps" and "(threads_step L c dest n)\<^sup>*\<^sup>* (ps, s, w) (ps', s', w')"
  shows "state s' = con_state_of st \<and> (\<forall>x. ssl s' = Some x \<longrightarrow> (server x \<longleftrightarrow> state s' = DTLS_CONSTATE_PASS))"
proof -
  let ?b = "con_state_of st = DTLS_CONSTATE_PASS"
  have "con_state_of st \<noteq> DTLS_CONSTATE_ACTPASS" using assms(3) by (simp add: con_state_of_def)
  moreover have "\<not> committing p" if "p \<in> set ps" for p
    using assms(4) that by (cases p) (auto simp: list_all_iff)
  then have "settled server (con_state_of st) ?b (ps, s, w)"
    using sess_new_role [OF assms(1,2)] sess_new_frame(4) [OF assms(2)]
    by (simp add: settled_def list_all_iff sess_inv_def role_agrees_def)
  ultimately have "settled server (con_state_of st) ?b (ps', s', w')"
    using threads_settled [OF assms(1) _ assms(5)] by blast
  then show ?thesis by (simp add: settled_def)
qed

theorem dtls_threads_role_fixed_witness:
  "state toy_passive_new = con_state_of 1 \<and> ssl toy_passive_new \<noteq> None \<and>
     (toy_server (the (ssl toy_passive_new)) \<longleftrightarrow> state toy_passive_new = DTLS_CONSTATE_PASS)"
proof -
  have new: "dtls_sess_new toy_ssl (Some (0, [])) (Some (dsink_udp_getsink toy_sendto)) 1 (1, 0, []) =
      Done (Some toy_passive_new, (4, 1, []))"
    by (simp add: dtls_sess_new_def toy_passive_new_def toy_simps)
  have steps: "(threads_step toy_ssl 5 None 0)\<^sup>*\<^sup>* ([P_null [22], H_null], toy_passive_new, (4, 1, []))
      ([P_test [22], Returned 0], toy_passive_new, (4, 1, []))"
    by (rule threads_sched_steps [of _ _ _ _ "[0, 1, 0, 1, 0, 1]"])
      (simp add: toy_passive_new_def toy_new_def)
  have "ssl toy_passive_new \<noteq> None" by (simp add: toy_passive_new_def)
  then show ?thesis using dtls_threads_role_fixed [OF toy_roles new _ _ steps] by auto
qed

text \<open>Threads one after the other: each runs to its end.\<close>

lemma thread_run_steps:
  assumes "thread_run L c dest n k (ps ! i) s w = Some (Done (r, s', w'))" and "i < length ps"
  shows "(threads_step L c dest n)\<^sup>*\<^sup>* (ps, s, w) (ps[i := Returned r], s', w')"
  using assms
proof (induction k arbitrary: ps s w)
  case 0
  then show ?case by (cases "ps ! i") (auto, metis list_update_id rtranclp.rtrancl_refl)
next
  case (Suc k)
  show ?case
  proof (cases "result_of (ps ! i)")
    case (Some v)
    then show ?thesis using Suc.prems by (cases "ps ! i") (auto, metis list_update_id rtranclp.rtrancl_refl)
  next
    case None
    with Suc.prems(1) obtain p s1 w1 where 1: "thread_next L c dest n (ps ! i) s w = Some (Done (p, s1, w1))"
        "thread_run L c dest n k p s1 w1 = Some (Done (r, s', w'))"
      by (auto split: option.splits outcome.splits)
    have "(threads_step L c dest n)\<^sup>*\<^sup>* (ps[i := p], s1, w1) (ps[i := Returned r], s', w')"
      using Suc.IH [of "ps[i := p]" s1 w1] 1(2) Suc.prems(2) by simp
    then show ?thesis
      using threads_step.thread [OF Suc.prems(2) 1(1)] by (rule converse_rtranclp_into_rtranclp [rotated])
  qed
qed

lemma both_return:
  assumes "bio_reads L" and "live s"
  shows "\<exists>ps' s' w'. (threads_step L c dest n)\<^sup>*\<^sup>* ([H_ssl, P_send buf S_null], s, w) (ps', s', w') \<and>
    list_all (\<lambda>p. result_of p \<noteq> None) ps' \<and> live s'"
proof -
  have sends: "\<exists>r t v. dtls_sess_send_pending L s c dest n w = Done (r, t, v) \<and> ssl t \<noteq> None \<and> sink t = sink s \<and> lock t = lock s"
    if "ssl s \<noteq> None" "sink s \<noteq> None" for s w
  proof -
    note s = that
    obtain r t v where d: "dtls_sess_send_pending L s c dest n w = Done (r, t, v)"
      using send_pending_returns [OF assms(1) s(2)] by meson
    then show ?thesis using send_pending_frame [OF d] s by auto
  qed
  obtain x where x: "ssl s = Some x" "sink s \<noteq> None" "\<not> lock s" using assms(2) by (auto simp: live_def)
  let ?h = "s\<lparr>ssl := Some (snd (SSL_do_handshake L x))\<rparr>"
  obtain r t v where t: "dtls_sess_send_pending L (?h\<lparr>lock := True\<rparr>) c dest n w = Done (r, t, v)"
      "ssl t \<noteq> None" "sink t = sink s"
    using sends [of "?h\<lparr>lock := True\<rparr>" w] x by auto
  have "thread_run L c dest n 8 H_ssl s w = thread_run L c dest n (0 + 7) H_lock ?h w"
    using x by (simp add: thread_run_step del: thread_run.simps)
  also have "\<dots> = Some (Done (r, t\<lparr>lock := False\<rparr>, v))"
    by (subst handshake_thread_lock) (use x t in auto)
  finally have 1: "(threads_step L c dest n)\<^sup>*\<^sup>* ([H_ssl, P_send buf S_null], s, w)
      ([Returned r, P_send buf S_null], t\<lparr>lock := False\<rparr>, v)"
    using thread_run_steps [of L c dest n 8 "[H_ssl, P_send buf S_null]" 0 s w] by simp
  let ?t = "t\<lparr>lock := False\<rparr>"
  obtain y where y: "ssl ?t = Some y" using t(2) by auto
  obtain r1 s2 w2 where 2: "dtls_sess_send_pending L ?t c dest n v = Done (r1, s2, w2)"
      "ssl s2 \<noteq> None" "sink s2 = sink s" "\<not> lock s2"
    using sends [of ?t v] t x by auto
  obtain m z where z: "SSL_read L (snd (BIO_write L (the (ssl s2)) buf)) (length buf) = (m, z)" by fastforce
  obtain r3 s4 w4 where 4: "dtls_sess_send_pending L (s2\<lparr>ssl := Some z\<rparr>) c dest n w2 = Done (r3, s4, w4)"
      "ssl s4 \<noteq> None" "sink s4 = sink s" "\<not> lock s4"
    using sends [of "s2\<lparr>ssl := Some z\<rparr>" w2] 2 x by auto
  have "\<exists>s5 w5. thread_run L c dest n (0 + 14) (P_send buf S_null) ?t v = Some (Done (m, s5, w5)) \<and> live s5"
    unfolding packet_thread_send [OF y] 2(1) obind.simps prod.case z 4(1) using 2 4 x(2) by (auto simp: live_def)
  then obtain s5 w5 where 5: "thread_run L c dest n (0 + 14) (P_send buf S_null) ?t v = Some (Done (m, s5, w5))" "live s5"
    by blast
  have "(threads_step L c dest n)\<^sup>*\<^sup>* ([Returned r, P_send buf S_null], ?t, v) ([Returned r, Returned m], s5, w5)"
    using thread_run_steps [of L c dest n 14 "[Returned r, P_send buf S_null]" 1 ?t v] 5(1) by simp
  with 1 have "(threads_step L c dest n)\<^sup>*\<^sup>* ([H_ssl, P_send buf S_null], s, w) ([Returned r, Returned m], s5, w5)"
    by (rule rtranclp_trans)
  then show ?thesis using 5(2) by fastforce
qed

text \<open>
  (C12) An endpoint of both roles can lose the agreement of its two roles: when one thread starts
  the handshake while another puts the first packet, both may find \<open>DTLS_CONSTATE_ACTPASS\<close> (the
  mutex is not held over the test and the assignment); there is then an interleaving in which
  both calls return, the session is in \<open>DTLS_CONSTATE_ACT\<close>, and its \<open>SSL\<close> is a server. The key
  material exported then is read the wrong way round: the server takes the client's key for its
  own. No sequence of calls of a single thread ends there.
\<close>

theorem dtls_threads_race:
  assumes "ssl_roles L server" and "bio_reads L" and "live s" and "state s = DTLS_CONSTATE_ACTPASS"
    and "buf \<noteq> []" and "ssl_exports L"
  shows "\<exists>ps' s' w' x. (threads_step L c dest n)\<^sup>*\<^sup>* ([H_null, P_null buf], s, w) (ps', s', w') \<and>
    list_all (\<lambda>p. result_of p \<noteq> None) ps' \<and> state s' = DTLS_CONSTATE_ACT \<and> ssl s' = Some x \<and> server x \<and>
    (\<forall>km w1 w2. srtp_get_key_material L s' w1 = Done (Some km, w2) \<longrightarrow>
       (\<exists>K. srtp_keys_ok K \<and> material km = key_block K \<and>
          read_keys km = (client_key K, server_key K, client_salt K, server_salt K)))"
proof -
  obtain y where y: "ssl s = Some y" using assms(3) by (auto simp: live_def)
  let ?s = "s\<lparr>lock := False, state := DTLS_CONSTATE_ACT, ssl := Some (SSL_set_accept_state L y)\<rparr>"
  let ?a = "([H_ssl, P_send buf S_null], ?s, w)"
  have race: "(threads_step L c dest n)\<^sup>*\<^sup>* ([H_null, P_null buf], s, w) ?a"
    by (rule threads_sched_steps [of _ _ _ _ "[0, 0, 0, 0, 1, 1, 1, 1, 1, 0, 1]"])
      (use assms y in \<open>simp add: live_def dtls_sess_set_state_def\<close>)
  have "live ?s" using assms(3) by (simp add: live_def)
  then obtain ps' s' w' where b: "(threads_step L c dest n)\<^sup>*\<^sup>* ?a (ps', s', w')"
      "list_all (\<lambda>p. result_of p \<noteq> None) ps'" "live s'"
    using both_return [OF assms(2)] by blast
  have "settled server DTLS_CONSTATE_ACT True ?a" using assms(1) by (simp add: settled_def ssl_roles_def)
  then have "settled server DTLS_CONSTATE_ACT True (ps', s', w')"
    using threads_settled [OF assms(1) _ b(1)] by simp
  moreover obtain x where x: "ssl s' = Some x" using b(3) by (auto simp: live_def)
  ultimately have st: "state s' = DTLS_CONSTATE_ACT" "server x" by (simp_all add: settled_def)
  show ?thesis
    using rtranclp_trans [OF race b(1)] b(2) x st exported_act_keys [OF assms(6) _ st(1)] by metis
qed

theorem dtls_threads_race_witness:
  "\<exists>ps' s' w' x. (threads_step toy_ssl 5 None 0)\<^sup>*\<^sup>* ([H_null, P_null [22]], toy_new, (4, 1, [])) (ps', s', w') \<and>
    list_all (\<lambda>p. result_of p \<noteq> None) ps' \<and> state s' = DTLS_CONSTATE_ACT \<and> ssl s' = Some x \<and> toy_server x"
proof -
  have "live toy_new" "state toy_new = DTLS_CONSTATE_ACTPASS" by (simp_all add: toy_new_def live_def)
  from dtls_threads_race [OF toy_roles toy_reads this _ toy_exports, of "[22]"] show ?thesis by blast
qed

end
