(* ===== verification/Dtls_Srtp.thy ===== *)
theory Dtls_Srtp
  imports Srtp_Machine Dtls_Keys
begin

text \<open>
  The two libraries together, as an application uses them: packets are told apart by
  \<open>packet_is_dtls\<close>, the handshake gives key material, its parts key one SRTP session for each
  direction.
\<close>

section \<open>Telling packets apart\<close>

lemma version2_not_dtls:
  assumes "drop_bit 6 (b :: byte) = 2"
  shows "packet_is_dtls (b # bs) = Done False"
proof -
  have "drop_bit 6 (unat b) = 2" using arg_cong [OF assms, of unat] 
    by (simp add: unat_drop_bit_eq)
  then have "unat b div 64 = 2" by (simp add: drop_bit_eq_div)
  then have "\<not> unat b \<le> 64" by linarith
  then show ?thesis by (simp add: packet_is_dtls_byte)
qed

lemma srtp_recv_okD:
  assumes "srtp_recv G s m len = Done (0, s', m', l')"
  shows "drop_bit 6 (m 0) = 2"
  using assms by (cases rule: srtp_recv_cases) (auto dest!: srtp_crypt_okD)

lemma srtp_crypt_first_byte:
  assumes "srtp_crypt G s m len = Done (0, s', m')" and "rtp_header_len m < 65536"
  shows "m' 0 = m 0"
  using assms(1)
proof (cases rule: srtp_crypt_cases)
  case (crypted off s1 e h)
  have "0 < unat off" using offset_header [OF assms(2) crypted(4)] rtp_header_len_ge [of m] by linarith
  then show ?thesis using rtp_crypt_frame [OF crypted(6)] by simp
qed simp_all

lemma srtp_send_first_byte:
  assumes "srtp_send G s m len sz = Done (0, s', m', l')" and "rtp_header_len m < 65536"
  shows "drop_bit 6 (m' 0) = 2"
  using assms(1)
proof (cases rule: srtp_send_cases)
  case plain
  then show ?thesis using srtp_crypt_first_byte [OF _ assms(2)] srtp_crypt_okD by fastforce
next
  case (tagged n t s1 m1 tag md)
  have "m' 0 = m1 0" using tagged(3,11) by (simp add: mwrite_def)
  then show ?thesis using tagged(7) srtp_crypt_first_byte [OF _ assms(2)] srtp_crypt_okD by fastforce
qed simp_all

text \<open>
  (C33) The demultiplexing is sound for the media: a packet that \<open>srtp_send\<close> has produced or that
  \<open>srtp_recv\<close> accepts is never taken for a DTLS packet, whatever the session.
\<close>

theorem srtp_packets_not_dtls:
  assumes "srtp_recv G s m len = Done (0, s', m', l') \<or>
      srtp_send G s m0 n sz = Done (0, s', m, len) \<and> rtp_header_len m0 < 65536"
    and "0 < len"
  shows "packet_is_dtls (mread m 0 len) = Done False"
proof -
  have "mread m 0 len = m 0 # mread m 1 (len - 1)"
    using mread_split [of m 0 1 "len - 1"] assms(2) by (simp add: mread_def)
  moreover have "drop_bit 6 (m 0) = 2" using assms(1) srtp_recv_okD srtp_send_first_byte by blast
  ultimately show ?thesis by (simp add: version2_not_dtls)
qed

theorem srtp_packets_not_dtls_witness:
  "\<exists>s' m'. srtp_send stub_gcrypt demo_session demo_packet 18 40 = Done (0, s', m', 28) \<and>
     packet_is_dtls (mread m' 0 28) = Done False"
proof -
  obtain s' m' where s: "srtp_send stub_gcrypt demo_session demo_packet 18 40 = Done (0, s', m', 28)"
    using demo_send by blast
  have "packet_is_dtls (mread m' 0 28) = Done False"
    by (rule srtp_packets_not_dtls [OF disjI2 [OF conjI [OF s]]]) (simp_all add: demo_header)
  then show ?thesis using s by blast
qed

section \<open>From the handshake to the media\<close>

text \<open>A successful \<open>srtp_setkey\<close> on a fresh session, seen as what \<open>rtp_keyed\<close> needs.\<close>

lemma setkey_opened:
  assumes "srtp_setkey G s k slt stack w = Done (0, s', w')"
  shows "\<exists>h w1. gcry_cipher_open G GCRY_CIPHER_AES GCRY_CIPHER_MODE_CTR 0 w = (Some h, w1)"
  using assms by (auto simp: srtp_setkey_def split: if_splits prod.splits option.splits)

lemma created_keyed:
  assumes lib: "srtp_library G key strm ks mkey mdata hmac dlen"
    and G: "keyed_cipher G key" "keyed_md G mkey" "accepts_keys G" "\<And>md. gcry_md_get_algo_dlen G md \<le> 64"
    and cr: "srtp_create G encr auth tlen prfn fl w = (Some s, w1)" "unat tlen \<le> dlen"
    and sk: "srtp_setkey G s k slt stack w2 = Done (0, s', w3)" "length k = 16" "length slt = 14"
  shows "rtp_keyed key mkey (kstream ks k (derive_iv slt (replicate 6 0) 6 SRTP_CRYPT) 16)
      (kstream ks k (derive_iv slt (replicate 6 0) 6 SRTP_AUTH) 20) dlen s'"
    and "flags s' = fl" "tag_len s' = ucast tlen" "rtp_rcc s' = 1" "kdr s' = 0" "rtp_seq s' = 0" "rtp_roc s' = 0"
      "window (rtp s') = 0"
    and "salt (rtp s') = load_words (kstream ks k (derive_iv slt (replicate 6 0) 6 SRTP_SALT) 14 @ [0, 0])"
      "salt (rtcp s') = load_words (kstream ks k (derive_iv slt (be_bytes32 0 @ [0, 0]) 4 SRTCP_SALT) 14 @ [0, 0])"
proof -
  note c = srtp_create_wf_aux [OF cr(1) G(4)]
  have s: "salt (rtp s) = [0, 0, 0, 0]" "salt (rtcp s) = [0, 0, 0, 0]" "rtcp_index s = 0" "kdr s = 0"
      "tag_len s = ucast tlen" "window (rtp s) = 0" "rtp_seq s = 0" "rtp_roc s = 0"
    using cr(1) by (auto elim!: srtp_create_Some_cases dest: proto_create_Some)
  have z: "drop 14 (store_words [0, 0, 0, 0]) = [0, 0]" by (simp add: store_words_def u32_store_def)
  obtain h w4 where op: "gcry_cipher_open G GCRY_CIPHER_AES GCRY_CIPHER_MODE_CTR 0 w2 = (Some h, w4)"
    using setkey_opened [OF sk(1)] by blast
  have ctr: "ctr_cipher G key strm ks" using lib by (simp add: srtp_library_def)
  note i = srtp_setkey_ctr [OF ctr G(1-3) sk(2,3) c(1) op, of stack, unfolded sk(1), simplified s z]
  note f = srtp_setkey_keeps [OF sk(1)]
  show "rtp_keyed key mkey (kstream ks k (derive_iv slt (replicate 6 0) 6 SRTP_CRYPT) 16)
      (kstream ks k (derive_iv slt (replicate 6 0) 6 SRTP_AUTH) 20) dlen s'"
    using i f cr(2) c(4) srtp_setkey_wf [OF sk(1) c(1)] by (auto simp: rtp_keyed_def keyed_by_def)
  show "flags s' = fl" "tag_len s' = ucast tlen" "rtp_rcc s' = 1" "rtp_seq s' = 0" "rtp_roc s' = 0"
      "window (rtp s') = 0" using f c s by simp_all
  show "kdr s' = 0"
    "salt (rtp s') = load_words (kstream ks k (derive_iv slt (replicate 6 0) 6 SRTP_SALT) 14 @ [0, 0])"
    "salt (rtcp s') = load_words (kstream ks k (derive_iv slt (be_bytes32 0 @ [0, 0]) 4 SRTCP_SALT) 14 @ [0, 0])"
    using i by auto
qed

lemma created_in_sync:
  assumes lib: "srtp_library G key strm ks mkey mdata hmac dlen"
    and G: "keyed_cipher G key" "keyed_md G mkey" "accepts_keys G" "\<And>md. gcry_md_get_algo_dlen G md \<le> 64"
    and cr: "srtp_create G encr auth tlen prfn fl wa = (Some sa, wa1)"
      "srtp_create G encr auth tlen prfn fl wb = (Some sb, wb1)" "unat tlen \<le> dlen"
    and sk: "srtp_setkey G sa k slt stack wa2 = Done (0, sa', wa3)"
      "srtp_setkey G sb k slt stack' wb2 = Done (0, sb', wb3)" "length k = 16" "length slt = 14"
  obtains ke km where "rtp_keyed key mkey ke km dlen sa'" "rtp_keyed key mkey ke km dlen sb'"
    "same_config sa' sb'" "same_window sa' sb'" "flags sa' = fl"
proof -
  note a = created_keyed [OF lib G cr(1,3) sk(1,3,4)]
  note b = created_keyed [OF lib G cr(2,3) sk(2,3,4)]
  show thesis using that [OF a(1) b(1)] a(2-) b(2-) by (simp add: same_config_def same_window_def)
qed

text \<open>
  Two endpoints hold the same exported key material, one
  as the active and one as the passive side. Each makes an SRTP session with the same parameters;
  the sender keys its session with the local key and salt that \<open>srtp_key_material_extract\<close> points
  at, the receiver with the remote ones. Then every stream that the sender protects arrives.
\<close>

lemma keyed_stream:
  assumes lib: "srtp_library G key strm ks mkey mdata hmac dlen"
    and G: "keyed_cipher G key" "keyed_md G mkey" "accepts_keys G" "\<And>md. gcry_md_get_algo_dlen G md \<le> 64"
    and k: "length k = 16" "length slt = 14"
    and cr: "srtp_create G encr auth tlen prfn fl wa = (Some sa, wa1)"
      "srtp_create G encr auth tlen prfn fl wb = (Some sb, wb1)" "unat tlen \<le> dlen" "drop_bit 4 fl AND 3 = 0"
    and sk: "srtp_setkey G sa k slt stack wa1 = Done (0, sa', wa2)"
      "srtp_setkey G sb k slt stack' wb1 = Done (0, sb', wb2)"
    and snd: "list_all (\<lambda>(m, len, sz). len < 2 ^ 31 \<and> rtp_header_len m < 65536) ps"
      "send_run G sa' ps = Done (out, sa'')"
  shows "\<exists>ins sb''. recv_run G sb' (map snd out) = Done (ins, sb'') \<and>
    list_all2 (\<lambda>((m, len), w) (r, m', l'). r = 0 \<and> l' = len \<and> mread m' 0 len = mread m 0 len) out ins"
proof -
  obtain ke kma where "rtp_keyed key mkey ke kma dlen sa'" "rtp_keyed key mkey ke kma dlen sb'"
      "same_config sa' sb'" "same_window sa' sb'" "flags sa' = fl"
    by (rule created_in_sync [OF lib G cr(1-3) sk k])
  moreover from this cr(4) have "rcc_mode sa' = 0" by (simp add: rcc_mode_def)
  ultimately show ?thesis using stream_in_sync [OF lib _ _ _ _ _ snd] by blast
qed

text \<open>
  (C2) A whole call. Two DTLS sessions are made, each in one of the documented states, and driven
  by any calls of the type \<open>dtls_api\<close> (the raw setters are not among them), a handshake or a packet
  on each side included. When both export the same key material and the library has them in
  different roles, each side makes an SRTP session with the same parameters and without counter
  carry (flags of no RCC mode), the sender keyed with the local key and salt that
  \<open>srtp_key_material_extract\<close> points at, the receiver with the remote ones. Then every stream
  that the sender protects (packets shorter than \<open>2^31\<close> bytes, with headers below 65536 bytes)
  arrives at the receiver unchanged, whichever side sends.
\<close>

theorem dtls_call_stream:
  assumes ssl: "ssl_roles L server" "ssl_exports L"
    and new: "dtls_sess_new L ctxa ka sta va = Done (Some da, va1)" "sta \<in> {0, 1, 2}"
      "dtls_sess_new L ctxb kb stb vb = Done (Some db, vb1)" "stb \<in> {0, 1, 2}"
    and run: "calls_run (dtls_api_call L ca desta na) csa da va1 = Done (rsa', da', va2)" "list_ex commits csa"
      "calls_run (dtls_api_call L cb destb nb) csb db vb1 = Done (rsb', db', vb2)" "list_ex commits csb"
    and km: "srtp_get_key_material L da' va2 = Done (Some a, va3)"
      "srtp_get_key_material L db' vb2 = Done (Some b, vb3)" "material a = material b"
    and peers: "ssl da' = Some xa" "ssl db' = Some xb" "server xa \<noteq> server xb"
    and keys: "read_keys a = (lka, rka, lsa, rsa)" "read_keys b = (lkb, rkb, lsb, rsb)"
    and lib: "srtp_library G key strm ks mkey mdata hmac dlen"
    and G: "keyed_cipher G key" "keyed_md G mkey" "accepts_keys G" "\<And>md. gcry_md_get_algo_dlen G md \<le> 64"
    and cr: "srtp_create G encr auth tlen prfn fl wa = (Some sa, wa1)"
      "srtp_create G encr auth tlen prfn fl wb = (Some sb, wb1)" "unat tlen \<le> dlen" "drop_bit 4 fl AND 3 = 0"
    and sk: "srtp_setkey G sa lka lsa stack wa1 = Done (0, sa', wa2)"
      "srtp_setkey G sb rkb rsb stack' wb1 = Done (0, sb', wb2)"
    and snd: "list_all (\<lambda>(m, len, sz). len < 2 ^ 31 \<and> rtp_header_len m < 65536) ps"
      "send_run G sa' ps = Done (out, sa'')"
  shows "\<exists>ins sb''. recv_run G sb' (map snd out) = Done (ins, sb'') \<and>
    list_all2 (\<lambda>((m, len), w) (r, m', l'). r = 0 \<and> l' = len \<and> mread m' 0 len = mread m 0 len) out ins"
proof -
  have "state da' \<noteq> DTLS_CONSTATE_ACTPASS" "state db' \<noteq> DTLS_CONSTATE_ACTPASS"
    using run_commits [OF run(1,2)] run_commits [OF run(3,4)] sess_new_frame(3) [OF new(1)]
      sess_new_frame(3) [OF new(3)] by blast+
  note dir = keys_follow_role [OF ssl new(1,2) run(1) km(1) this(1)]
    keys_follow_role [OF ssl new(3,4) run(3) km(2) this(2)]
  obtain K where K: "srtp_keys_ok K" "material a = key_block K"
      "read_keys a = (if server xa then (server_key K, client_key K, server_salt K, client_salt K)
        else (client_key K, server_key K, client_salt K, server_salt K))"
    using dir(1) peers(1) by auto
  obtain K' where "srtp_keys_ok K'" "material b = key_block K'"
      "read_keys b = (if server xb then (server_key K', client_key K', server_salt K', client_salt K')
        else (client_key K', server_key K', client_salt K', server_salt K'))"
    using dir(2) peers(2) by auto
  with K km(3) peers(3) keys have e: "rkb = lka" "rsb = lsa" "length lka = 16" "length lsa = 14"
    by (auto simp: key_block_def srtp_keys_ok_def split: if_splits)
  show ?thesis by (rule keyed_stream [OF lib G e(3,4) cr sk(1) sk(2) [unfolded e(1,2)] snd])
qed

text \<open>A call of the witnesses: both sides on the stub library, one packet from the active side.\<close>

definition call_session :: "(stub_cipher, stub_md) srtp_session" where
  "call_session = stub_session\<lparr>flags := 0\<rparr>"

definition call_material :: "dtls_con_state \<Rightarrow> srtp_key_material" where
  "call_material st = \<lparr>material = map of_nat [0..<60], ispassive = st\<rparr>"

lemma call_create: "srtp_create stub_gcrypt 1 1 10 0 0 (0, 0, 8) = (Some call_session, (4, 1, 8))"
  by (simp add: create_eval call_session_def stub_session_def stub_proto_def)

lemma call_setkey:
  assumes "length k = 16" and "length slt = 14"
  shows "\<exists>s' w'. srtp_setkey stub_gcrypt call_session k slt stack (4, 1, 8) = Done (0, s', w')"
proof -
  have "gcry_cipher_open stub_gcrypt GCRY_CIPHER_AES GCRY_CIPHER_MODE_CTR 0 (4, 1, 8) =
      (Some (None, [], 0), (5, 1, 8))" by (simp add: stub_gcrypt_def)
  moreover have "srtp_wf call_session" using srtp_create_wf_aux(1) [OF call_create stub_dlen] .
  ultimately show ?thesis
    using srtp_setkey_ctr [OF stub_ctr_cipher stub_keyed_cipher stub_keyed_md stub_accepts_keys assms] by blast
qed

lemma call_send:
  assumes "srtp_setkey stub_gcrypt call_session k slt stack (4, 1, 8) = Done (0, s, w)"
    and "length k = 16" "length slt = 14"
  shows "\<exists>s' m' l'. srtp_send stub_gcrypt s demo_packet 18 60 = Done (0, s', m', l')"
proof -
  note k = created_keyed [OF stub_library stub_keyed_cipher stub_keyed_md stub_accepts_keys stub_dlen
      call_create _ assms, simplified]
  obtain s1 where tr: "srtp_track_seq s (rtp_seq_of demo_packet)
      (srtp_compute_roc s (rtp_seq_of demo_packet)) = Done (0, s1)"
    unfolding demo_header using k(6,8) by (auto simp: srtp_track_seq_def)
  obtain n t where l: "rcc_layout s (rtp_seq_of demo_packet) = (n, t)" by fastforce
  have "rcc_mode s = 0" using k(2) by (simp add: rcc_mode_def)
  then have nt: "n = 0" "t = 10" using l k(3) by (simp_all add: rcc_layout_def)
  have "\<not> has_flag s SRTP_UNAUTHENTICATED" using k(2) by (simp add: has_flag_def)
  note lt = length_trailer(1) [OF stub_library k(1) l, unfolded nt, simplified this]
  have "18 + length (srtp_trailer stub_hmac km s (rtp_seq_of demo_packet) c roc d) \<le> 60"
    if "km = kstream stub_ks k (derive_iv slt (replicate 6 0) 6 SRTP_AUTH) 20" for km c roc d
    using lt that by simp
  then show ?thesis
    using srtp_send_image [OF stub_library k(1) _ _ _ _ demo_offset refl tr refl refl, of 18 60] demo_header
    by force
qed

text \<open>The DTLS sessions of the call: \<open>toy_passive\<close> receives first, \<open>toy_active\<close> has started.\<close>

definition toy_started :: "(toy_conn, toy_world) dtls_sess" where
  "toy_started = toy_new\<lparr>state := DTLS_CONSTATE_ACT\<rparr>"

definition toy_active :: "(toy_conn, toy_world) dtls_sess" where
  "toy_active = toy_started\<lparr>ssl := Some \<lparr>toy_server = False, toy_done = True, toy_out = [], toy_in = [],
     toy_bios = 2\<rparr>, con_type := DTLS_CONTYPE_EXISTING\<rparr>"

lemma toy_active_call:
  "dtls_sess_new toy_ssl (Some (0, [])) (Some (dsink_udp_getsink toy_sendto)) 0 (1, 0, []) =
     Done (Some toy_started, (4, 1, []))"
  "calls_run (dtls_api_call toy_ssl 5 None 0) [Do_handshake, Put_packet [22]] toy_started (4, 1, []) =
     Done ([1, -1], toy_active, (4, 1, [(5, [22]), (5, [1, 2])]))"
  "srtp_get_key_material toy_ssl toy_active w = (case w of (n, b, out) \<Rightarrow>
     Done (Some (call_material DTLS_CONSTATE_ACT), (n, b + 1, out)))"
proof -
  show "dtls_sess_new toy_ssl (Some (0, [])) (Some (dsink_udp_getsink toy_sendto)) 0 (1, 0, []) =
      Done (Some toy_started, (4, 1, []))"
    by (simp add: dtls_sess_new_def toy_started_def toy_simps)
  have "dtls_do_handshake toy_ssl toy_started 5 None 0 (4, 1, []) = Done (1, toy_started, (4, 1, [(5, [22])]))"
    by (simp add: dtls_do_handshake_def dtls_sess_send_pending_def toy_started_def toy_simps)
  moreover have "dtls_sess_put_packet toy_ssl toy_started 5 [22] None 0 (4, 1, [(5, [22])]) =
      Done (-1, toy_active, (4, 1, [(5, [22]), (5, [1, 2])]))"
    by (simp add: dtls_sess_put_packet_def dtls_sess_send_pending_def become_passive_def toy_started_def
        toy_active_def toy_simps SSL_ERROR_SSL_def)
  ultimately show "calls_run (dtls_api_call toy_ssl 5 None 0) [Do_handshake, Put_packet [22]] toy_started (4, 1, []) =
      Done ([1, -1], toy_active, (4, 1, [(5, [22]), (5, [1, 2])]))"
    by simp
  show "srtp_get_key_material toy_ssl toy_active w = (case w of (n, b, out) \<Rightarrow>
      Done (Some (call_material DTLS_CONSTATE_ACT), (n, b + 1, out)))"
    by (simp add: srtp_get_key_material_def toy_active_def toy_started_def toy_simps master_lens
        call_material_def split: prod.split)
qed

theorem dtls_call_stream_witness:
  "\<exists>s out s' ins s''. out \<noteq> [] \<and> send_run stub_gcrypt s [(demo_packet, 18, 60)] = Done (out, s') \<and>
     recv_run stub_gcrypt s (map snd out) = Done (ins, s'') \<and>
     list_all2 (\<lambda>((m, len), w) (r, m', l'). r = 0 \<and> l' = len \<and> mread m' 0 len = mread m 0 len) out ins"
proof -
  let ?a = "call_material DTLS_CONSTATE_ACT" and ?b = "call_material DTLS_CONSTATE_PASS"
  obtain K where K: "material ?a = key_block K" "srtp_keys_ok K"
    by (rule key_block_ex [of "material ?a"]) (simp_all add: call_material_def)
  have ka: "read_keys ?a = (client_key K, server_key K, client_salt K, server_salt K)"
    using read_keys_block [OF K] by (simp add: call_material_def)
  have "material ?b = key_block K" using K(1) by (simp add: call_material_def)
  then have kb: "read_keys ?b = (server_key K, client_key K, server_salt K, client_salt K)"
    using read_keys_block [OF _ K(2), of ?b] by (simp add: call_material_def)
  have l: "length (client_key K) = 16" "length (client_salt K) = 14" using K(2) by (simp_all add: srtp_keys_ok_def)
  obtain s w where sk: "srtp_setkey stub_gcrypt call_session (client_key K) (client_salt K) (\<lambda>_. 0) (4, 1, 8) =
      Done (0, s, w)" using call_setkey [OF l] by blast
  obtain s' m' l' where "srtp_send stub_gcrypt s demo_packet 18 60 = Done (0, s', m', l')"
    using call_send [OF sk l] by blast
  then have run: "send_run stub_gcrypt s [(demo_packet, 18, 60)] = Done ([((demo_packet, 18), (m', l'))], s')"
    by simp
  have "\<exists>ins s''. recv_run stub_gcrypt s (map snd [((demo_packet, 18 :: nat), (m', l'))]) = Done (ins, s'') \<and>
    list_all2 (\<lambda>((m, len), w) (r, m', l'). r = 0 \<and> l' = len \<and> mread m' 0 len = mread m 0 len)
      [((demo_packet, 18), (m', l'))] ins"
    by (rule dtls_call_stream [OF toy_roles toy_exports toy_active_call(1) _ toy_sess_new _ toy_active_call(2) _
        toy_run _ toy_active_call(3) [of "(4, 1, out)" for out, simplified]
        toy_export [folded call_material_def] _ _ _ _ ka kb
        stub_library stub_keyed_cipher stub_keyed_md stub_accepts_keys stub_dlen
        call_create call_create _ _ sk sk _ run, where xa = "the (ssl toy_active)" and xb = "the (ssl toy_passive)"])
      (simp_all add: call_material_def demo_header toy_active_def toy_started_def toy_passive_def)
  then show ?thesis using run by blast
qed

end
