(* ===== verification/Example_Tools.thy ===== *)
theory Example_Tools
  imports Dtls_Srtp
begin

text \<open>
  The helper functions of the demonstration program \<open>example.c\<close>: printing keys and
  fingerprints, the verdict on socket errors, socket addresses and the UDP socket. Text is what
  goes to the stream given; a write is taken to succeed, and what \<open>fputs\<close> then returns (any
  non-negative number) is an argument. Diagnostics on \<open>stderr\<close> are left out. A \<open>uaddr\<close> is the
  128 bytes of the union, with the layout of Linux.
\<close>

section \<open>The code: printing\<close>

definition SIGINT :: int where "SIGINT = 2"

definition setexit :: "int \<Rightarrow> int \<Rightarrow> int" where
  "setexit sig exitflag = (if sig = SIGINT then 1 else exitflag)"

text \<open>The conversion \<open>%hhx\<close>.\<close>

definition hhx :: "byte \<Rightarrow> string" where
  "hhx b = (if unat b < 16 then [hexchar (unat b)] else [hexchar (unat b div 16), hexchar (unat b mod 16)])"

fun fprinthex_loop :: "bytes \<Rightarrow> int \<Rightarrow> string \<Rightarrow> int \<times> string" where
  "fprinthex_loop [] totallen out = (totallen, out)"
| "fprinthex_loop (b # bs) totallen out =
     fprinthex_loop bs (totallen + int (length ('':'' @ hhx b))) (out @ '':'' @ hhx b)"

text \<open>With no bytes the code reads one byte beyond the buffer and then never meets \<open>end\<close>.\<close>

definition fprinthex :: "int \<Rightarrow> string \<Rightarrow> bytes \<Rightarrow> (int \<times> string) outcome" where
  "fprinthex fputs_ret prefix bs =
     (case bs of [] \<Rightarrow> Undefined
      | b # bs' \<Rightarrow>
          let first = prefix @ '':        '' @ hhx b in
          (case fprinthex_loop bs' (int (length first)) first of (totallen, out) \<Rightarrow>
             Done (totallen + fputs_ret, out @ [CHR 0x0A, CHR 0x0A])))"

text \<open>
  The operands of \<open>+\<close> are evaluated from left to right here; C does not fix their order, so
  that the six pieces of the output may come in another one.
\<close>

definition fprintkeymat :: "int \<Rightarrow> bytes \<Rightarrow> srtp_key_ptrs \<Rightarrow> (int \<times> string) outcome" where
  "fprintkeymat fputs_ret m ptrs =
     (let at = (\<lambda>i n. take n (drop i m)); stars = ''********'' @ [CHR 0x0A] in
      obind (fprinthex fputs_ret ''localkey'' (at (localkey ptrs) MASTER_KEY_LEN)) (\<lambda>(n1, o1).
      obind (fprinthex fputs_ret ''remotekey'' (at (remotekey ptrs) MASTER_KEY_LEN)) (\<lambda>(n2, o2).
      obind (fprinthex fputs_ret ''localsalt'' (at (localsalt ptrs) MASTER_SALT_LEN)) (\<lambda>(n3, o3).
      obind (fprinthex fputs_ret ''remotesalt'' (at (remotesalt ptrs) MASTER_SALT_LEN)) (\<lambda>(n4, o4).
        Done (fputs_ret + n1 + n2 + n3 + n4 + fputs_ret, stars @ o1 @ o2 @ o3 @ o4 @ stars))))))"

text \<open>\<open>digest\<close> is what \<open>X509_digest\<close> returns and the bytes it delivers.\<close>

definition fprintfinger :: "int \<Rightarrow> string \<Rightarrow> int \<times> bytes \<Rightarrow> (int \<times> string) outcome" where
  "fprintfinger fputs_ret prefix digest =
     (case digest of (ok, fingerprint) \<Rightarrow>
        if ok = 0 \<or> fingerprint = [] then Done (0, []) else fprinthex fputs_ret prefix fingerprint)"

section \<open>The code: sockets\<close>

definition EINTR :: int where "EINTR = 4"
definition EBADF :: int where "EBADF = 9"
definition ENOMEM :: int where "ENOMEM = 12"
definition ECONNRESET :: int where "ECONNRESET = 104"
definition EHOSTDOWN :: int where "EHOSTDOWN = 112"

definition handle_socket_error :: "int \<Rightarrow> int" where
  "handle_socket_error errno =
     (if errno = EINTR then 1
      else if errno = EBADF then 0
      else if errno = EHOSTDOWN then 1
      else if errno = ECONNRESET then 1
      else if errno = ENOMEM then 0
      else if errno = EACCES then 1
      else 0)"

type_synonym uaddr = bytes

definition AF_INET :: nat where "AF_INET = 2"
definition AF_INET6 :: nat where "AF_INET6 = 10"

text \<open>Storing into a member of the union.\<close>

definition put_at :: "nat \<Rightarrow> bytes \<Rightarrow> uaddr \<Rightarrow> uaddr" where
  "put_at i bs a = take i a @ bs @ drop (i + length bs) a"

definition store_family :: "nat \<Rightarrow> bytes" where
  "store_family f = [of_nat (f mod 256), of_nat (f div 256)]"

definition ss_family :: "uaddr \<Rightarrow> nat" where
  "ss_family a = unat (a ! 0) + 256 * unat (a ! 1)"

definition htons :: "u16 \<Rightarrow> bytes" where
  "htons p = [ucast (drop_bit 8 p), ucast p]"

text \<open>
  \<open>pton\<close> is \<open>inet_pton\<close>: the bytes of the address, or \<open>None\<close> when it does not return 1.
\<close>

definition makesockaddr ::
  "(nat \<Rightarrow> string \<Rightarrow> bytes option) \<Rightarrow> string option \<Rightarrow> u16 \<Rightarrow> uaddr \<Rightarrow> bool \<times> uaddr" where
  "makesockaddr pton straddr port addr =
     (if straddr = None \<or> the straddr = []
      then (True, put_at 2 (htons port) (put_at 8 (replicate 16 0) (put_at 0 (store_family AF_INET6) addr)))
      else case pton AF_INET (the straddr) of
        Some ip \<Rightarrow> (True, put_at 2 (htons port) (put_at 0 (store_family AF_INET) (put_at 4 ip addr)))
      | None \<Rightarrow>
          (case pton AF_INET6 (the straddr) of
             Some ip \<Rightarrow> (True, put_at 2 (htons port) (put_at 0 (store_family AF_INET6) (put_at 8 ip addr)))
           | None \<Rightarrow> (False, addr)))"

definition getsocklen :: "uaddr option \<Rightarrow> int" where
  "getsocklen addr = (case addr of None \<Rightarrow> 0
     | Some a \<Rightarrow> if ss_family a = AF_INET then 16 else if ss_family a = AF_INET6 then 28 else 0)"

section \<open>Printing: properties\<close>

lemma hexchar_not_sep: "n < 16 \<Longrightarrow> hexchar n \<noteq> CHR '':'' \<and> hexchar n \<noteq> CHR 0x0A"
proof -
  assume "n < 16"
  then have "hexdigit (hexchar n) = int n" by (rule hexdigit_hexchar)
  moreover have "hexdigit (CHR '':'') = -1" "hexdigit (CHR 0x0A) = -1"
    by (simp_all add: hexdigit_code)
  ultimately show ?thesis by auto
qed

lemma unat_byte: "unat (b :: byte) < 256"
proof -
  have "unat b < 2 ^ LENGTH(8)" by (rule unsigned_less)
  then show ?thesis by simp
qed

lemma hhx_digits: "c \<in> set (hhx b) \<Longrightarrow> c \<noteq> CHR '':'' \<and> c \<noteq> CHR 0x0A"
proof -
  assume "c \<in> set (hhx b)"
  then obtain n where "c = hexchar n" "n < 16"
    using unat_byte [of b] by (auto simp: hhx_def split: if_splits)
  then show ?thesis by (simp add: hexchar_not_sep)
qed

lemma hhx_value: "foldl (\<lambda>n c. 16 * n + hexdigit c) 0 (hhx b) = int (unat b)"
proof (cases "unat b < 16")
  case True
  then show ?thesis by (simp add: hhx_def hexdigit_hexchar)
next
  case False
  have "unat b div 16 < 16" using unat_byte [of b] by linarith
  then have "foldl (\<lambda>n c. 16 * n + hexdigit c) 0 (hhx b) = 16 * int (unat b div 16) + int (unat b mod 16)"
    using False by (simp add: hhx_def hexdigit_hexchar)
  also have "\<dots> = int (16 * (unat b div 16) + unat b mod 16)" by (simp only: of_nat_add of_nat_mult of_nat_numeral)
  finally show ?thesis by (simp only: mult_div_mod_eq)
qed

lemma hhx_inj: "hhx a = hhx b \<Longrightarrow> a = b"
  by (metis hhx_value of_nat_eq_iff word_unat_eq_iff)

text \<open>The printed bytes behind the first, and the end of the line.\<close>

definition hextail :: "bytes \<Rightarrow> string" where
  "hextail bs = concat (map (\<lambda>b. '':'' @ hhx b) bs)"

lemma fprinthex_loop_eq:
  "fprinthex_loop bs n out = (n + int (length (hextail bs)), out @ hextail bs)"
  by (induction bs n out rule: fprinthex_loop.induct) (simp_all add: hextail_def)

lemma hhx_split:
  assumes "hhx a @ u = hhx b @ v" and "u \<noteq> []" "v \<noteq> []"
    and "hd u = CHR '':'' \<or> hd u = CHR 0x0A" "hd v = CHR '':'' \<or> hd v = CHR 0x0A"
  shows "a = b \<and> u = v"
proof -
  let ?sep = "\<lambda>c. c \<noteq> CHR '':'' \<and> c \<noteq> CHR 0x0A"
  have tw: "takeWhile ?sep (hhx x @ y) = hhx x" if "y \<noteq> []" "hd y = CHR '':'' \<or> hd y = CHR 0x0A" for x y
  proof -
    have "takeWhile ?sep (hhx x @ y) = hhx x @ takeWhile ?sep y"
      by (rule takeWhile_append2) (rule hhx_digits)
    moreover have "takeWhile ?sep y = []" using that by (cases y) auto
    ultimately show ?thesis by simp
  qed
  have "takeWhile ?sep (hhx a @ u) = hhx a" "takeWhile ?sep (hhx b @ v) = hhx b"
    using assms(2-5) by (intro tw; simp)+
  then have "hhx a = hhx b" using assms(1) by simp
  then show ?thesis using assms(1) hhx_inj by simp
qed

lemma hextail_hd: "hextail bs @ [CHR 0x0A, CHR 0x0A] \<noteq> []"
  "hd (hextail bs @ [CHR 0x0A, CHR 0x0A]) = CHR '':'' \<or> hd (hextail bs @ [CHR 0x0A, CHR 0x0A]) = CHR 0x0A"
  by (cases bs; simp add: hextail_def)+

lemma hextail_inj:
  "hextail as @ [CHR 0x0A, CHR 0x0A] = hextail bs @ [CHR 0x0A, CHR 0x0A] \<Longrightarrow> as = bs"
proof (induction as arbitrary: bs)
  case Nil
  then show ?case by (cases bs) (simp_all add: hextail_def)
next
  case (Cons a as)
  obtain b bs' where bs: "bs = b # bs'" using Cons.prems by (cases bs) (simp_all add: hextail_def)
  have "hhx a @ (hextail as @ [CHR 0x0A, CHR 0x0A]) = hhx b @ (hextail bs' @ [CHR 0x0A, CHR 0x0A])"
    using Cons.prems by (simp add: bs hextail_def)
  from hhx_split [OF this hextail_hd(1) hextail_hd(1) hextail_hd(2) hextail_hd(2)] Cons.IH
  show ?case by (simp add: bs)
qed

lemma fprinthex_Cons:
  "fprinthex r p (b # bs) = Done (int (length (p @ '':        '' @ hhx b @ hextail bs)) + r,
     p @ '':        '' @ hhx b @ hextail bs @ [CHR 0x0A, CHR 0x0A])"
  by (simp add: fprinthex_def fprinthex_loop_eq)

text \<open>
  What \<open>fprinthex\<close> prints identifies the bytes, though \<open>%hhx\<close> drops leading zeros: two
  blobs printed with the same prefix give the same text only if they are equal.
\<close>

theorem fprinthex_unambiguous:
  assumes "fprinthex r p bs = Done (n, out)" and "fprinthex r p bs' = Done (n', out)"
  shows "bs = bs' \<and> n = n' \<and> n = int (length out) - 2 + r"
proof -
  obtain b bs1 where 1: "bs = b # bs1" using assms(1) by (cases bs) (simp_all add: fprinthex_def)
  obtain b' bs1' where 2: "bs' = b' # bs1'" using assms(2) by (cases bs') (simp_all add: fprinthex_def)
  have "hhx b @ (hextail bs1 @ [CHR 0x0A, CHR 0x0A]) = hhx b' @ (hextail bs1' @ [CHR 0x0A, CHR 0x0A])"
    using assms 1 2 by (auto simp: fprinthex_Cons)
  from hhx_split [OF this hextail_hd(1) hextail_hd(1) hextail_hd(2) hextail_hd(2)] hextail_inj
  have "bs = bs'" using 1 2 by blast
  moreover have "n = int (length out) - 2 + r" using assms(1) 1 by (auto simp: fprinthex_Cons)
  ultimately show ?thesis using assms by simp
qed

theorem fprinthex_unambiguous_witness:
  "[0x0A, 0] = [0x0A, 0 :: byte] \<and> (14 :: int) = 14 \<and>
     14 = int (length (''k:        a:0'' @ [CHR 0x0A, CHR 0x0A])) - 2 + 1"
proof -
  have "fprinthex 1 ''k'' [0x0A, 0] = Done (14, ''k:        a:0'' @ [CHR 0x0A, CHR 0x0A])"
    by code_simp
  from fprinthex_unambiguous [OF this this] show ?thesis .
qed

section \<open>Addresses: properties\<close>

text \<open>
  What an address string means: nothing or the empty string is the IPv6 wildcard, otherwise
  IPv4 is tried before IPv6. \<open>decode_addr\<close> reads family, port and address back as the kernel does.
\<close>

definition resolve :: "(nat \<Rightarrow> string \<Rightarrow> bytes option) \<Rightarrow> string option \<Rightarrow> (nat \<times> bytes) option" where
  "resolve pton straddr =
     (case straddr of None \<Rightarrow> Some (AF_INET6, replicate 16 0)
      | Some [] \<Rightarrow> Some (AF_INET6, replicate 16 0)
      | Some str \<Rightarrow> (case pton AF_INET str of Some ip \<Rightarrow> Some (AF_INET, ip)
          | None \<Rightarrow> map_option (Pair AF_INET6) (pton AF_INET6 str)))"

definition decode_addr :: "uaddr \<Rightarrow> nat \<times> u16 \<times> bytes" where
  "decode_addr a = (ss_family a, word_cat (a ! 2) (a ! 3),
     if ss_family a = AF_INET then take 4 (drop 4 a) else take 16 (drop 8 a))"

text \<open>\<open>inet_pton\<close> delivers four bytes for IPv4 and sixteen for IPv6.\<close>

definition pton_sizes :: "(nat \<Rightarrow> string \<Rightarrow> bytes option) \<Rightarrow> bool" where
  "pton_sizes pton \<longleftrightarrow> (\<forall>str ip. (pton AF_INET str = Some ip \<longrightarrow> length ip = 4) \<and>
     (pton AF_INET6 str = Some ip \<longrightarrow> length ip = 16))"

lemma length_put_at: "i + length bs \<le> length a \<Longrightarrow> length (put_at i bs a) = length a"
  by (simp add: put_at_def)

lemma nth_put_at:
  assumes "i + length bs \<le> length a"
  shows "put_at i bs a ! j = (if i \<le> j \<and> j < i + length bs then bs ! (j - i) else a ! j)"
  using assms by (auto simp: put_at_def nth_append)

lemma slice_put_same: "i + length bs \<le> length a \<Longrightarrow> n = length bs \<Longrightarrow> take n (drop i (put_at i bs a)) = bs"
  by (simp add: put_at_def)

lemma slice_put_other:
  assumes "i + length bs \<le> length a" "j + n \<le> i \<or> i + length bs \<le> j" "j + n \<le> length a"
  shows "take n (drop j (put_at i bs a)) = take n (drop j a)"
  using assms by (intro nth_equalityI) (auto simp: length_put_at nth_put_at)

lemma htons_cat: "word_cat (htons p ! 0) (htons p ! 1) = p"
  by (rule bit_word_eqI) (auto simp: htons_def bit_word_cat_iff bit_ucast_iff bit_drop_bit_eq)

lemma decode_stored:
  assumes "length a = 128" and "f = AF_INET \<or> f = AF_INET6"
    and "if f = AF_INET then take 4 (drop 4 a) = ip else take 16 (drop 8 a) = ip"
  shows "decode_addr (put_at 2 (htons p) (put_at 0 (store_family f) a)) = (f, p, ip)"
proof -
  let ?b = "put_at 0 (store_family f) a"
  define c where "c = put_at 2 (htons p) ?b"
  have l: "length (store_family f) = 2" "length (htons p) = 2" "length ?b = 128"
    using assms(1) by (simp_all add: store_family_def htons_def length_put_at)
  have n: "c ! 0 = store_family f ! 0" "c ! 1 = store_family f ! 1" "c ! 2 = htons p ! 0" "c ! 3 = htons p ! 1"
    using l assms(1) by (simp_all add: c_def nth_put_at)
  have fam: "ss_family c = f" using assms(2) unfolding ss_family_def n
    by (auto simp: store_family_def AF_INET_def AF_INET6_def)
  have "take 4 (drop 4 c) = take 4 (drop 4 a)" "take 16 (drop 8 c) = take 16 (drop 8 a)"
    using l assms(1) by (simp_all add: c_def slice_put_other)
  then have "decode_addr c = (f, p, ip)"
    unfolding decode_addr_def fam n htons_cat using assms(3) by (simp split: if_splits)
  then show ?thesis by (simp add: c_def)
qed

text \<open>
  \<open>makesockaddr\<close> accepts an address exactly if it resolves, and then stores the family,
  the port in network order and the address where the kernel looks for them; \<open>getsocklen\<close> gives
  the size of the structure of that family.
\<close>

theorem makesockaddr_decodes:
  assumes "pton_sizes pton" and "length addr = 128" and "makesockaddr pton straddr port addr = (ok, a)"
  shows "length a = 128 \<and> (case resolve pton straddr of None \<Rightarrow> \<not> ok \<and> a = addr
     | Some (f, ip) \<Rightarrow> ok \<and> decode_addr a = (f, port, ip) \<and>
         getsocklen (Some a) = (if f = AF_INET then 16 else 28))"
proof (cases "resolve pton straddr")
  case None
  then show ?thesis using assms(2,3)
    by (auto simp: resolve_def makesockaddr_def split: option.splits list.splits if_splits)
next
  case (Some r)
  obtain f ip where r: "r = (f, ip)" by fastforce
  define i where "i = (if f = AF_INET then 4 else 8 :: nat)"
  have fam: "AF_INET \<noteq> AF_INET6" by (simp add: AF_INET_def AF_INET6_def)
  have f: "f = AF_INET \<and> length ip = 4 \<or> f = AF_INET6 \<and> length ip = 16"
    using Some r assms(1) fam
    by (auto simp: resolve_def pton_sizes_def split: option.splits list.splits)
  have comm: "put_at 8 (replicate 16 0) (put_at 0 (store_family AF_INET6) addr) =
      put_at 0 (store_family AF_INET6) (put_at 8 (replicate 16 0) addr)"
    using assms(2) by (intro nth_equalityI) (auto simp: length_put_at nth_put_at store_family_def)
  have m: "ok" "a = put_at 2 (htons port) (put_at 0 (store_family f) (put_at i ip addr))"
    using Some r assms(3) fam comm unfolding i_def
    by (auto simp: resolve_def makesockaddr_def split: option.splits list.splits if_splits)
  have l: "length (put_at i ip addr) = 128" using f fam assms(2) by (auto simp: i_def length_put_at)
  have "if f = AF_INET then take 4 (drop 4 (put_at i ip addr)) = ip else take 16 (drop 8 (put_at i ip addr)) = ip"
    using f fam assms(2) by (auto simp: i_def slice_put_same)
  then have d: "decode_addr a = (f, port, ip)" unfolding m(2) using l f by (intro decode_stored) auto
  then have "ss_family a = f" by (simp add: decode_addr_def)
  moreover have "length a = 128" unfolding m(2) using l by (simp add: length_put_at store_family_def htons_def)
  ultimately show ?thesis using Some r m(1) d f fam by (auto simp: getsocklen_def)
qed

definition toy_pton :: "nat \<Rightarrow> string \<Rightarrow> bytes option" where
  "toy_pton f str = (if f = AF_INET \<and> str = ''127.0.0.1'' then Some [127, 0, 0, 1]
     else if f = AF_INET6 \<and> str = ''::1'' then Some (replicate 15 0 @ [1]) else None)"

lemma toy_pton_sizes: "pton_sizes toy_pton"
  by (simp add: pton_sizes_def toy_pton_def AF_INET_def AF_INET6_def)

theorem makesockaddr_decodes_witness:
  "\<exists>a. makesockaddr toy_pton (Some ''127.0.0.1'') 5004 (replicate 128 0) = (True, a) \<and>
     decode_addr a = (AF_INET, 5004, [127, 0, 0, 1]) \<and> getsocklen (Some a) = 16"
proof -
  obtain ok a where m: "makesockaddr toy_pton (Some ''127.0.0.1'') 5004 (replicate 128 0) = (ok, a)"
    by (metis surj_pair)
  from makesockaddr_decodes [OF toy_pton_sizes _ this] m show ?thesis
    by (simp add: resolve_def toy_pton_def)
qed

text \<open>
  The errors that the main loop survives are the four transient ones.
\<close>

lemma handle_socket_error_iff:
  "handle_socket_error e \<noteq> 0 \<longleftrightarrow> e \<in> {EINTR, EHOSTDOWN, ECONNRESET, EACCES}"
  by (simp add: handle_socket_error_def EINTR_def EBADF_def EHOSTDOWN_def ECONNRESET_def ENOMEM_def EACCES_def)

end
