(* ===== verification/Example_Loop.thy ===== *)
theory Example_Loop
  imports Example_Tools
begin

text \<open>
  The UDP socket and the main loop of \<open>example.c\<close>: a DTLS endpoint that waits for packets,
  feeds them to its session and prints the keys when a handshake is over. The operating system
  is a parameter, \<open>host\<close>; the loop has fuel, because it ends only on a signal, an error or, for a
  client, success. The mutable part of the program is the session and the process \<open>'w\<close>.
\<close>

section \<open>The host\<close>

record ('k, 'b, 'w) host =
  sys_socket :: "nat \<Rightarrow> 'w \<Rightarrow> int \<times> 'w"   \<comment> \<open>of \<open>SOCK_DGRAM\<close>\<close>
  sys_setsockopt :: "int \<Rightarrow> int \<Rightarrow> int \<Rightarrow> int \<Rightarrow> 'w \<Rightarrow> int \<times> 'w"
  sys_bind :: "int \<Rightarrow> bytes \<Rightarrow> nat \<Rightarrow> 'w \<Rightarrow> int \<times> 'w"
  sys_close :: "int \<Rightarrow> 'w \<Rightarrow> 'w"
  host_sendto :: "'w sys_sendto"
  sys_select :: "int \<Rightarrow> 'w \<Rightarrow> int \<times> 'w"   \<comment> \<open>one descriptor, for reading\<close>
  sys_recvfrom :: "int \<Rightarrow> nat \<Rightarrow> uaddr \<Rightarrow> 'w \<Rightarrow> int \<times> bytes \<times> uaddr \<times> int \<times> 'w"
  sys_errno :: "'w \<Rightarrow> int"
  sys_exitflag :: "'w \<Rightarrow> int"   \<comment> \<open>the flag that \<open>setexit\<close> sets\<close>
  sys_print :: "string \<Rightarrow> 'w \<Rightarrow> 'w"   \<comment> \<open>to \<open>stdout\<close>\<close>
  fputs_result :: int
  inet_pton :: "nat \<Rightarrow> string \<Rightarrow> bytes option"
  sys_sigaction :: "'w \<Rightarrow> 'w"
  X509_digest :: "'k \<Rightarrow> int \<times> bytes"
  X509_free :: "'k \<Rightarrow> 'w \<Rightarrow> 'w"
  EVP_PKEY_free :: "'k \<Rightarrow> 'w \<Rightarrow> 'w"
  BIO_new_file :: "string \<Rightarrow> 'w \<Rightarrow> 'b option \<times> 'w"
  PEM_read_bio_X509 :: "'b option \<Rightarrow> 'w \<Rightarrow> 'k option \<times> 'w"
  PEM_read_bio_PrivateKey :: "'b option \<Rightarrow> 'w \<Rightarrow> 'k option \<times> 'w"
  OpenSSL_add_ssl_algorithms :: "'w \<Rightarrow> 'w"
  SSL_load_error_strings :: "'w \<Rightarrow> 'w"
  SSL_library_init :: "'w \<Rightarrow> int \<times> 'w"
  ERR_free_strings :: "'w \<Rightarrow> 'w"
  EVP_cleanup :: "'w \<Rightarrow> 'w"

section \<open>The code\<close>

definition RTP_PACKET_LEN :: nat where "RTP_PACKET_LEN = 8192"
definition FD_SETSIZE :: int where "FD_SETSIZE = 1024"
definition EXIT_SUCCESS :: int where "EXIT_SUCCESS = 0"
definition EXIT_FAILURE :: int where "EXIT_FAILURE = 1"

definition SOL_SOCKET :: int where "SOL_SOCKET = 1"
definition SO_REUSEADDR :: int where "SO_REUSEADDR = 2"
definition SO_REUSEPORT :: int where "SO_REUSEPORT = 15"
definition IPPROTO_IPV6 :: int where "IPPROTO_IPV6 = 41"
definition IPV6_V6ONLY :: int where "IPV6_V6ONLY = 26"

definition prepare_udp_socket :: "('k, 'b, 'w) host \<Rightarrow> uaddr \<Rightarrow> 'w \<Rightarrow> int \<times> 'w" where
  "prepare_udp_socket H addr w =
     (case sys_socket H (ss_family addr) w of (fd, w1) \<Rightarrow>
      if fd < 0 then (fd, w1)
      else let w2 = snd (sys_setsockopt H fd SOL_SOCKET SO_REUSEADDR 1 w1);
               w3 = snd (sys_setsockopt H fd SOL_SOCKET SO_REUSEPORT 1 w2) in
      if ss_family addr = AF_INET then (fd, snd (sys_bind H fd addr 16 w3))
      else let w4 = snd (sys_setsockopt H fd IPPROTO_IPV6 IPV6_V6ONLY 0 w3) in
        (fd, snd (sys_bind H fd addr 28 w4)))"

text \<open>A \<open>ptrdiff_t\<close> assigned to an \<open>int\<close>.\<close>

definition c_int :: "int \<Rightarrow> int" where
  "c_int r = sint (word_of_int r :: u32)"

fun show_nat :: "nat \<Rightarrow> string" where
  "show_nat n = (if n < 10 then [char_of (48 + n)] else show_nat (n div 10) @ [char_of (48 + n mod 10)])"

definition show_int :: "int \<Rightarrow> string" where
  "show_int i = (if i < 0 then ''-'' @ show_nat (nat (- i)) else show_nat (nat i))"

text \<open>
  A round of the loop gives whether it goes on, the value of \<open>ret\<close>, the session and the process.
  First the part after a handshake: lines 310 to 338.
\<close>

definition mainloop_keys ::
  "('x, 's, 'b, 'k, 'w) openssl \<Rightarrow> ('k, 'b, 'w) host \<Rightarrow> uaddr option \<Rightarrow> int \<Rightarrow> ('s, 'w) dtls_sess \<Rightarrow>
   'w \<Rightarrow> (bool \<times> int \<times> ('s, 'w) dtls_sess \<times> 'w) outcome" where
  "mainloop_keys L H peer ret dtls w =
     obind (dtls_sess_get_peer_certificate L dtls w) (\<lambda>(peercert, w1).
     case peercert of None \<Rightarrow> Done (False, ret, dtls, w1)
     | Some crt \<Rightarrow>
     obind (fprintfinger (fputs_result H) ''Fingerprint of peer's cert is '' (X509_digest H crt)) (\<lambda>(n1, t1).
     let w2 = X509_free H crt (sys_print H t1 w1) in
     obind (srtp_get_key_material L dtls w2) (\<lambda>(km, w3).
     case km of None \<Rightarrow> Done (False, ret, dtls, w3)
     | Some km \<Rightarrow>
     obind (fprintkeymat (fputs_result H) (material km) (srtp_key_material_extract km)) (\<lambda>(n2, t2).
     let w4 = snd (key_material_free L km (sys_print H t2 w3)) in
     if peer = None then Done (True, ret, dtls_sess_setup L dtls, w4)
     else Done (False, EXIT_SUCCESS, dtls, w4)))))"

text \<open>A DTLS packet: lines 304 to 338. A negative length becomes the length of an array.\<close>

definition mainloop_packet ::
  "('x, 's, 'b, 'k, 'w) openssl \<Rightarrow> ('k, 'b, 'w) host \<Rightarrow> int \<Rightarrow> uaddr option \<Rightarrow> int \<Rightarrow> bytes \<Rightarrow> int \<Rightarrow>
   uaddr \<Rightarrow> int \<Rightarrow> ('s, 'w) dtls_sess \<Rightarrow> 'w \<Rightarrow> (bool \<times> int \<times> ('s, 'w) dtls_sess \<times> 'w) outcome" where
  "mainloop_packet L H fd peer ret payload len l_peer l_peerlen dtls w =
     (if len < 0 then Undefined
      else obind (dtls_sess_put_packet L dtls fd (take (nat len) payload) (Some l_peer) l_peerlen w)
        (\<lambda>(r, dtls1, w1).
      let len1 = c_int r in
      if len1 < 0 \<and> ssl dtls1 = None then Undefined
      else if len1 < 0 \<and> SSL_get_error L (the (ssl dtls1)) len1 = SSL_ERROR_SSL
        then Done (False, ret, dtls1, w1)
      else if con_type dtls1 = DTLS_CONTYPE_EXISTING then mainloop_keys L H peer ret dtls1 w1
      else Done (True, ret, dtls1, w1)))"

text \<open>The body of the loop; \<open>FD_SET\<close> is undefined for a descriptor outside the set.\<close>

definition mainloop_step ::
  "('x, 's, 'b, 'k, 'w) openssl \<Rightarrow> ('k, 'b, 'w) host \<Rightarrow> int \<Rightarrow> uaddr option \<Rightarrow> int \<Rightarrow>
   ('s, 'w) dtls_sess \<Rightarrow> 'w \<Rightarrow> (bool \<times> int \<times> ('s, 'w) dtls_sess \<times> 'w) outcome" where
  "mainloop_step L H fd peer ret dtls w =
     (if fd < 0 \<or> FD_SETSIZE \<le> fd then Undefined
      else let l_peer = (case peer of Some p \<Rightarrow> p | None \<Rightarrow> replicate 128 0) in
      case sys_select H fd w of (selected, w1) \<Rightarrow>
      if selected = -1 then Done (False, ret, dtls, w1)
      else if selected > 0 then
        (case sys_recvfrom H fd RTP_PACKET_LEN l_peer w1 of (len, data, l_peer1, l_peerlen, w2) \<Rightarrow>
         let payload = take RTP_PACKET_LEN (data @ replicate RTP_PACKET_LEN 0) in
         if len < 0 \<and> handle_socket_error (sys_errno H w2) = 0 then Done (False, ret, dtls, w2)
         else obind (packet_is_dtls payload) (\<lambda>is_dtls.
           if is_dtls then mainloop_packet L H fd peer ret payload len l_peer1 l_peerlen dtls w2
           else Done (True, ret, dtls, w2)))
      else Done (True, ret, dtls, w1))"

fun mainloop_run ::
  "('x, 's, 'b, 'k, 'w) openssl \<Rightarrow> ('k, 'b, 'w) host \<Rightarrow> int \<Rightarrow> uaddr option \<Rightarrow> nat \<Rightarrow> int \<Rightarrow>
   ('s, 'w) dtls_sess \<Rightarrow> 'w \<Rightarrow> (int \<times> ('s, 'w) dtls_sess \<times> 'w) outcome option" where
  "mainloop_run L H fd peer 0 ret dtls w = None"
| "mainloop_run L H fd peer (Suc fuel) ret dtls w =
     (if sys_exitflag H w \<noteq> 0 then Some (Done (ret, dtls, w))
      else case mainloop_step L H fd peer ret dtls w of
        Done (go, ret1, dtls1, w1) \<Rightarrow>
          if go then mainloop_run L H fd peer fuel ret1 dtls1 w1 else Some (Done (ret1, dtls1, w1))
      | Aborted \<Rightarrow> Some Aborted
      | Undefined \<Rightarrow> Some Undefined)"

text \<open>
  The session is not checked for null before \<open>dtls_do_handshake\<close> uses it. The verdict of
  \<open>handle_socket_error\<close> on a failed handshake is not used, so it has no effect.
\<close>

definition mainloop ::
  "('x, 's, 'b, 'k, 'w) openssl \<Rightarrow> ('k, 'b, 'w) host \<Rightarrow> int \<Rightarrow> 'x \<Rightarrow> uaddr option \<Rightarrow> nat \<Rightarrow> 'w \<Rightarrow>
   (int \<times> 'w) outcome option" where
  "mainloop L H fd cfg peer fuel w =
     (case dtls_sess_new L (Some cfg) (Some (dsink_udp_getsink (host_sendto H))) (if peer = None then 1 else 0) w of
        Done (Some dtls, w1) \<Rightarrow>
          (case dtls_do_handshake L dtls fd peer (getsocklen peer) w1 of
             Done (r, dtls1, w2) \<Rightarrow>
               let ret = c_int r;
                   w3 = sys_print H (''agghgh ret is '' @ show_int ret @ [CHR 0x0A]) w2 in
               map_option (\<lambda>out. obind out (\<lambda>(ret1, dtls2, w4).
                   obind (dtls_sess_free L dtls2 w4) (\<lambda>w5. Done (ret1, w5))))
                 (mainloop_run L H fd peer fuel ret dtls1 w3)
           | Aborted \<Rightarrow> Some Aborted
           | Undefined \<Rightarrow> Some Undefined)
      | Done (None, w1) \<Rightarrow> Some Undefined
      | Aborted \<Rightarrow> Some Aborted
      | Undefined \<Rightarrow> Some Undefined)"

section \<open>Every round keeps the session\<close>

lemma fprinthex_returns: "bs \<noteq> [] \<Longrightarrow> \<exists>n t. fprinthex r p bs = Done (n, t)"
  by (cases bs) (simp_all add: fprinthex_Cons)

lemma fprintfinger_returns: "\<exists>n t. fprintfinger r p d = Done (n, t)"
  using fprinthex_returns by (cases d) (simp add: fprintfinger_def)

lemma fprintkeymat_returns:
  assumes "length (material km) = 60"
  shows "\<exists>n t. fprintkeymat r (material km) (srtp_key_material_extract km) = Done (n, t)"
proof -
  have p: "\<exists>n t. fprinthex r p (take k (drop i (material km))) = Done (n, t)" if "i < 60" "0 < k" for p i k
    using that assms by (intro fprinthex_returns) simp
  let ?e = "srtp_key_material_extract km"
  have b: "localkey ?e < 60" "remotekey ?e < 60" "localsalt ?e < 60" "remotesalt ?e < 60"
    by (simp_all add: srtp_key_material_extract_def master_lens Let_def)
  have l: "0 < MASTER_KEY_LEN" "0 < MASTER_SALT_LEN" by (simp_all add: master_lens)
  show ?thesis
    using p [OF b(1) l(1), of "''localkey''"] p [OF b(2) l(1), of "''remotekey''"]
      p [OF b(3) l(2), of "''localsalt''"] p [OF b(4) l(2), of "''remotesalt''"]
    by (auto simp: fprintkeymat_def)
qed

lemma mainloop_keys_cases:
  assumes "mainloop_keys L H peer ret s w = Done (go, ret', s', w')"
  obtains (no_cert) x where "ssl s = Some x" "SSL_get_peer_certificate L x w = (None, w')" "\<not> go"
      "ret' = ret" "s' = s"
  | (no_keys) x crt w1 t1 where "ssl s = Some x" "SSL_get_peer_certificate L x w = (Some crt, w1)"
      "srtp_get_key_material L s (X509_free H crt (sys_print H t1 w1)) = Done (None, w')" "\<not> go" "ret' = ret" "s' = s"
  | (keys) x crt w1 t1 km w3 t2 where "ssl s = Some x" "SSL_get_peer_certificate L x w = (Some crt, w1)"
      "srtp_get_key_material L s (X509_free H crt (sys_print H t1 w1)) = Done (Some km, w3)"
      "w' = snd (key_material_free L km (sys_print H t2 w3))"
      "if peer = None then go \<and> ret' = ret \<and> s' = dtls_sess_setup L s
       else \<not> go \<and> ret' = EXIT_SUCCESS \<and> s' = s"
proof -
  from assms obtain c w1 where 0: "dtls_sess_get_peer_certificate L s w = Done (c, w1)"
    by (auto simp: mainloop_keys_def)
  then obtain x where x: "ssl s = Some x" "SSL_get_peer_certificate L x w = (c, w1)"
    by (auto simp: dtls_sess_get_peer_certificate_def split: option.splits)
  show thesis
  proof (cases c)
    case None
    then show thesis using assms 0 x by (intro no_cert) (auto simp: mainloop_keys_def)
  next
    case (Some crt)
    obtain n1 t1 where t1: "fprintfinger (fputs_result H) ''Fingerprint of peer's cert is '' (X509_digest H crt) =
        Done (n1, t1)" using fprintfinger_returns by blast
    let ?w2 = "X509_free H crt (sys_print H t1 w1)"
    from assms 0 Some t1 obtain km w3 where 2: "srtp_get_key_material L s ?w2 = Done (km, w3)"
      by (auto simp: mainloop_keys_def)
    show thesis
    proof (cases km)
      case None
      then show thesis using assms 0 x Some t1 2 by (intro no_keys) (auto simp: mainloop_keys_def)
    next
      case km: (Some k)
      with assms 0 Some t1 2 obtain n2 t2 where 3: "fprintkeymat (fputs_result H) (material k)
          (srtp_key_material_extract k) = Done (n2, t2)"
        by (auto simp: mainloop_keys_def Let_def)
      show thesis
      proof (rule keys [OF x(1) x(2) [unfolded Some] 2 [unfolded km]])
        show "w' = snd (key_material_free L k (sys_print H t2 w3))"
          using assms 0 Some t1 2 3 km by (auto simp: mainloop_keys_def Let_def split: if_splits)
      qed (use assms 0 Some t1 2 3 km in \<open>auto simp: mainloop_keys_def Let_def split: if_splits\<close>)
    qed
  qed
qed

lemma mainloop_keys_keeps:
  assumes "mainloop_keys L H peer ret s w = Done (go, ret', s', w')"
  shows "sess_keeps s s'"
  using assms by (cases rule: mainloop_keys_cases) (auto simp: setup_keeps split: if_splits)

lemma mainloop_packet_cases:
  assumes "mainloop_packet L H fd peer ret p len a n s w = Done (go, ret', s', w')"
  obtains r s1 w1 where "dtls_sess_put_packet L s fd (take (nat len) p) (Some a) n w = Done (r, s1, w1)"
    "s' = s1 \<and> w' = w1 \<and> ret' = ret \<or>
     con_type s1 = DTLS_CONTYPE_EXISTING \<and> mainloop_keys L H peer ret s1 w1 = Done (go, ret', s', w')"
  using assms unfolding mainloop_packet_def by (auto simp: Let_def split: if_splits)

text \<open>The rounds of the loop: nothing to do, or a packet handled, with or without keys.\<close>

lemma mainloop_step_cases:
  assumes "mainloop_step L H fd peer ret s w = Done (go, ret', s', w')"
  obtains (idle) sel where "sys_select H fd w = (sel, w')" "ret' = ret" "s' = s"
  | (other) sel w1 a len d a' n where "sys_select H fd w = (sel, w1)"
      "sys_recvfrom H fd RTP_PACKET_LEN a w1 = (len, d, a', n, w')" "ret' = ret" "s' = s"
  | (packet) sel w1 a len d a' n w2 r s1 w3 where "sys_select H fd w = (sel, w1)"
      "sys_recvfrom H fd RTP_PACKET_LEN a w1 = (len, d, a', n, w2)"
      "dtls_sess_put_packet L s fd (take (nat len) (take RTP_PACKET_LEN (d @ replicate RTP_PACKET_LEN 0)))
         (Some a') n w2 = Done (r, s1, w3)"
      "s' = s1 \<and> w' = w3 \<and> ret' = ret \<or>
       con_type s1 = DTLS_CONTYPE_EXISTING \<and> mainloop_keys L H peer ret s1 w3 = Done (go, ret', s', w')"
proof -
  let ?a = "case peer of Some p \<Rightarrow> p | None \<Rightarrow> replicate 128 0"
  obtain sel w1 where 1: "sys_select H fd w = (sel, w1)" by fastforce
  obtain len d a' n w2 where 2: "sys_recvfrom H fd RTP_PACKET_LEN ?a w1 = (len, d, a', n, w2)"
    by (cases "sys_recvfrom H fd RTP_PACKET_LEN ?a w1")
  let ?p = "take RTP_PACKET_LEN (d @ replicate RTP_PACKET_LEN 0)"
  obtain r where r: "packet_is_dtls ?p = r" by simp
  from assms 1 2 consider "w' = w1" "ret' = ret" "s' = s" | "w' = w2" "ret' = ret" "s' = s"
    | "mainloop_packet L H fd peer ret ?p len a' n s w2 = Done (go, ret', s', w')"
    unfolding mainloop_step_def Let_def 1 prod.case 2 r
    by (cases r) (simp_all split: if_splits)
  then show thesis
  proof cases
    case 3
    then show thesis by (cases rule: mainloop_packet_cases) (rule packet [OF 1 2])
  next
    case 1
    then show thesis using \<open>sys_select H fd w = (sel, w1)\<close> by (intro idle) simp_all
  next
    case 2
    then show thesis using \<open>sys_select H fd w = (sel, w1)\<close> \<open>sys_recvfrom H fd RTP_PACKET_LEN ?a w1 = (len, d, a', n, w2)\<close>
      by (intro other) simp_all
  qed
qed

lemma mainloop_step_keeps:
  assumes "mainloop_step L H fd peer ret s w = Done (go, ret', s', w')"
  shows "sess_keeps s s'"
  using assms
proof (cases rule: mainloop_step_cases)
  case (packet sel w1 a len d a' n w2 r s1 w3)
  have "sess_keeps s s1" using put_packet_keeps [OF packet(3)] .
  moreover have "sess_keeps s1 s'" using packet(4) by (auto dest: mainloop_keys_keeps)
  ultimately show ?thesis by (rule sess_keeps_trans)
qed simp_all

lemma mainloop_step_inv:
  assumes inv: "ssl_inv L P" and "mainloop_step L H fd peer ret s w = Done (go, ret', s', w')" and ok: "sess_inv P s"
  shows "sess_inv P s'"
  using assms(2)
proof (cases rule: mainloop_step_cases)
  case (packet sel w1 a len d a' n w2 r s1 w3)
  have s1: "sess_inv P s1" using put_packet_inv [OF inv packet(3) ok] .
  from packet(4) show ?thesis
  proof
    assume "con_type s1 = DTLS_CONTYPE_EXISTING \<and> mainloop_keys L H peer ret s1 w3 = Done (go, ret', s', w')"
    then have "mainloop_keys L H peer ret s1 w3 = Done (go, ret', s', w')" by simp
    then show ?thesis
      by (cases rule: mainloop_keys_cases) (use s1 setup_inv [OF inv s1] in \<open>auto split: if_splits\<close>)
  qed (use s1 in simp)
qed (use ok in simp_all)

section \<open>Every round returns\<close>

text \<open>
  The received length is that of the data and fits the buffer, or it is negative and nothing
  was received; memory is not exhausted.
\<close>

definition recv_ok :: "('k, 'b, 'w) host \<Rightarrow> bool" where
  "recv_ok H \<longleftrightarrow> (\<forall>fd k a w len d a' n w'. sys_recvfrom H fd k a w = (len, d, a', n, w') \<longrightarrow>
     (if len < 0 then d = [] else nat len = length d \<and> length d \<le> k))"

definition calloc_ok :: "('x, 's, 'b, 'k, 'w) openssl \<Rightarrow> bool" where
  "calloc_ok L \<longleftrightarrow> (\<forall>w. fst (c_calloc L w))"

lemma mainloop_keys_returns:
  assumes "ssl_exports L" and "calloc_ok L" and "ssl s \<noteq> None"
  shows "\<exists>go r s' w'. mainloop_keys L H peer ret s w = Done (go, r, s', w')"
proof -
  obtain x where x: "ssl s = Some x" using assms(3) by auto
  obtain c w1 where c: "SSL_get_peer_certificate L x w = (c, w1)" by fastforce
  then have 0: "dtls_sess_get_peer_certificate L s w = Done (c, w1)"
    by (simp add: dtls_sess_get_peer_certificate_def x)
  show ?thesis
  proof (cases c)
    case None
    then show ?thesis using 0 by (auto simp: mainloop_keys_def)
  next
    case (Some crt)
    obtain n1 t1 where t1: "fprintfinger (fputs_result H) ''Fingerprint of peer's cert is '' (X509_digest H crt) =
        Done (n1, t1)" using fprintfinger_returns by blast
    let ?w2 = "X509_free H crt (sys_print H t1 w1)"
    obtain w3 where a: "c_calloc L ?w2 = (True, w3)"
      using assms(2) unfolding calloc_ok_def by (metis prod.collapse)
    obtain i out where e: "SSL_export_keying_material L x (replicate 60 0) ''EXTRACTOR-dtls_srtp'' = (i, out)"
      by fastforce
    then have out: "length out = 60" using assms(1) by (auto simp: ssl_exports_def)
    have "\<exists>km w4. srtp_get_key_material L s ?w2 = Done (km, w4)"
      using x a e by (simp add: srtp_get_key_material_def master_lens Let_def)
    then obtain km w4 where 2: "srtp_get_key_material L s ?w2 = Done (km, w4)" by blast
    have l: "length (material k) = 60" if "km = Some k" for k
      using 2 x e out that by (cases rule: get_key_material_cases) auto
    show ?thesis
    proof (cases km)
      case None
      then show ?thesis using 0 Some t1 2 by (auto simp: mainloop_keys_def)
    next
      case km: (Some k)
      obtain n2 t2 where "fprintkeymat (fputs_result H) (material k) (srtp_key_material_extract k) = Done (n2, t2)"
        using fprintkeymat_returns [OF l [OF km]] by blast
      then show ?thesis using 0 Some t1 2 km by (auto simp: mainloop_keys_def Let_def)
    qed
  qed
qed

text \<open>
  A packet is put into the session only if it is not empty: the cleared buffer has a zero first
  byte when nothing came in.
\<close>

lemma dtls_payload_nonempty:
  assumes "recv_ok H" and "sys_recvfrom H fd RTP_PACKET_LEN a w = (len, d, a', n, w')"
    and "packet_is_dtls (take RTP_PACKET_LEN (d @ replicate RTP_PACKET_LEN 0)) = Done True"
  shows "0 < len" "take (nat len) (take RTP_PACKET_LEN (d @ replicate RTP_PACKET_LEN 0)) = d" "d \<noteq> []"
proof -
  have r: "if len < 0 then d = [] else nat len = length d \<and> length d \<le> RTP_PACKET_LEN"
    using assms(1,2) unfolding recv_ok_def by blast
  show d: "d \<noteq> []"
  proof
    assume "d = []"
    then have "packet_is_dtls (replicate RTP_PACKET_LEN 0) = Done True" using assms(3) by simp
    moreover have "replicate RTP_PACKET_LEN (0 :: byte) = 0 # replicate (RTP_PACKET_LEN - 1) 0"
      by (simp add: RTP_PACKET_LEN_def replicate_Suc [symmetric] del: replicate_Suc)
    ultimately show False by (simp add: packet_is_dtls_def)
  qed
  with r have l: "\<not> len < 0" "nat len = length d" "length d \<le> RTP_PACKET_LEN" by (auto split: if_splits)
  then show "0 < len" using d by (cases "len = 0") auto
  show "take (nat len) (take RTP_PACKET_LEN (d @ replicate RTP_PACKET_LEN 0)) = d" using l by simp
qed

lemma mainloop_step_returns:
  assumes "bio_reads L" and "ssl_exports L" and "calloc_ok L" and "recv_ok H" and fd: "0 \<le> fd" "fd < FD_SETSIZE"
    and s: "live s"
  shows "\<exists>go r s' w'. mainloop_step L H fd peer ret s w = Done (go, r, s', w')"
proof -
  let ?a = "case peer of Some p \<Rightarrow> p | None \<Rightarrow> replicate 128 0"
  obtain sel w1 where 1: "sys_select H fd w = (sel, w1)" by fastforce
  obtain len d a' n w2 where 2: "sys_recvfrom H fd RTP_PACKET_LEN ?a w1 = (len, d, a', n, w2)"
    by (cases "sys_recvfrom H fd RTP_PACKET_LEN ?a w1")
  let ?p = "take RTP_PACKET_LEN (d @ replicate RTP_PACKET_LEN 0)"
  have "?p \<noteq> []" by (simp add: RTP_PACKET_LEN_def)
  then obtain b where b: "packet_is_dtls ?p = Done b" by (cases ?p) (auto simp: packet_is_dtls_def)
  have "\<exists>go r s' w'. mainloop_packet L H fd peer ret ?p len a' n s w2 = Done (go, r, s', w')" if "b"
  proof -
    note p = dtls_payload_nonempty [OF assms(4) 2 b [unfolded that [THEN eqTrueI]]]
    obtain r s1 w3 where put: "dtls_sess_put_packet L s fd d (Some a') n w2 = Done (r, s1, w3)"
      using put_packet_returns [OF assms(1) s p(3)] by blast
    have "ssl s1 \<noteq> None" using put_packet_keeps [OF put] s by (simp add: sess_keeps_def live_def)
    then show ?thesis
      using mainloop_keys_returns [OF assms(2,3), of s1 H peer ret w3] put p(1)
      unfolding mainloop_packet_def p(2) Let_def by auto
  qed
  then show ?thesis using fd 1 2 b unfolding mainloop_step_def Let_def by (cases b) auto
qed

section \<open>What the rounds do to the process\<close>

text \<open>
  An observation \<open>f\<close> of the process that network and printing leave alone, and that showing
  the keys (a certificate taken and freed, key material taken and freed) leaves as it was.
\<close>

definition host_keeps :: "('k, 'b, 'w) host \<Rightarrow> ('w \<Rightarrow> 'a) \<Rightarrow> bool" where
  "host_keeps H f \<longleftrightarrow> (\<forall>fd bs fl d n w. f (snd (host_sendto H fd bs fl d n w)) = f w) \<and>
     (\<forall>fd k a w len d a' n w'. sys_recvfrom H fd k a w = (len, d, a', n, w') \<longrightarrow> f w' = f w) \<and>
     (\<forall>t w. f (sys_print H t w) = f w)"

definition keys_neutral :: "('x, 's, 'b, 'k, 'w) openssl \<Rightarrow> ('k, 'b, 'w) host \<Rightarrow> ('w \<Rightarrow> 'a) \<Rightarrow> bool" where
  "keys_neutral L H f \<longleftrightarrow>
     (\<forall>x w w1. SSL_get_peer_certificate L x w = (None, w1) \<longrightarrow> f w1 = f w) \<and>
     (\<forall>x w crt w1 w2. SSL_get_peer_certificate L x w = (Some crt, w1) \<longrightarrow> f w2 = f w1 \<longrightarrow>
        f (X509_free H crt w2) = f w) \<and>
     (\<forall>s w w1. srtp_get_key_material L s w = Done (None, w1) \<longrightarrow> f w1 = f w) \<and>
     (\<forall>s w km w1 w2. srtp_get_key_material L s w = Done (Some km, w1) \<longrightarrow> f w2 = f w1 \<longrightarrow>
        f (snd (key_material_free L km w2)) = f w)"

lemma mainloop_keys_world:
  assumes "host_keeps H f" and "keys_neutral L H f" and "mainloop_keys L H peer ret s w = Done (go, ret', s', w')"
  shows "f w' = f w"
proof -
  have pr: "f (sys_print H t v) = f v" for t v using assms(1) by (simp add: host_keeps_def)
  have crt: "f (X509_free H crt (sys_print H t w1)) = f w"
    if "SSL_get_peer_certificate L x w = (Some crt, w1)" for x crt w1 t
    using assms(2) that pr [of t w1] unfolding keys_neutral_def by blast
  from assms(3) show ?thesis
  proof (cases rule: mainloop_keys_cases)
    case (no_cert x)
    then show ?thesis using assms(2) unfolding keys_neutral_def by blast
  next
    case (no_keys x crt w1 t1)
    then have "f w' = f (X509_free H crt (sys_print H t1 w1))"
      using assms(2) unfolding keys_neutral_def by blast
    then show ?thesis using crt [OF no_keys(2)] by simp
  next
    case (keys x crt w1 t1 km w3 t2)
    then have "f w' = f (X509_free H crt (sys_print H t1 w1))"
      using assms(2) pr [of t2 w3] unfolding keys_neutral_def by blast
    then show ?thesis using crt [OF keys(2)] by simp
  qed
qed

lemma host_sink_keeps: "host_keeps H f \<Longrightarrow> sink_keeps f (Some (dsink_udp_getsink (host_sendto H)))"
  by (simp add: host_keeps_def sink_keeps_def udp_sendto_def)

text \<open>Of a round, only \<open>select\<close> changes \<open>f\<close>.\<close>

lemma mainloop_step_world:
  assumes "host_keeps H f" and "keys_neutral L H f" and "sink s = Some (dsink_udp_getsink (host_sendto H))"
    and "mainloop_step L H fd peer ret s w = Done (go, ret', s', w')"
  shows "f w' = f (snd (sys_select H fd w))"
  using assms(4)
proof (cases rule: mainloop_step_cases)
  case (other sel w1 a len d a' n)
  then show ?thesis using assms(1) unfolding host_keeps_def by (metis snd_conv)
next
  case (packet sel w1 a len d a' n w2 r s1 w3)
  have "f w2 = f w1" using assms(1) packet(2) unfolding host_keeps_def by blast
  moreover have "f w3 = f w2"
    using api_world [of f s L fd "Some a'" n "Put_packet (take (nat len) (take RTP_PACKET_LEN (d @ replicate RTP_PACKET_LEN 0)))"
        w2 r s1 w3] packet(3) host_sink_keeps [OF assms(1)] assms(3) by simp
  moreover have "f w' = f w3" using packet(4) mainloop_keys_world [OF assms(1,2)] by auto
  ultimately show ?thesis using packet(1) by simp
qed simp

section \<open>The loop ends and leaves nothing behind\<close>

text \<open>
  \<open>rounds\<close> is the number of times \<open>select\<close> returns before the signal comes: 0 means that the
  exit flag is set.
\<close>

definition signal_comes :: "('k, 'b, 'w) host \<Rightarrow> ('w \<Rightarrow> nat) \<Rightarrow> bool" where
  "signal_comes H rounds \<longleftrightarrow> (\<forall>w. rounds w = 0 \<longrightarrow> sys_exitflag H w \<noteq> 0) \<and>
     (\<forall>fd w. rounds (snd (sys_select H fd w)) = rounds w - 1)"

definition loop_ok :: "('k, 'b, 'w) host \<Rightarrow> ('s, 'w) dtls_sess \<Rightarrow> bool" where
  "loop_ok H s \<longleftrightarrow> live s \<and> sink s = Some (dsink_udp_getsink (host_sendto H))"

lemma loop_ok_keeps: "loop_ok H s \<Longrightarrow> sess_keeps s s' \<Longrightarrow> loop_ok H s'"
  by (simp add: loop_ok_def live_def sess_keeps_def)

lemma mainloop_run_ends:
  assumes laws: "bio_reads L" "ssl_exports L" "calloc_ok L" "recv_ok H" "0 \<le> fd" "fd < FD_SETSIZE"
    and sig: "signal_comes H rounds" "host_keeps H rounds" "keys_neutral L H rounds"
    and "rounds w < fuel" and "loop_ok H s"
  shows "\<exists>r s' w'. mainloop_run L H fd peer fuel ret s w = Some (Done (r, s', w')) \<and> loop_ok H s'"
  using assms(10,11)
proof (induction fuel arbitrary: ret s w)
  case (Suc fuel)
  show ?case
  proof (cases "sys_exitflag H w = 0")
    case True
    then have "rounds w \<noteq> 0" using sig(1) by (auto simp: signal_comes_def)
    obtain go r s1 w1 where 1: "mainloop_step L H fd peer ret s w = Done (go, r, s1, w1)"
      using mainloop_step_returns [OF laws] Suc.prems(2) unfolding loop_ok_def by meson
    have s1: "loop_ok H s1" using loop_ok_keeps [OF Suc.prems(2) mainloop_step_keeps [OF 1]] .
    have "rounds w1 = rounds w - 1"
      using mainloop_step_world [OF sig(2,3) _ 1] Suc.prems(2) sig(1) by (simp add: loop_ok_def signal_comes_def)
    then have "rounds w1 < fuel" using Suc.prems(1) \<open>rounds w \<noteq> 0\<close> by simp
    from Suc.IH [OF this s1] show ?thesis using True 1 s1 by simp
  qed (use Suc.prems(2) in simp)
qed simp

lemma mainloop_run_inv:
  assumes "ssl_inv L P" and "host_keeps H f" "keys_neutral L H f" "\<And>fd w. f (snd (sys_select H fd w)) = f w"
    and "mainloop_run L H fd peer fuel ret s w = Some (Done (r, s', w'))" "sess_inv P s" "loop_ok H s"
  shows "sess_inv P s' \<and> f w' = f w \<and> loop_ok H s'"
  using assms(5-7)
proof (induction fuel arbitrary: ret s w)
  case (Suc fuel)
  show ?case
  proof (cases "sys_exitflag H w = 0")
    case True
    then obtain go r1 s1 w1 where 1: "mainloop_step L H fd peer ret s w = Done (go, r1, s1, w1)"
      using Suc.prems(1) by (cases "mainloop_step L H fd peer ret s w") auto
    have "sess_inv P s1" using mainloop_step_inv [OF assms(1) 1 Suc.prems(2)] .
    moreover have "loop_ok H s1" using loop_ok_keeps [OF Suc.prems(3) mainloop_step_keeps [OF 1]] .
    moreover have "f w1 = f w"
      using mainloop_step_world [OF assms(2,3) _ 1] Suc.prems(3) assms(4) by (simp add: loop_ok_def)
    ultimately show ?thesis using Suc.IH Suc.prems(1) True 1 by (cases go) auto
  qed (use Suc.prems in simp)
qed simp

lemma handshake_started:
  assumes "dtls_sess_new L ctx (Some (dsink_udp_getsink (host_sendto H))) st w = Done (Some s, w1)"
    and "dtls_do_handshake L s fd peer n w1 = Done (r, s1, w2)" and "host_keeps H f"
  shows "loop_ok H s1" and "f (sys_print H t w2) = f w1"
proof -
  note n = sess_new_frame [OF assms(1)]
  show "loop_ok H s1" using do_handshake_keeps [OF assms(2)] n by (simp add: loop_ok_def live_def sess_keeps_def)
  have "f w2 = f w1"
    using api_world [of f s L fd peer n Do_handshake w1 r s1 w2] assms(2) n(2) host_sink_keeps [OF assms(3)] by simp
  then show "f (sys_print H t w2) = f w1" using assms(3) by (simp add: host_keeps_def)
qed

lemma mainloop_eq:
  assumes "dtls_sess_new L (Some cfg) (Some (dsink_udp_getsink (host_sendto H))) (if peer = None then 1 else 0) w =
      Done (Some s, w1)"
    and "dtls_do_handshake L s fd peer (getsocklen peer) w1 = Done (r, s1, w2)"
  shows "mainloop L H fd cfg peer fuel w = map_option (\<lambda>out. obind out (\<lambda>(ret1, dtls2, w4).
      obind (dtls_sess_free L dtls2 w4) (\<lambda>w5. Done (ret1, w5))))
    (mainloop_run L H fd peer fuel (c_int r) s1
       (sys_print H (''agghgh ret is '' @ show_int (c_int r) @ [CHR 0x0A]) w2))"
  using assms by (simp add: mainloop_def Let_def)

lemma mainloop_returns:
  assumes laws: "bio_reads L" "ssl_exports L" "calloc_ok L" "recv_ok H" "0 \<le> fd" "fd < FD_SETSIZE"
    and sig: "signal_comes H rounds" "host_keeps H rounds" "keys_neutral L H rounds"
    and new: "dtls_sess_new L (Some cfg) (Some (dsink_udp_getsink (host_sendto H))) (if peer = None then 1 else 0) w =
      Done (Some s, w1)" and fuel: "rounds w1 < fuel"
  shows "\<exists>r w'. mainloop L H fd cfg peer fuel w = Some (Done (r, w'))"
proof -
  have "live s" using sess_new_frame [OF new] by (simp add: live_def)
  then obtain r s1 w2 where h: "dtls_do_handshake L s fd peer (getsocklen peer) w1 = Done (r, s1, w2)"
    using do_handshake_returns [OF laws(1)] by meson
  note i = handshake_started [OF new h sig(2)]
  obtain r' s' w' where "mainloop_run L H fd peer fuel (c_int r) s1
      (sys_print H (''agghgh ret is '' @ show_int (c_int r) @ [CHR 0x0A]) w2) = Some (Done (r', s', w'))" "loop_ok H s'"
    using mainloop_run_ends [OF laws sig _ i(1)] fuel i(2) by metis
  then show ?thesis by (simp add: mainloop_eq [OF new h] dtls_sess_free_def loop_ok_def live_def)
qed

text \<open>
  (C38) The main loop ends: if a session can be made and the signal that sets the exit flag comes
  after finitely many rounds, the program returns from \<open>mainloop\<close>, as client or as server,
  whatever packets arrive meanwhile (empty datagrams, media and failed receptions among them).
  No round runs into undefined behaviour: no empty packet reaches \<open>dtls_sess_put_packet\<close>, and
  the mutex is free when the session is destroyed.
\<close>

theorem mainloop_ends:
  assumes laws: "bio_reads L" "ssl_exports L" "calloc_ok L" "recv_ok H" "0 \<le> fd" "fd < FD_SETSIZE"
    and sig: "signal_comes H rounds" "host_keeps H rounds" "keys_neutral L H rounds"
    and new: "dtls_sess_new L (Some cfg) (Some (dsink_udp_getsink (host_sendto H))) (if peer = None then 1 else 0) w =
      Done (Some s, w1)" and fuel: "rounds w1 < fuel"
  shows "\<exists>r w'. mainloop L H fd cfg peer fuel w = Some (Done (r, w'))"
  using assms by (rule mainloop_returns)

definition x509_counts :: "('k, 'b, 'w) host \<Rightarrow> ('w \<Rightarrow> int) \<Rightarrow> ('w \<Rightarrow> int) \<Rightarrow> bool" where
  "x509_counts H objs blocks \<longleftrightarrow> (\<forall>k w. objs (X509_free H k w) = objs w - 1 \<and> blocks (X509_free H k w) = blocks w)"

lemma resources_neutral:
  assumes res: "ssl_resources L objs blocks bios" and x: "x509_counts H objs blocks"
  shows "keys_neutral L H (\<lambda>v. (objs v, blocks v))"
proof -
  have "objs w1 = objs w \<and> blocks w1 = blocks w" if "srtp_get_key_material L s w = Done (None, w1)"
    for s w w1
    using that by (cases rule: get_key_material_cases)
      (auto simp: ssl_resources_free [OF res] dest: ssl_resources_new(5) [OF res])
  moreover have "objs w1 = objs w \<and> blocks w1 = blocks w + 1" if "srtp_get_key_material L s w = Done (Some km, w1)"
    for s w w1 km
    using that by (cases rule: get_key_material_cases) (auto dest: ssl_resources_new(5) [OF res])
  moreover have "objs (snd (key_material_free L km w)) = objs w \<and> blocks (snd (key_material_free L km w)) = blocks w - 1"
    for km w by (simp add: key_material_free_def ssl_resources_free [OF res])
  ultimately show ?thesis
    using x unfolding keys_neutral_def x509_counts_def by (auto dest: ssl_resources_new(6) [OF res])
qed

text \<open>
  A host for the witnesses: every \<open>select\<close> reports a DTLS packet, the signal comes after two. One
  socket can be open at a time; that it is, and which tables of OpenSSL are loaded, is noted among the
  datagrams, under numbers that are no descriptors.
\<close>

definition toy_note :: "int \<Rightarrow> toy_world \<Rightarrow> toy_world" where
  "toy_note i = (\<lambda>(n, b, out). (n, b, out @ [(i, [])]))"

definition toy_erase :: "int \<Rightarrow> toy_world \<Rightarrow> toy_world" where
  "toy_erase i = (\<lambda>(n, b, out). (n, b, removeAll (i, []) out))"

definition toy_noted :: "int \<Rightarrow> toy_world \<Rightarrow> bool" where
  "toy_noted i = (\<lambda>(n, b, out). (i, []) \<in> set out)"

definition toy_rounds :: "toy_world \<Rightarrow> nat" where
  "toy_rounds w = (case w of (n, b, out) \<Rightarrow> 2 - length (filter (\<lambda>p. fst p = -1) out))"

definition toy_host :: "(nat, unit, toy_world) host" where
  "toy_host = \<lparr>
     sys_socket = (\<lambda>f w. if toy_noted (-10) w then (-1, w) else (5, toy_note (-10) w)),
     sys_setsockopt = (\<lambda>fd l opt v w. (0, w)),
     sys_bind = (\<lambda>fd a n w. (0, w)),
     sys_close = (\<lambda>fd w. if fd = 5 then toy_erase (-10) w else w),
     host_sendto = (\<lambda>fd bs fl d n w. if fd < 0 then (-1, w) else toy_sendto fd bs fl d n w),
     sys_select = (\<lambda>fd (n, b, out). (1, (n, b, out @ [(-1, [])]))),
     sys_recvfrom = (\<lambda>fd k a w. if k = 0 then (-1, [], a, 0, w) else (1, [22], a, 16, w)),
     sys_errno = (\<lambda>w. 4),
     sys_exitflag = (\<lambda>w. if toy_rounds w = 0 then 1 else 0),
     sys_print = (\<lambda>t w. w),
     fputs_result = 1,
     inet_pton = toy_pton,
     sys_sigaction = (\<lambda>w. w),
     X509_digest = (\<lambda>k. (1, [0xAB])),
     X509_free = (\<lambda>k (n, b, out). (n - 1, b, out)),
     EVP_PKEY_free = (\<lambda>k (n, b, out). (n - 1, b, out)),
     BIO_new_file = (\<lambda>f (n, b, out). (Some (), (n + 1, b, out))),
     PEM_read_bio_X509 = (\<lambda>x (n, b, out). (Some 3, (n + 1, b, out))),
     PEM_read_bio_PrivateKey = (\<lambda>x (n, b, out). (Some 4, (n + 1, b, out))),
     OpenSSL_add_ssl_algorithms = toy_note (-12),
     SSL_load_error_strings = toy_note (-11),
     SSL_library_init = (\<lambda>w. (1, toy_note (-12) w)),
     ERR_free_strings = toy_erase (-11),
     EVP_cleanup = toy_erase (-12) \<rparr>"

lemma toy_recv: "recv_ok toy_host"
  by (auto simp: recv_ok_def toy_host_def)

lemma toy_calloc: "calloc_ok toy_ssl"
  by (simp add: calloc_ok_def toy_ssl_def split: prod.split)

lemma toy_signal: "signal_comes toy_host toy_rounds"
  by (auto simp: signal_comes_def toy_host_def toy_rounds_def)

lemma toy_host_keeps: "host_keeps toy_host toy_rounds"
  by (auto simp: host_keeps_def toy_host_def toy_rounds_def toy_sendto_def split: prod.split if_splits)

lemma toy_keys_neutral: "keys_neutral toy_ssl toy_host toy_rounds"
proof -
  have "toy_rounds w1 = toy_rounds w" if "srtp_get_key_material toy_ssl s w = Done (r, w1)" for s w r w1
    using that by (cases rule: get_key_material_cases) (auto simp: toy_ssl_def toy_rounds_def split: prod.splits)
  moreover have "toy_rounds (snd (key_material_free toy_ssl km w)) = toy_rounds w" for km w
    by (simp add: key_material_free_def toy_ssl_def toy_rounds_def split: prod.split)
  moreover have "toy_rounds (X509_free toy_host k w) = toy_rounds w" for k w
    by (simp add: toy_host_def toy_rounds_def split: prod.split)
  moreover have "toy_rounds w1 = toy_rounds w" if "SSL_get_peer_certificate toy_ssl x w = (r, w1)" for x w r w1
    using that by (auto simp: toy_ssl_def toy_rounds_def split: prod.splits)
  ultimately show ?thesis unfolding keys_neutral_def by metis
qed

lemma toy_loop_session:
  "\<exists>s. dtls_sess_new toy_ssl (Some (0, [])) (Some (dsink_udp_getsink (host_sendto toy_host)))
     (if None = (None :: uaddr option) then 1 else 0) (1, 0, []) = Done (Some s, (4, 1, []))"
  by (simp add: dtls_sess_new_def toy_ssl_def Let_def)

lemma toy_mainloop:
  "\<exists>r w'. mainloop toy_ssl toy_host 5 (0, []) None 3 (1, 0, []) = Some (Done (r, w'))"
proof -
  obtain s where s: "dtls_sess_new toy_ssl (Some (0, [])) (Some (dsink_udp_getsink (host_sendto toy_host)))
      (if None = (None :: uaddr option) then 1 else 0) (1, 0, []) = Done (Some s, (4, 1, []))"
    using toy_loop_session by blast
  show ?thesis
    by (rule mainloop_returns [OF toy_reads toy_exports toy_calloc toy_recv _ _ toy_signal toy_host_keeps
          toy_keys_neutral s]) (simp_all add: FD_SETSIZE_def toy_rounds_def)
qed

theorem mainloop_ends_witness:
  "\<exists>r w'. mainloop toy_ssl toy_host 5 (0, []) None 3 (1, 0, []) = Some (Done (r, w'))"
proof -
  obtain s where s: "dtls_sess_new toy_ssl (Some (0, [])) (Some (dsink_udp_getsink (host_sendto toy_host)))
      (if None = (None :: uaddr option) then 1 else 0) (1, 0, []) = Done (Some s, (4, 1, []))"
    using toy_loop_session by blast
  show ?thesis
    by (rule mainloop_ends [OF toy_reads toy_exports toy_calloc toy_recv _ _ toy_signal toy_host_keeps
          toy_keys_neutral s]) (simp_all add: FD_SETSIZE_def toy_rounds_def)
qed

lemma mainloop_resources:
  assumes res: "ssl_resources L objs blocks bios" "ssl_owns L bios" "x509_counts H objs blocks"
    and host: "host_keeps H (\<lambda>v. (objs v, blocks v))"
      "\<And>fd w. (\<lambda>v. (objs v, blocks v)) (snd (sys_select H fd w)) = (objs w, blocks w)"
    and ret: "mainloop L H fd cfg peer fuel w = Some (Done (r, w'))"
  shows "objs w' = objs w \<and> blocks w' = blocks w"
proof -
  let ?f = "\<lambda>v. (objs v, blocks v)" and ?k = "Some (dsink_udp_getsink (host_sendto H))"
    and ?st = "if peer = None then 1 else 0 :: int"
  obtain s w1 where new: "dtls_sess_new L (Some cfg) ?k ?st w = Done (Some s, w1)"
    using ret by (auto simp: mainloop_def split: outcome.splits option.splits)
  obtain r1 s1 w2 where h: "dtls_do_handshake L s fd peer (getsocklen peer) w1 = Done (r1, s1, w2)"
    using ret new by (auto simp: mainloop_def split: outcome.splits)
  note i = handshake_started [OF new h host(1)]
  let ?w3 = "sys_print H (''agghgh ret is '' @ show_int (c_int r1) @ [CHR 0x0A]) w2"
  from ret obtain r2 s2 w4 where run: "mainloop_run L H fd peer fuel (c_int r1) s1 ?w3 = Some (Done (r2, s2, w4))"
      "dtls_sess_free L s2 w4 = Done w'"
    unfolding mainloop_eq [OF new h] by auto
  have inv: "ssl_inv L (\<lambda>st x. bios x = 2)" using owns_inv [OF res(2,1)] .
  have "sess_inv (\<lambda>st x. bios x = 2) s"
    using new by (cases rule: sess_new_cases) (simp add: set_role_def ssl_resources_free [OF res(1)] sess_inv_def)
  then have "sess_inv (\<lambda>st x. bios x = 2) s1" by (rule do_handshake_inv [OF inv h])
  from mainloop_run_inv [OF inv host(1) resources_neutral [OF res(1,3)] host(2) run(1) this i(1)]
  obtain x where x: "ssl s2 = Some x" "bios x = 2" "\<not> lock s2" and w4: "?f w4 = ?f ?w3"
    by (auto simp: sess_inv_def loop_ok_def live_def)
  have "objs w1 = objs w + 3" "blocks w1 = blocks w + 1"
    using new by (cases rule: sess_new_cases, auto dest!: ssl_resources_new [OF res(1)])+
  then show ?thesis
    using run(2) x w4 i(2) by (auto simp: dtls_sess_free_def ssl_resources_free [OF res(1)])
qed

text \<open>
  An observation that no operation of OpenSSL and the allocator changes, and none of the host but
  those on sockets and on the tables of OpenSSL.
\<close>

definition ssl_keeps :: "('x, 's, 'b, 'k, 'w) openssl \<Rightarrow> ('w \<Rightarrow> 'a) \<Rightarrow> bool" where
  "ssl_keeps L f \<longleftrightarrow>
     (\<forall>w. f (snd (SSL_CTX_new L w)) = f w) \<and>
     (\<forall>x w. f (SSL_CTX_free L x w) = f w) \<and>
     (\<forall>w. f (snd (EC_KEY_new_by_curve_name L w)) = f w) \<and>
     (\<forall>k w. f (EC_KEY_free L k w) = f w) \<and>
     (\<forall>x w. f (snd (SSL_new L x w)) = f w) \<and>
     (\<forall>s w. f (SSL_free L s w) = f w) \<and>
     (\<forall>w. f (snd (BIO_new_mem L w)) = f w) \<and>
     (\<forall>b w. f (BIO_free L b w) = f w) \<and>
     (\<forall>s w. f (snd (SSL_get_peer_certificate L s w)) = f w) \<and>
     (\<forall>w. f (snd (c_calloc L w)) = f w) \<and>
     (\<forall>w. f (c_dealloc L w) = f w)"

definition host_keeps_all :: "('k, 'b, 'w) host \<Rightarrow> ('w \<Rightarrow> 'a) \<Rightarrow> bool" where
  "host_keeps_all H f \<longleftrightarrow> host_keeps H f \<and>
     (\<forall>fd l n v w. f (snd (sys_setsockopt H fd l n v w)) = f w) \<and>
     (\<forall>fd a n w. f (snd (sys_bind H fd a n w)) = f w) \<and>
     (\<forall>fd w. f (snd (sys_select H fd w)) = f w) \<and>
     (\<forall>w. f (sys_sigaction H w) = f w) \<and>
     (\<forall>k w. f (X509_free H k w) = f w) \<and> (\<forall>k w. f (EVP_PKEY_free H k w) = f w) \<and>
     (\<forall>a w. f (snd (BIO_new_file H a w)) = f w) \<and>
     (\<forall>b w. f (snd (PEM_read_bio_X509 H b w)) = f w) \<and>
     (\<forall>b w. f (snd (PEM_read_bio_PrivateKey H b w)) = f w)"

lemma ssl_keepsD:
  assumes "ssl_keeps L f"
  shows "f (SSL_CTX_free L x w) = f w" "f (EC_KEY_free L k w) = f w" "f (SSL_free L s w) = f w"
    "f (BIO_free L b w) = f w" "f (c_dealloc L w) = f w"
  using assms by (simp_all add: ssl_keeps_def)

lemma ssl_keeps_new:
  assumes "ssl_keeps L f"
  shows "SSL_CTX_new L w = (x, w') \<Longrightarrow> f w' = f w" "EC_KEY_new_by_curve_name L w = (k, w') \<Longrightarrow> f w' = f w"
    "SSL_new L y w = (s, w') \<Longrightarrow> f w' = f w" "BIO_new_mem L w = (b, w') \<Longrightarrow> f w' = f w"
    "SSL_get_peer_certificate L z w = (c, w') \<Longrightarrow> f w' = f w" "c_calloc L w = (ok, w') \<Longrightarrow> f w' = f w"
  using assms unfolding ssl_keeps_def by - (metis snd_conv)+

lemma host_keepsD:
  assumes "host_keeps_all H f"
  shows "host_keeps H f" "f (sys_print H t w) = f w" "f (snd (sys_setsockopt H fd l n v w)) = f w"
    "f (snd (sys_bind H fd a m w)) = f w" "f (snd (sys_select H fd w)) = f w" "f (sys_sigaction H w) = f w"
    "f (X509_free H k w) = f w" "f (EVP_PKEY_free H k w) = f w"
  using assms by (simp_all add: host_keeps_all_def host_keeps_def)

lemma host_keeps_new:
  assumes "host_keeps_all H f"
  shows "BIO_new_file H a w = (b, w') \<Longrightarrow> f w' = f w" "PEM_read_bio_X509 H fb w = (c, w') \<Longrightarrow> f w' = f w"
    "PEM_read_bio_PrivateKey H fb w = (k, w') \<Longrightarrow> f w' = f w"
  using assms unfolding host_keeps_all_def by - (metis snd_conv)+

lemma keeps_neutral:
  assumes "ssl_keeps L f" and "host_keeps_all H f"
  shows "keys_neutral L H f"
proof -
  have "f w1 = f w" if "srtp_get_key_material L s w = Done (r, w1)" for s w r w1
    using that by (cases rule: get_key_material_cases)
      (auto simp: ssl_keepsD [OF assms(1)] dest: ssl_keeps_new [OF assms(1)])
  moreover have "f (snd (key_material_free L km w)) = f w" for km w
    by (simp add: key_material_free_def ssl_keepsD [OF assms(1)])
  ultimately show ?thesis unfolding keys_neutral_def
    by (metis host_keepsD(7) [OF assms(2)] ssl_keeps_new(5) [OF assms(1)])
qed

lemma mainloop_keeps:
  assumes k: "ssl_keeps L f" "host_keeps_all H f" and ret: "mainloop L H fd cfg peer fuel w = Some (Done (r, w'))"
  shows "f w' = f w"
proof -
  obtain s w1 where new: "dtls_sess_new L (Some cfg) (Some (dsink_udp_getsink (host_sendto H)))
      (if peer = None then 1 else 0) w = Done (Some s, w1)"
    using ret by (auto simp: mainloop_def split: outcome.splits option.splits)
  obtain r1 s1 w2 where h: "dtls_do_handshake L s fd peer (getsocklen peer) w1 = Done (r1, s1, w2)"
    using ret new by (auto simp: mainloop_def split: outcome.splits)
  note i = handshake_started [OF new h host_keepsD(1) [OF k(2)]]
  from ret obtain r2 s2 w4 where run: "mainloop_run L H fd peer fuel (c_int r1) s1
        (sys_print H (''agghgh ret is '' @ show_int (c_int r1) @ [CHR 0x0A]) w2) = Some (Done (r2, s2, w4))"
      "dtls_sess_free L s2 w4 = Done w'"
    unfolding mainloop_eq [OF new h] by auto
  have "f w4 = f w1"
    using mainloop_run_inv [of L "\<lambda>_ _. True", OF _ host_keepsD(1) [OF k(2)] keeps_neutral [OF k] host_keepsD(5) [OF k(2)]
        run(1) _ i(1)] i(2) by (simp add: ssl_inv_def sess_inv_def)
  moreover have "f w1 = f w"
    using new by (cases rule: sess_new_cases) (auto dest!: ssl_keeps_new [OF k(1)])
  moreover have "f w' = f w4"
    using run(2) by (auto simp: dtls_sess_free_def ssl_keepsD [OF k(1)] split: option.splits if_splits)
  ultimately show ?thesis by simp
qed

text \<open>
  (C39) Whenever \<open>mainloop\<close> returns, it has given back everything: the session, its \<open>SSL\<close> and
  BIOs, the references to peer certificates and all key material.
\<close>

theorem mainloop_no_leak:
  assumes res: "ssl_resources L objs blocks bios" "ssl_owns L bios" "x509_counts H objs blocks"
    and host: "host_keeps H (\<lambda>v. (objs v, blocks v))"
      "\<And>fd w. (\<lambda>v. (objs v, blocks v)) (snd (sys_select H fd w)) = (objs w, blocks w)"
    and ret: "mainloop L H fd cfg peer fuel w = Some (Done (r, w'))"
  shows "objs w' = objs w \<and> blocks w' = blocks w"
  using assms by (rule mainloop_resources)

lemma toy_host_counts:
  "host_keeps toy_host (\<lambda>v. (fst v, case v of (n, b, out) \<Rightarrow> b))" "x509_counts toy_host fst (\<lambda>(n, b, out). b)"
  by (auto simp: host_keeps_def x509_counts_def toy_host_def toy_sendto_def split: prod.split if_splits)

theorem mainloop_no_leak_witness:
  "\<exists>r w'. mainloop toy_ssl toy_host 5 (0, []) None 3 (1, 0, []) = Some (Done (r, w')) \<and> fst w' = 1"
proof -
  obtain r w' where m: "mainloop toy_ssl toy_host 5 (0, []) None 3 (1, 0, []) = Some (Done (r, w'))"
    using toy_mainloop by blast
  have "(fst (snd (sys_select toy_host fd w)), case snd (sys_select toy_host fd w) of (n, b, out) \<Rightarrow> b) =
      (fst w, case w of (n, b, out) \<Rightarrow> b)" for fd w by (simp add: toy_host_def split: prod.split)
  from mainloop_no_leak [OF toy_resources toy_owns toy_host_counts(2,1) this m] m show ?thesis by simp
qed

text \<open>
  What \<open>mainloop\<close> returns to \<open>main\<close> when the signal comes before a handshake is over is not
  \<open>EXIT_FAILURE\<close> but what \<open>dtls_do_handshake\<close> returned, the number of bytes it sent.
\<close>

lemma mainloop_interrupted:
  assumes "dtls_sess_new L (Some cfg) (Some (dsink_udp_getsink (host_sendto H))) (if peer = None then 1 else 0) w =
      Done (Some s, w1)"
    and "dtls_do_handshake L s fd peer (getsocklen peer) w1 = Done (r, s1, w2)" "\<not> lock s1"
    and "sys_exitflag H (sys_print H (''agghgh ret is '' @ show_int (c_int r) @ [CHR 0x0A]) w2) \<noteq> 0"
  shows "\<exists>w'. mainloop L H fd cfg peer (Suc fuel) w = Some (Done (c_int r, w'))"
  using assms(3,4) unfolding mainloop_eq [OF assms(1,2)] by (simp add: dtls_sess_free_def)

end
