(* ===== verification/Dtls_Context.thy ===== *)
theory Dtls_Context
  imports Openssl
begin

text \<open>
  The TLS context of \<open>dtls_srtp.c\<close>: the configuration structure \<open>tlscfg\<close>, the string helpers
  of \<open>dtls_srtp.h\<close>, the trivial verify callback and \<open>dtls_ctx_init\<close>. The Makefile does not
  define \<open>HAVE_OPENSSL_ECDH_AUTO\<close>, so the branch with the explicit curve is the one modelled.
\<close>

section \<open>The code\<close>

datatype dtls_verify_mode = DTLS_VERIFY_NONE | DTLS_VERIFY_FINGERPRINT | DTLS_VERIFY_CERTIFICATE

datatype srtp_profile =
  SRTP_PROFILE_RESERVED
| SRTP_PROFILE_AES128_CM_SHA1_80
| SRTP_PROFILE_AES128_CM_SHA1_32

text \<open>A \<open>const char *\<close> is a string or null.\<close>

record 'k tlscfg =
  cert :: "'k option"
  pkey :: "'k option"
  profile :: srtp_profile
  cipherlist :: "string option"
  cafile :: "string option"
  capath :: "string option"

definition dtls_trivial_verify_callback :: "'k ssl_verify_cb" where
  "dtls_trivial_verify_callback preverify_ok ctx = 1"

definition str_isempty :: "string option \<Rightarrow> bool" where
  "str_isempty str \<longleftrightarrow> str = None \<or> str = Some []"

definition str_nullforempty :: "string option \<Rightarrow> string option" where
  "str_nullforempty str = (if str_isempty str then None else str)"

text \<open>
  The two steps of \<open>dtls_ctx_init\<close> that may fail over the certificate and over the strings:
  \<open>False\<close> is the path to \<open>SSL_CTX_free (ctx); return NULL\<close>.
\<close>

definition ctx_use_cert ::
  "('x, 's, 'b, 'k, 'w) openssl \<Rightarrow> 'k tlscfg \<Rightarrow> 'x \<Rightarrow> bool \<times> 'x" where
  "ctx_use_cert L cfg x =
     (case cert cfg of None \<Rightarrow> (True, x)
      | Some c \<Rightarrow>
          (case SSL_CTX_use_certificate L x c of (r1, x1) \<Rightarrow>
           if r1 = 0 then (False, x1)
           else case SSL_CTX_use_PrivateKey L x1 (pkey cfg) of (r2, x2) \<Rightarrow>
             (r2 \<noteq> 0 \<and> SSL_CTX_check_private_key L x2 \<noteq> 0, x2)))"

definition ctx_use_lists ::
  "('x, 's, 'b, 'k, 'w) openssl \<Rightarrow> 'k tlscfg \<Rightarrow> 'x \<Rightarrow> bool \<times> 'x" where
  "ctx_use_lists L cfg x =
     (case (if str_isempty (cipherlist cfg) then (1, x)
            else SSL_CTX_set_cipher_list L x (the (cipherlist cfg))) of (r1, x1) \<Rightarrow>
      if r1 = 0 then (False, x1)
      else if str_isempty (cafile cfg) \<and> str_isempty (capath cfg) then (True, x1)
      else case SSL_CTX_load_verify_locations L x1 (str_nullforempty (cafile cfg))
             (str_nullforempty (capath cfg)) of (r2, x2) \<Rightarrow> (r2 \<noteq> 0, x2))"

text \<open>The code does not check what \<open>SSL_CTX_new\<close> returns; \<open>verify_mode\<close> and \<open>cb\<close> are not used.\<close>

definition dtls_ctx_init ::
  "('x, 's, 'b, 'k, 'w) openssl \<Rightarrow> int \<Rightarrow> 'k ssl_verify_cb option \<Rightarrow> 'k tlscfg \<Rightarrow> 'w \<Rightarrow>
   ('x option \<times> 'w) outcome" where
  "dtls_ctx_init L verify_mode cb cfg w =
     (case SSL_CTX_new L w of (None, w1) \<Rightarrow> Undefined
      | (Some x0, w1) \<Rightarrow>
      let x1 = SSL_CTX_set_read_ahead L x0 True in
      case (case EC_KEY_new_by_curve_name L w1 of
              (Some k, w2) \<Rightarrow> (SSL_CTX_set_tmp_ecdh L x1 k, EC_KEY_free L k w2)
            | (None, w2) \<Rightarrow> (x1, w2)) of (x2, w3) \<Rightarrow>
      let x3 = SSL_CTX_set_verify L x2 SSL_VERIFY_NONE None in
      case (case profile cfg of
              SRTP_PROFILE_AES128_CM_SHA1_80 \<Rightarrow>
                (True, SSL_CTX_set_tlsext_use_srtp L x3 ''SRTP_AES128_CM_SHA1_80'')
            | SRTP_PROFILE_AES128_CM_SHA1_32 \<Rightarrow>
                (True, SSL_CTX_set_tlsext_use_srtp L x3 ''SRTP_AES128_CM_SHA1_32'')
            | _ \<Rightarrow> (False, x3)) of (ok1, x4) \<Rightarrow>
      if \<not> ok1 then Done (None, SSL_CTX_free L x4 w3)
      else case ctx_use_cert L cfg x4 of (ok2, x5) \<Rightarrow>
      if \<not> ok2 then Done (None, SSL_CTX_free L x5 w3)
      else case ctx_use_lists L cfg x5 of (ok3, x6) \<Rightarrow>
      if \<not> ok3 then Done (None, SSL_CTX_free L x6 w3)
      else Done (Some x6, w3))"

section \<open>Properties\<close>

lemma ctx_use_cert_verify:
  assumes "ctx_verify L mode" and "ctx_use_cert L cfg x = (ok, x')"
  shows "mode x' = mode x"
  using assms unfolding ctx_use_cert_def ctx_verify_def
  by (auto split: option.splits prod.splits if_splits) (metis snd_conv)+

lemma ctx_use_lists_verify:
  assumes "ctx_verify L mode" and "ctx_use_lists L cfg x = (ok, x')"
  shows "mode x' = mode x"
  using assms unfolding ctx_use_lists_def ctx_verify_def
  by (auto split: prod.splits if_splits) (metis snd_conv)+

text \<open>
  \<open>dtls_ctx_init\<close> never asks for the peer's certificate: whatever verification mode and
  callback the caller passes, every context it returns has \<open>SSL_VERIFY_NONE\<close>. (The header
  promises that the mode and the callback are applied.)
\<close>

theorem dtls_ctx_init_never_verifies:
  assumes v: "ctx_verify L mode" and r: "dtls_ctx_init L verify_mode cb cfg w = Done (Some x, w')"
  shows "mode x = SSL_VERIFY_NONE"
proof -
  have base: "mode (SSL_CTX_set_verify L y SSL_VERIFY_NONE None) = SSL_VERIFY_NONE"
      "mode (SSL_CTX_set_tlsext_use_srtp L y p) = mode y" for y p
    using v by (simp_all add: ctx_verify_def)
  from r show ?thesis
    unfolding dtls_ctx_init_def Let_def
    by (auto split: prod.splits option.splits srtp_profile.splits if_splits
        simp: base dest!: ctx_use_cert_verify [OF v] ctx_use_lists_verify [OF v])
qed

definition toy_cfg :: "nat tlscfg" where
  "toy_cfg = \<lparr>cert = Some 3, pkey = Some 4, profile = SRTP_PROFILE_AES128_CM_SHA1_80,
     cipherlist = Some ''HIGH'', cafile = None, capath = Some []\<rparr>"

lemma toy_ctx_init:
  "dtls_ctx_init toy_ssl 1 None toy_cfg (0, 0, []) =
     Done (Some (0, ''SRTP_AES128_CM_SHA1_80''), (1, 0, []))"
  by (simp add: dtls_ctx_init_def toy_ssl_def toy_cfg_def ctx_use_cert_def ctx_use_lists_def
      str_isempty_def SSL_VERIFY_NONE_def)

theorem dtls_ctx_init_never_verifies_witness:
  "\<exists>x w'. dtls_ctx_init toy_ssl 1 None toy_cfg (0, 0, []) = Done (Some x, w') \<and> fst x = SSL_VERIFY_NONE"
  using dtls_ctx_init_never_verifies [OF toy_verify toy_ctx_init] toy_ctx_init by blast

lemma ctx_init_resources:
  assumes res: "ssl_resources L objs blocks bios"
    and init: "dtls_ctx_init L verify_mode cb cfg w = Done (r, w')"
  shows "objs w' = objs w + (if r = None then 0 else 1) \<and> blocks w' = blocks w"
proof -
  from init show ?thesis
    unfolding dtls_ctx_init_def Let_def
    by (auto split: prod.splits option.splits if_splits simp: ssl_resources_free [OF res]
        dest!: ssl_resources_new [OF res])
qed

text \<open>
  Every failing path of \<open>dtls_ctx_init\<close> frees the context it made and the temporary curve
  key; a context that is returned is the only object left behind.
\<close>

theorem dtls_ctx_init_no_leak:
  assumes res: "ssl_resources L objs blocks bios"
    and init: "dtls_ctx_init L verify_mode cb cfg w = Done (r, w')"
  shows "objs w' = objs w + (if r = None then 0 else 1) \<and> blocks w' = blocks w"
  using assms by (rule ctx_init_resources)

theorem dtls_ctx_init_no_leak_witness:
  "\<exists>w'. dtls_ctx_init toy_ssl 1 None (toy_cfg\<lparr>pkey := None\<rparr>) (0, 0, []) = Done (None, w') \<and> fst w' = 0"
proof -
  have r: "dtls_ctx_init toy_ssl 1 None (toy_cfg\<lparr>pkey := None\<rparr>) (0, 0, []) = Done (None, (0, 0, []))"
    by (simp add: dtls_ctx_init_def toy_ssl_def toy_cfg_def ctx_use_cert_def)
  from dtls_ctx_init_no_leak [OF toy_resources r] r show ?thesis by simp
qed

end
