(* ===== verification/Example_Main.thy ===== *)
theory Example_Main
  imports Example_Loop Dtls_Context
begin

text \<open>
  \<open>main\<close> of \<open>example.c\<close>: options, certificate and key, context, addresses, the main loop, and
  the release of everything. The options are what successive calls of \<open>getopt\<close> return with their
  arguments, \<open>rest\<close> the arguments of the command line behind them. \<open>stack\<close> is what the
  uninitialised address variables hold.
\<close>

section \<open>The code\<close>

text \<open>\<open>atoi\<close>; a value outside \<open>int\<close> is undefined.\<close>

definition c_isspace :: "char \<Rightarrow> bool" where
  "c_isspace c \<longleftrightarrow> c = CHR '' '' \<or> (of_char c :: nat) \<in> {9..13}"

definition c_isdigit :: "char \<Rightarrow> bool" where
  "c_isdigit c \<longleftrightarrow> (of_char c :: nat) \<in> {48..57}"

definition c_atoi :: "string \<Rightarrow> int outcome" where
  "c_atoi str =
     (let s1 = dropWhile c_isspace str;
          neg = (s1 \<noteq> [] \<and> hd s1 = CHR ''-'');
          s2 = (if neg \<or> s1 \<noteq> [] \<and> hd s1 = CHR ''+'' then tl s1 else s1);
          v = foldl (\<lambda>n c. 10 * n + (of_char c - 48)) 0 (takeWhile c_isdigit s2);
          i = (if neg then - v else v)
      in if - (2 ^ 31) \<le> i \<and> i < 2 ^ 31 then Done i else Undefined)"

record main_args =
  bindaddr :: "string option"
  certfile :: "string option"
  pkeyfile :: "string option"
  server :: bool
  lport :: u16

text \<open>The loop over the options; \<open>None\<close> is the path to the usage message.\<close>

fun main_options :: "(char \<times> string) list \<Rightarrow> main_args \<Rightarrow> main_args option outcome" where
  "main_options [] a = Done (Some a)"
| "main_options ((opt, optarg) # os) a =
     (if opt = CHR ''b'' then main_options os (a\<lparr>bindaddr := Some optarg\<rparr>)
      else if opt = CHR ''c'' then main_options os (a\<lparr>certfile := Some optarg\<rparr>)
      else if opt = CHR ''k'' then main_options os (a\<lparr>pkeyfile := Some optarg\<rparr>)
      else if opt = CHR ''s'' then main_options os (a\<lparr>server := True\<rparr>)
      else if opt = CHR ''p'' then obind (c_atoi optarg) (\<lambda>i. main_options os (a\<lparr>lport := word_of_int i\<rparr>))
      else Done None)"

definition cipherlist_default :: string where
  "cipherlist_default =
     ''ECDHE-RSA-AES128-GCM-SHA256:'' @ ''ECDHE-ECDSA-AES128-GCM-SHA256:'' @
     ''ECDHE-RSA-AES256-GCM-SHA384:'' @ ''ECDHE-ECDSA-AES256-GCM-SHA384:'' @
     ''DHE-RSA-AES128-GCM-SHA256:'' @ ''kEDH+AESGCM:'' @ ''ECDHE-RSA-AES128-SHA256:'' @
     ''ECDHE-ECDSA-AES128-SHA256:'' @ ''ECDHE-RSA-AES128-SHA:'' @ ''ECDHE-ECDSA-AES128-SHA:'' @
     ''ECDHE-RSA-AES256-SHA384:'' @ ''ECDHE-ECDSA-AES256-SHA384:'' @ ''ECDHE-RSA-AES256-SHA:'' @
     ''ECDHE-ECDSA-AES256-SHA:'' @ ''DHE-RSA-AES128-SHA256:'' @ ''DHE-RSA-AES128-SHA:'' @
     ''DHE-RSA-AES256-SHA256:'' @ ''DHE-RSA-AES256-SHA:'' @
     ''!aNULL:!eNULL:!EXPORT:!DSS:!DES:!RC4:!3DES:!MD5:!PSK''"

definition dtls_init_openssl :: "('k, 'b, 'w) host \<Rightarrow> 'w \<Rightarrow> int \<times> 'w" where
  "dtls_init_openssl H w = SSL_library_init H (SSL_load_error_strings H (OpenSSL_add_ssl_algorithms H w))"

definition dtls_uninit_openssl :: "('k, 'b, 'w) host \<Rightarrow> 'w \<Rightarrow> 'w" where
  "dtls_uninit_openssl H w = EVP_cleanup H (ERR_free_strings H w)"

text \<open>\<open>BIO_free\<close> of null does nothing.\<close>

definition free_file :: "('x, 's, 'b, 'k, 'w) openssl \<Rightarrow> 'b option \<Rightarrow> 'w \<Rightarrow> 'w" where
  "free_file L fb w = (case fb of None \<Rightarrow> w | Some b \<Rightarrow> BIO_free L b w)"

text \<open>Reading certificate and key: both fields of the configuration, and whether to go on.\<close>

definition main_load ::
  "('x, 's, 'b, 'k, 'w) openssl \<Rightarrow> ('k, 'b, 'w) host \<Rightarrow> string \<Rightarrow> string \<Rightarrow> 'w \<Rightarrow>
   (bool \<times> 'k option \<times> 'k option \<times> 'w) outcome" where
  "main_load L H certf pkeyf w =
     (case BIO_new_file H certf w of (fb, w1) \<Rightarrow>
      case PEM_read_bio_X509 H fb w1 of (None, w2) \<Rightarrow> Done (False, None, None, free_file L fb w2)
      | (Some crt, w2) \<Rightarrow>
      obind (fprintfinger (fputs_result H) ''Fingerprint of local cert is '' (X509_digest H crt)) (\<lambda>(n, t).
      let w3 = free_file L fb (sys_print H t w2) in
      case BIO_new_file H pkeyf w3 of (fb2, w4) \<Rightarrow>
      case PEM_read_bio_PrivateKey H fb2 w4 of (key, w5) \<Rightarrow>
        Done (key \<noteq> None, Some crt, key, free_file L fb2 w5)))"

text \<open>From the context to the end of the main loop: \<open>ret\<close>, the process, with the context owned.\<close>

definition main_serve ::
  "('x, 's, 'b, 'k, 'w) openssl \<Rightarrow> ('k, 'b, 'w) host \<Rightarrow> main_args \<Rightarrow> string option \<Rightarrow> u16 \<Rightarrow>
   uaddr \<times> uaddr \<Rightarrow> nat \<Rightarrow> 'x \<Rightarrow> 'w \<Rightarrow> (int \<times> 'w) outcome option" where
  "main_serve L H a peeraddr port stack fuel sslcfg w =
     (case makesockaddr (inet_pton H) (bindaddr a) (lport a) (fst stack) of (ok1, laddr) \<Rightarrow>
      if \<not> ok1 then Some (Done (EXIT_FAILURE, w))
      else if \<not> server a \<and> (peeraddr = None \<or> port = 0) then Some (Done (EXIT_FAILURE, w))
      else case (if server a then (True, snd stack) else makesockaddr (inet_pton H) peeraddr port (snd stack)) of
        (ok2, raddr) \<Rightarrow>
      if \<not> ok2 then Some (Done (EXIT_FAILURE, w))
      else case prepare_udp_socket H laddr w of (fd, w1) \<Rightarrow>
        map_option (\<lambda>out. obind out (\<lambda>(ret, w2). Done (ret, sys_close H fd w2)))
          (mainloop L H fd sslcfg (if server a then None else Some raddr) fuel w1))"

definition main_body ::
  "('x, 's, 'b, 'k, 'w) openssl \<Rightarrow> ('k, 'b, 'w) host \<Rightarrow> main_args \<Rightarrow> string option \<Rightarrow> u16 \<Rightarrow>
   uaddr \<times> uaddr \<Rightarrow> nat \<Rightarrow> 'w \<Rightarrow> (int \<times> 'x option \<times> 'k option \<times> 'k option \<times> 'w) outcome option" where
  "main_body L H a peeraddr port stack fuel w =
     (if certfile a = None \<or> pkeyfile a = None then Some (Done (EXIT_FAILURE, None, None, None, w))
      else case main_load L H (the (certfile a)) (the (pkeyfile a)) w of
        Undefined \<Rightarrow> Some Undefined | Aborted \<Rightarrow> Some Aborted
      | Done (ok, crt, key, w1) \<Rightarrow>
      if \<not> ok then Some (Done (EXIT_FAILURE, None, crt, key, w1))
      else case dtls_ctx_init L 1 None
             \<lparr>cert = crt, pkey = key, profile = SRTP_PROFILE_AES128_CM_SHA1_80,
              cipherlist = Some cipherlist_default, cafile = None, capath = None\<rparr> w1 of
        Undefined \<Rightarrow> Some Undefined | Aborted \<Rightarrow> Some Aborted
      | Done (None, w2) \<Rightarrow> Some (Done (EXIT_FAILURE, None, crt, key, w2))
      | Done (Some sslcfg, w2) \<Rightarrow>
          map_option (\<lambda>out. obind out (\<lambda>(ret, w3). Done (ret, Some sslcfg, crt, key, w3)))
            (main_serve L H a peeraddr port stack fuel sslcfg w2))"

definition main_cleanup ::
  "('x, 's, 'b, 'k, 'w) openssl \<Rightarrow> ('k, 'b, 'w) host \<Rightarrow> 'x option \<Rightarrow> 'k option \<Rightarrow> 'k option \<Rightarrow> 'w \<Rightarrow> 'w" where
  "main_cleanup L H sslcfg crt key w =
     (let w1 = (case sslcfg of None \<Rightarrow> w | Some x \<Rightarrow> SSL_CTX_free L x w);
          w2 = (case crt of None \<Rightarrow> w1 | Some c \<Rightarrow> X509_free H c w1)
      in case key of None \<Rightarrow> w2 | Some k \<Rightarrow> EVP_PKEY_free H k w2)"

text \<open>
  Reading \<open>argv[optind + 1]\<close> when \<open>argv[optind]\<close> is already the null pointer at the end of
  \<open>argv\<close> is a read behind the array.
\<close>

definition example_main ::
  "('x, 's, 'b, 'k, 'w) openssl \<Rightarrow> ('k, 'b, 'w) host \<Rightarrow> int \<Rightarrow> (char \<times> string) list \<Rightarrow> string list \<Rightarrow>
   uaddr \<times> uaddr \<Rightarrow> nat \<Rightarrow> 'w \<Rightarrow> (int \<times> 'w) outcome option" where
  "example_main L H argc opts rest stack fuel w =
     (case dtls_init_openssl H w of (ok, w1) \<Rightarrow>
      if ok = 0 then Some (Done (EXIT_FAILURE, w1))
      else if argc \<le> 1 then Some (Done (EXIT_FAILURE, w1))
      else case main_options opts \<lparr>bindaddr = None, certfile = None, pkeyfile = None, server = False, lport = 0\<rparr> of
        Undefined \<Rightarrow> Some Undefined | Aborted \<Rightarrow> Some Aborted
      | Done None \<Rightarrow> Some (Done (EXIT_FAILURE, w1))
      | Done (Some a) \<Rightarrow>
      if rest = [] then Some Undefined
      else case (if length rest < 2 then Done 0 else c_atoi (rest ! 1)) of
        Undefined \<Rightarrow> Some Undefined | Aborted \<Rightarrow> Some Aborted
      | Done port \<Rightarrow>
      let w2 = sys_print H (''----------'' @ [CHR 0x0A] @ cipherlist_default @ [CHR 0x0A, CHR 0x0A]) (sys_sigaction H w1) in
      map_option (\<lambda>out. obind out (\<lambda>(ret, sslcfg, crt, key, w3).
          Done (ret, dtls_uninit_openssl H (main_cleanup L H sslcfg crt key w3))))
        (main_body L H a (Some (hd rest)) (word_of_int port) stack fuel w2))"

section \<open>Properties\<close>

text \<open>
  What the functions of the host that \<open>main\<close> uses take and give back of library objects and memory
  blocks; the others take nothing. Sockets and the tables that initialisation loads are counted below.
\<close>

definition host_resources :: "('k, 'b, 'w) host \<Rightarrow> ('w \<Rightarrow> int) \<Rightarrow> ('w \<Rightarrow> int) \<Rightarrow> bool" where
  "host_resources H objs blocks \<longleftrightarrow> x509_counts H objs blocks \<and> host_keeps H (\<lambda>v. (objs v, blocks v)) \<and>
     (\<forall>k w. objs (EVP_PKEY_free H k w) = objs w - 1 \<and> blocks (EVP_PKEY_free H k w) = blocks w) \<and>
     (\<forall>f w r w'. BIO_new_file H f w = (r, w') \<longrightarrow> objs w' = objs w + (if r = None then 0 else 1) \<and> blocks w' = blocks w) \<and>
     (\<forall>f w r w'. PEM_read_bio_X509 H f w = (r, w') \<longrightarrow>
        objs w' = objs w + (if r = None then 0 else 1) \<and> blocks w' = blocks w) \<and>
     (\<forall>f w r w'. PEM_read_bio_PrivateKey H f w = (r, w') \<longrightarrow>
        objs w' = objs w + (if r = None then 0 else 1) \<and> blocks w' = blocks w) \<and>
     (\<forall>fam w. objs (snd (sys_socket H fam w)) = objs w \<and> blocks (snd (sys_socket H fam w)) = blocks w) \<and>
     (\<forall>fd l n v w. objs (snd (sys_setsockopt H fd l n v w)) = objs w \<and>
        blocks (snd (sys_setsockopt H fd l n v w)) = blocks w) \<and>
     (\<forall>fd a n w. objs (snd (sys_bind H fd a n w)) = objs w \<and> blocks (snd (sys_bind H fd a n w)) = blocks w) \<and>
     (\<forall>fd w. objs (snd (sys_select H fd w)) = objs w \<and> blocks (snd (sys_select H fd w)) = blocks w) \<and>
     (\<forall>fd w. objs (sys_close H fd w) = objs w \<and> blocks (sys_close H fd w) = blocks w) \<and>
     (\<forall>w. objs (sys_sigaction H w) = objs w \<and> blocks (sys_sigaction H w) = blocks w) \<and>
     (\<forall>w. objs (snd (dtls_init_openssl H w)) = objs w \<and> blocks (snd (dtls_init_openssl H w)) = blocks w) \<and>
     (\<forall>w. objs (dtls_uninit_openssl H w) = objs w \<and> blocks (dtls_uninit_openssl H w) = blocks w)"

lemma host_resourcesD:
  assumes "host_resources H objs blocks"
  shows "x509_counts H objs blocks" "host_keeps H (\<lambda>v. (objs v, blocks v))"
    "objs (EVP_PKEY_free H k w) = objs w - 1" "blocks (EVP_PKEY_free H k w) = blocks w"
    "objs (X509_free H k w) = objs w - 1" "blocks (X509_free H k w) = blocks w"
    "objs (sys_print H t w) = objs w" "blocks (sys_print H t w) = blocks w"
    "objs (snd (sys_select H fd w)) = objs w" "blocks (snd (sys_select H fd w)) = blocks w"
    "objs (sys_close H fd w) = objs w" "blocks (sys_close H fd w) = blocks w"
    "objs (sys_sigaction H w) = objs w" "blocks (sys_sigaction H w) = blocks w"
    "objs (dtls_uninit_openssl H w) = objs w" "blocks (dtls_uninit_openssl H w) = blocks w"
  using assms by (auto simp: host_resources_def x509_counts_def host_keeps_def)

lemma host_resources_new:
  assumes "host_resources H objs blocks"
  shows "BIO_new_file H f w = (r, w') \<Longrightarrow> objs w' = objs w + (if r = None then 0 else 1) \<and> blocks w' = blocks w"
    "PEM_read_bio_X509 H b w = (c, w') \<Longrightarrow> objs w' = objs w + (if c = None then 0 else 1) \<and> blocks w' = blocks w"
    "PEM_read_bio_PrivateKey H b w = (k, w') \<Longrightarrow> objs w' = objs w + (if k = None then 0 else 1) \<and> blocks w' = blocks w"
    "dtls_init_openssl H w = (i, w') \<Longrightarrow> objs w' = objs w \<and> blocks w' = blocks w"
proof -
  show "dtls_init_openssl H w = (i, w') \<Longrightarrow> objs w' = objs w \<and> blocks w' = blocks w"
    using assms unfolding host_resources_def by (metis snd_conv)
qed (use assms in \<open>simp_all add: host_resources_def\<close>)

lemma free_file_resources:
  assumes "ssl_resources L objs blocks bios"
  shows "objs (free_file L fb w) = objs w - (if fb = None then 0 else 1)" "blocks (free_file L fb w) = blocks w"
  by (simp_all add: free_file_def ssl_resources_free [OF assms] split: option.split)

lemma main_load_resources:
  assumes res: "ssl_resources L objs blocks bios" and host: "host_resources H objs blocks"
    and load: "main_load L H cf kf w = Done (ok, crt, key, w')"
  shows "objs w' = objs w + (if crt = None then 0 else 1) + (if key = None then 0 else 1) \<and> blocks w' = blocks w \<and>
    ok = (key \<noteq> None)"
proof -
  obtain fb w1 c w2 where 1: "BIO_new_file H cf w = (fb, w1)" "PEM_read_bio_X509 H fb w1 = (c, w2)" by fastforce
  note n1 = host_resources_new(1) [OF host 1(1)] host_resources_new(2) [OF host 1(2)]
  show ?thesis
  proof (cases c)
    case None
    then show ?thesis using load 1 n1 by (auto simp: main_load_def free_file_resources [OF res])
  next
    case (Some x)
    obtain n t where t: "fprintfinger (fputs_result H) ''Fingerprint of local cert is '' (X509_digest H x) = Done (n, t)"
      using fprintfinger_returns by blast
    obtain fb2 w4 where 2: "BIO_new_file H kf (free_file L fb (sys_print H t w2)) = (fb2, w4)" by fastforce
    obtain k w5 where 3: "PEM_read_bio_PrivateKey H fb2 w4 = (k, w5)" by fastforce
    note n2 = host_resources_new(1) [OF host 2] host_resources_new(3) [OF host 3]
    from load 1 Some t 2 3 have "ok = (k \<noteq> None)" "crt = Some x" "key = k" "w' = free_file L fb2 w5"
      by (auto simp: main_load_def)
    then show ?thesis using n1 n2 Some
      by (simp add: free_file_resources [OF res] host_resourcesD [OF host])
  qed
qed

lemma prepare_udp_socket_resources:
  assumes "host_resources H objs blocks" and "prepare_udp_socket H addr w = (fd, w')"
  shows "objs w' = objs w \<and> blocks w' = blocks w"
proof -
  have k: "objs w2 = objs w1 \<and> blocks w2 = blocks w1" if "sys_socket H fam w1 = (fd1, w2)" for fam w1 fd1 w2
    using assms(1) that unfolding host_resources_def by (metis snd_conv)
  have m: "objs (snd (sys_setsockopt H fd l n v u)) = objs u" "blocks (snd (sys_setsockopt H fd l n v u)) = blocks u"
    "objs (snd (sys_bind H fd a m u)) = objs u" "blocks (snd (sys_bind H fd a m u)) = blocks u" for fd l n v u a m
    using assms(1) by (simp_all add: host_resources_def)
  from assms(2) show ?thesis
    by (auto simp: prepare_udp_socket_def Let_def m split: prod.splits if_splits dest: k)
qed

lemma main_serve_resources:
  assumes res: "ssl_resources L objs blocks bios" "ssl_owns L bios" and host: "host_resources H objs blocks"
    and serve: "main_serve L H a peer port stack fuel x w = Some (Done (r, w'))"
  shows "objs w' = objs w \<and> blocks w' = blocks w"
proof (cases "w' = w")
  case False
  obtain laddr raddr fd w1 where 1: "prepare_udp_socket H laddr w = (fd, w1)"
    "map_option (\<lambda>out. obind out (\<lambda>(ret, w2). Done (ret, sys_close H fd w2)))
       (mainloop L H fd x (if server a then None else Some raddr) fuel w1) = Some (Done (r, w'))"
    using serve False unfolding main_serve_def by (auto split: prod.splits if_splits)
  then obtain w2 where 2: "mainloop L H fd x (if server a then None else Some raddr) fuel w1 = Some (Done (r, w2))"
      "w' = sys_close H fd w2"
    by auto
  have "objs w2 = objs w1 \<and> blocks w2 = blocks w1"
    using host_resourcesD(9,10) [OF host]
    by (intro mainloop_resources [OF res host_resourcesD(1,2) [OF host] _ 2(1)]) simp
  then show ?thesis using prepare_udp_socket_resources [OF host 1(1)] 2(2) by (simp add: host_resourcesD [OF host])
qed simp

lemma main_body_resources:
  assumes res: "ssl_resources L objs blocks bios" "ssl_owns L bios" and host: "host_resources H objs blocks"
    and body: "main_body L H a peer port stack fuel w = Some (Done (r, x, crt, key, w'))"
  shows "objs w' = objs w + (if x = None then 0 else 1) + (if crt = None then 0 else 1) + (if key = None then 0 else 1) \<and>
    blocks w' = blocks w"
proof (cases "certfile a = None \<or> pkeyfile a = None")
  case True
  then show ?thesis using body by (auto simp: main_body_def)
next
  case False
  then obtain ok c k w1 where 1: "main_load L H (the (certfile a)) (the (pkeyfile a)) w = Done (ok, c, k, w1)"
    using body by (auto simp: main_body_def split: outcome.splits)
  note l = main_load_resources [OF res(1) host 1]
  show ?thesis
  proof (cases ok)
    case no: False
    then show ?thesis using body False 1 l by (auto simp: main_body_def)
  next
    case True
    obtain y w2 where 2: "dtls_ctx_init L 1 None \<lparr>cert = c, pkey = k, profile = SRTP_PROFILE_AES128_CM_SHA1_80,
        cipherlist = Some cipherlist_default, cafile = None, capath = None\<rparr> w1 = Done (y, w2)"
      using body False 1 True by (auto simp: main_body_def split: outcome.splits)
    note c = ctx_init_resources [OF res(1) 2]
    show ?thesis
    proof (cases y)
      case None
      then show ?thesis using body False 1 True 2 l c by (auto simp: main_body_def)
    next
      case (Some z)
      then have "main_serve L H a peer port stack fuel z w2 = Some (Done (r, w'))" "x = Some z" "crt = c" "key = k"
        using body False 1 True 2 by (auto simp: main_body_def)
      then show ?thesis using main_serve_resources [OF res host] l c Some by fastforce
    qed
  qed
qed

text \<open>
  Sockets and tables. \<open>fds\<close> are the open descriptors: \<open>socket\<close> opens a new one or fails, \<open>close\<close>
  closes one. \<open>tables\<close> says whether the error strings and whether the algorithms of OpenSSL are
  loaded: \<open>ERR_free_strings\<close> and \<open>EVP_cleanup\<close> remove all that was loaded before. Nothing else
  touches them.
\<close>

definition host_process ::
  "('x, 's, 'b, 'k, 'w) openssl \<Rightarrow> ('k, 'b, 'w) host \<Rightarrow> ('w \<Rightarrow> int set) \<Rightarrow> ('w \<Rightarrow> bool \<times> bool) \<Rightarrow> bool" where
  "host_process L H fds tables \<longleftrightarrow>
     ssl_keeps L (\<lambda>v. (fds v, tables v)) \<and> host_keeps_all H (\<lambda>v. (fds v, tables v)) \<and>
     (\<forall>fam w fd w'. sys_socket H fam w = (fd, w') \<longrightarrow> tables w' = tables w \<and>
        (if fd < 0 then fds w' = fds w else fd \<notin> fds w \<and> fds w' = insert fd (fds w))) \<and>
     (\<forall>fd w. tables (sys_close H fd w) = tables w \<and>
        fds (sys_close H fd w) = (if fd < 0 then fds w else fds w - {fd})) \<and>
     (\<forall>w. fds (OpenSSL_add_ssl_algorithms H w) = fds w \<and>
        tables (OpenSSL_add_ssl_algorithms H w) = (fst (tables w), True)) \<and>
     (\<forall>w. fds (SSL_load_error_strings H w) = fds w \<and>
        tables (SSL_load_error_strings H w) = (True, snd (tables w))) \<and>
     (\<forall>w. fds (snd (SSL_library_init H w)) = fds w \<and>
        tables (snd (SSL_library_init H w)) = (fst (tables w), True)) \<and>
     (\<forall>w. fds (ERR_free_strings H w) = fds w \<and> tables (ERR_free_strings H w) = (False, snd (tables w))) \<and>
     (\<forall>w. fds (EVP_cleanup H w) = fds w \<and> tables (EVP_cleanup H w) = (fst (tables w), False))"

lemma host_process_keeps:
  assumes "host_process L H fds tables"
  shows "ssl_keeps L (\<lambda>v. (fds v, tables v))" "host_keeps_all H (\<lambda>v. (fds v, tables v))"
  using assms by (simp_all add: host_process_def)

lemma init_uninit:
  assumes "host_process L H fds tables"
  shows "dtls_init_openssl H w = (ok, w') \<Longrightarrow> fds w' = fds w \<and> tables w' = (True, True)"
    "fds (dtls_uninit_openssl H w) = fds w" "tables (dtls_uninit_openssl H w) = (False, False)"
proof -
  let ?w = "SSL_load_error_strings H (OpenSSL_add_ssl_algorithms H w)"
  show "dtls_init_openssl H w = (ok, w') \<Longrightarrow> fds w' = fds w \<and> tables w' = (True, True)"
    using assms unfolding dtls_init_openssl_def host_process_def
    by (cases "SSL_library_init H ?w") (metis fst_conv snd_conv)
qed (use assms in \<open>simp_all add: host_process_def dtls_uninit_openssl_def\<close>)

lemma main_load_keeps:
  assumes k: "ssl_keeps L f" "host_keeps_all H f" and load: "main_load L H cf kf w = Done (ok, crt, key, w')"
  shows "f w' = f w"
proof -
  have ff: "f (free_file L fb v) = f v" for fb v
    by (simp add: free_file_def ssl_keepsD [OF k(1)] split: option.split)
  show ?thesis using load unfolding main_load_def
    by (auto simp: ff host_keepsD [OF k(2)] dest!: host_keeps_new [OF k(2)] split: prod.splits option.splits)
qed

lemma ctx_init_keeps:
  assumes k: "ssl_keeps L f" and init: "dtls_ctx_init L verify_mode cb cfg w = Done (r, w')"
  shows "f w' = f w"
  using init unfolding dtls_ctx_init_def Let_def
  by (auto split: prod.splits option.splits if_splits simp: ssl_keepsD [OF k] dest!: ssl_keeps_new [OF k])

lemma prepare_udp_socket_fds:
  assumes host: "host_process L H fds tables" and sock: "prepare_udp_socket H addr w = (fd, w')"
  shows "tables w' = tables w" "if fd < 0 then fds w' = fds w else fd \<notin> fds w \<and> fds w' = insert fd (fds w)"
proof -
  obtain fd1 w1 where 1: "sys_socket H (ss_family addr) w = (fd1, w1)" by fastforce
  have s: "tables w1 = tables w \<and> (if fd1 < 0 then fds w1 = fds w else fd1 \<notin> fds w \<and> fds w1 = insert fd1 (fds w))"
    using host 1 unfolding host_process_def by blast
  have "fd = fd1 \<and> (fds w', tables w') = (fds w1, tables w1)"
    using sock 1 host_keepsD(3,4) [OF host_process_keeps(2) [OF host]]
    by (auto simp: prepare_udp_socket_def Let_def split: if_splits)
  then show "tables w' = tables w" "if fd < 0 then fds w' = fds w else fd \<notin> fds w \<and> fds w' = insert fd (fds w)"
    using s by auto
qed

lemma main_serve_fds:
  assumes host: "host_process L H fds tables" and serve: "main_serve L H a peer port stack fuel x w = Some (Done (r, w'))"
  shows "fds w' = fds w \<and> tables w' = tables w"
proof (cases "w' = w")
  case False
  obtain laddr raddr fd w1 where 1: "prepare_udp_socket H laddr w = (fd, w1)"
    "map_option (\<lambda>out. obind out (\<lambda>(ret, w2). Done (ret, sys_close H fd w2)))
       (mainloop L H fd x (if server a then None else Some raddr) fuel w1) = Some (Done (r, w'))"
    using serve False unfolding main_serve_def by (auto split: prod.splits if_splits)
  then obtain w2 where 2: "mainloop L H fd x (if server a then None else Some raddr) fuel w1 = Some (Done (r, w2))"
      "w' = sys_close H fd w2"
    by auto
  have "fds w2 = fds w1" "tables w2 = tables w1"
    using mainloop_keeps [OF host_process_keeps [OF host] 2(1)] by simp_all
  moreover have "tables w' = tables w2" "fds w' = (if fd < 0 then fds w2 else fds w2 - {fd})"
    using host unfolding host_process_def 2(2) by blast+
  ultimately show ?thesis using prepare_udp_socket_fds [OF host 1(1)] by (auto split: if_splits)
qed simp

lemma main_body_fds:
  assumes host: "host_process L H fds tables"
    and body: "main_body L H a peer port stack fuel w = Some (Done (r, x, crt, key, w'))"
  shows "fds w' = fds w \<and> tables w' = tables w"
proof (cases "certfile a = None \<or> pkeyfile a = None")
  case True
  then show ?thesis using body by (auto simp: main_body_def)
next
  case False
  note k = host_process_keeps [OF host]
  obtain ok c ky w1 where 1: "main_load L H (the (certfile a)) (the (pkeyfile a)) w = Done (ok, c, ky, w1)"
    using False body by (auto simp: main_body_def split: outcome.splits)
  have l: "fds w1 = fds w" "tables w1 = tables w" using main_load_keeps [OF k 1] by simp_all
  show ?thesis
  proof (cases ok)
    case no: False
    then show ?thesis using body False 1 l by (auto simp: main_body_def)
  next
    case True
    obtain y w2 where 2: "dtls_ctx_init L 1 None \<lparr>cert = c, pkey = ky, profile = SRTP_PROFILE_AES128_CM_SHA1_80,
        cipherlist = Some cipherlist_default, cafile = None, capath = None\<rparr> w1 = Done (y, w2)"
      using body False 1 True by (auto simp: main_body_def split: outcome.splits)
    have c: "fds w2 = fds w1" "tables w2 = tables w1" using ctx_init_keeps [OF k(1) 2] by simp_all
    show ?thesis
    proof (cases y)
      case None
      then show ?thesis using body False 1 True 2 l c by (auto simp: main_body_def)
    next
      case (Some z)
      then have "main_serve L H a peer port stack fuel z w2 = Some (Done (r, w'))"
        using body False 1 True 2 by (auto simp: main_body_def)
      from main_serve_fds [OF host this] show ?thesis using l c by simp
    qed
  qed
qed

text \<open>The three exits before the work begins: no library, no argument, a bad option.\<close>

definition main_quits :: "('k, 'b, 'w) host \<Rightarrow> int \<Rightarrow> (char \<times> string) list \<Rightarrow> 'w \<Rightarrow> bool" where
  "main_quits H argc opts w \<longleftrightarrow> fst (dtls_init_openssl H w) = 0 \<or> argc \<le> 1 \<or>
     main_options opts \<lparr>bindaddr = None, certfile = None, pkeyfile = None, server = False, lport = 0\<rparr> = Done None"

lemma example_main_cases:
  assumes "example_main L H argc opts rest stack fuel w = Some (Done (r, w'))" and "dtls_init_openssl H w = (ok, w1)"
  obtains (quit) "main_quits H argc opts w" "w' = w1"
  | (work) a port x crt key w3 where "\<not> main_quits H argc opts w"
      "main_body L H a (Some (hd rest)) port stack fuel (sys_print H (''----------'' @ [CHR 0x0A] @
          cipherlist_default @ [CHR 0x0A, CHR 0x0A]) (sys_sigaction H w1)) = Some (Done (r, x, crt, key, w3))"
      "w' = dtls_uninit_openssl H (main_cleanup L H x crt key w3)"
proof (cases "main_quits H argc opts w")
  case True
  then have "w' = w1" using assms by (auto simp: example_main_def main_quits_def split: if_splits)
  with True show thesis by (rule quit)
next
  case False
  then obtain a port x crt key w3 where
    "main_body L H a (Some (hd rest)) port stack fuel (sys_print H (''----------'' @ [CHR 0x0A] @
        cipherlist_default @ [CHR 0x0A, CHR 0x0A]) (sys_sigaction H w1)) = Some (Done (r, x, crt, key, w3))"
    "w' = dtls_uninit_openssl H (main_cleanup L H x crt key w3)"
    using assms unfolding example_main_def main_quits_def Let_def
    by (auto split: if_splits outcome.splits option.splits)
  with False show thesis by (rule work)
qed

text \<open>
  (C40) Whatever the command line, the files, the peer and the network do: when the program returns
  from \<open>main\<close>, it has freed the certificate, the private key, the context, the file BIOs, the
  session and the key material, and closed its socket. The tables of OpenSSL are unloaded on every
  path but the three exits before the work begins (no library, no argument, a bad option), which
  return without \<open>dtls_uninit_openssl\<close> and leave them loaded.
\<close>

theorem main_no_leak:
  assumes res: "ssl_resources L objs blocks bios" "ssl_owns L bios" and host: "host_resources H objs blocks"
    and proc: "host_process L H fds tables"
    and ret: "example_main L H argc opts rest stack fuel w = Some (Done (r, w'))"
  shows "objs w' = objs w \<and> blocks w' = blocks w \<and> fds w' = fds w \<and>
    tables w' = (if main_quits H argc opts w then (True, True) else (False, False))"
proof -
  obtain ok w1 where 1: "dtls_init_openssl H w = (ok, w1)" by fastforce
  note i = host_resources_new(4) [OF host 1] init_uninit(1) [OF proc 1]
  note k = host_process_keeps [OF proc]
  from ret 1 show ?thesis
  proof (cases rule: example_main_cases)
    case quit
    then show ?thesis using i by simp
  next
    case (work a port x crt key w3)
    have "(fds (main_cleanup L H x crt key w3), tables (main_cleanup L H x crt key w3)) = (fds w3, tables w3)"
      using ssl_keepsD(1) [OF k(1)] host_keepsD(7,8) [OF k(2)]
      by (simp add: main_cleanup_def split: option.split)
    moreover have "fds w3 = fds w1"
      using main_body_fds [OF proc work(2)] host_keepsD(2,6) [OF k(2)] by simp
    ultimately have "fds w' = fds w" using i by (simp add: work(3) init_uninit [OF proc])
    then show ?thesis using main_body_resources [OF res host work(2)] i work(1)
      by (simp add: work(3) main_cleanup_def host_resourcesD [OF host] ssl_resources_free [OF res(1)]
          init_uninit [OF proc] split: option.split)
  qed
qed

lemma toy_host_resources: "host_resources toy_host fst (\<lambda>(n, b, out). b)"
  using toy_host_counts
  by (auto simp: host_resources_def toy_host_def toy_note_def toy_erase_def dtls_init_openssl_def
      dtls_uninit_openssl_def split: prod.split)

definition toy_fds :: "toy_world \<Rightarrow> int set" where
  "toy_fds w = (if toy_noted (-10) w then {5} else {})"

definition toy_tables :: "toy_world \<Rightarrow> bool \<times> bool" where
  "toy_tables w = (toy_noted (-11) w, toy_noted (-12) w)"

lemma toy_notes:
  "toy_noted i (toy_note j w) \<longleftrightarrow> i = j \<or> toy_noted i w" "toy_noted i (toy_erase j w) \<longleftrightarrow> i \<noteq> j \<and> toy_noted i w"
  "toy_noted i (n, b, out) \<longleftrightarrow> (i, []) \<in> set out"
  by (auto simp: toy_noted_def toy_note_def toy_erase_def split: prod.splits)

lemma toy_loads:
  "toy_fds (OpenSSL_add_ssl_algorithms toy_host w) = toy_fds w \<and>
    toy_tables (OpenSSL_add_ssl_algorithms toy_host w) = (fst (toy_tables w), True)"
  "toy_fds (SSL_load_error_strings toy_host w) = toy_fds w \<and>
    toy_tables (SSL_load_error_strings toy_host w) = (True, snd (toy_tables w))"
  "toy_fds (snd (SSL_library_init toy_host w)) = toy_fds w \<and>
    toy_tables (snd (SSL_library_init toy_host w)) = (fst (toy_tables w), True)"
  "toy_fds (ERR_free_strings toy_host w) = toy_fds w \<and>
    toy_tables (ERR_free_strings toy_host w) = (False, snd (toy_tables w))"
  "toy_fds (EVP_cleanup toy_host w) = toy_fds w \<and> toy_tables (EVP_cleanup toy_host w) = (fst (toy_tables w), False)"
  by (simp_all add: toy_host_def toy_fds_def toy_tables_def toy_notes(1,2))

lemma toy_process: "host_process toy_ssl toy_host toy_fds toy_tables"
proof -
  have "ssl_keeps toy_ssl (\<lambda>v. (toy_fds v, toy_tables v))"
    by (auto simp: ssl_keeps_def toy_ssl_def toy_fds_def toy_tables_def toy_notes split: prod.split)
  moreover have "host_keeps toy_host (\<lambda>v. (toy_fds v, toy_tables v))"
    by (auto simp: host_keeps_def toy_host_def toy_sendto_def toy_fds_def toy_tables_def toy_notes
        split: prod.split if_splits)
  then have "host_keeps_all toy_host (\<lambda>v. (toy_fds v, toy_tables v))"
    by (auto simp: host_keeps_all_def toy_host_def toy_fds_def toy_tables_def toy_notes split: prod.split)
  moreover have "toy_tables w' = toy_tables w \<and>
      (if fd < 0 then toy_fds w' = toy_fds w else fd \<notin> toy_fds w \<and> toy_fds w' = insert fd (toy_fds w))"
    if "sys_socket toy_host fam w = (fd, w')" for fam w fd w'
    using that by (auto simp: toy_host_def toy_fds_def toy_tables_def toy_notes(1,2) split: if_splits)
  moreover have "toy_tables (sys_close toy_host fd w) = toy_tables w \<and>
      toy_fds (sys_close toy_host fd w) = (if fd < 0 then toy_fds w else toy_fds w - {fd})" for fd w
    by (auto simp: toy_host_def toy_fds_def toy_tables_def toy_notes(1,2))
  ultimately show ?thesis unfolding host_process_def using toy_loads by blast
qed

text \<open>A run of the witnesses that gets as far as the context and then refuses the peer's address.\<close>

lemma toy_load:
  "main_load toy_ssl toy_host cf kf (0, 0, out) = Done (True, Some 3, Some 4, (2, 0, out))"
proof -
  obtain n t where "fprintfinger (fputs_result toy_host) ''Fingerprint of local cert is '' (X509_digest toy_host 3) =
    Done (n, t)" using fprintfinger_returns by blast
  then show ?thesis by (simp add: main_load_def toy_host_def toy_ssl_def free_file_def)
qed

lemma toy_init:
  "dtls_ctx_init toy_ssl 1 None \<lparr>cert = Some 3, pkey = Some 4, profile = SRTP_PROFILE_AES128_CM_SHA1_80,
     cipherlist = Some cl, cafile = None, capath = None\<rparr> (2, 0, out) =
   Done (Some (0, ''SRTP_AES128_CM_SHA1_80''), (3, 0, out))"
  by (cases cl) (simp_all add: dtls_ctx_init_def toy_ssl_def ctx_use_cert_def ctx_use_lists_def str_isempty_def
      SSL_VERIFY_NONE_def)

definition toy_args :: main_args where
  "toy_args = \<lparr>bindaddr = None, certfile = Some ''cert.pem'', pkeyfile = Some ''key.pem'', server = False, lport = 0\<rparr>"

lemma toy_body:
  "main_body toy_ssl toy_host toy_args (Some ''nohost'') 5004 (replicate 128 0, replicate 128 0) 3 (0, 0, out) =
     Some (Done (EXIT_FAILURE, Some (0, ''SRTP_AES128_CM_SHA1_80''), Some 3, Some 4, (3, 0, out)))"
proof -
  have "toy_pton f ''nohost'' = None" for f by (simp add: toy_pton_def)
  then have "main_serve toy_ssl toy_host toy_args (Some ''nohost'') 5004 (replicate 128 0, replicate 128 0) 3
      (0, ''SRTP_AES128_CM_SHA1_80'') (3, 0, out) = Some (Done (EXIT_FAILURE, (3, 0, out)))"
    by (simp add: main_serve_def makesockaddr_def toy_args_def toy_host_def)
  then show ?thesis by (simp add: main_body_def toy_load toy_init toy_args_def)
qed

lemma toy_main:
  "example_main toy_ssl toy_host 6 [(CHR ''c'', ''cert.pem''), (CHR ''k'', ''key.pem'')] [''nohost'', ''5004'']
     (replicate 128 0, replicate 128 0) 3 (0, 0, []) = Some (Done (EXIT_FAILURE, (0, 0, [])))"
proof -
  have a: "c_atoi ''5004'' = Done 5004" by code_simp
  have h: "dtls_init_openssl toy_host (0, 0, []) = (1, (0, 0, [(-12, []), (-11, []), (-12, [])]))"
      "sys_print toy_host t w = w" "sys_sigaction toy_host w = w"
      "dtls_uninit_openssl toy_host (0, 0, [(-12, []), (-11, []), (-12, [])]) = (0, 0, [])" for t w
    by (simp_all add: dtls_init_openssl_def dtls_uninit_openssl_def toy_host_def toy_note_def toy_erase_def)
  have "main_cleanup toy_ssl toy_host (Some x) (Some 3) (Some 4) (3, 0, out) = (0, 0, out)" for x out
    by (simp add: main_cleanup_def toy_host_def toy_ssl_def)
  then show ?thesis using toy_body by (simp add: example_main_def h a toy_args_def)
qed

theorem main_no_leak_witness:
  "\<exists>w'. example_main toy_ssl toy_host 6 [(CHR ''c'', ''cert.pem''), (CHR ''k'', ''key.pem'')] [''nohost'', ''5004'']
     (replicate 128 0, replicate 128 0) 3 (0, 0, []) = Some (Done (EXIT_FAILURE, w')) \<and> fst w' = 0 \<and>
     toy_fds w' = {} \<and> toy_tables w' = (False, False)"
proof -
  have "\<not> main_quits toy_host 6 [(CHR ''c'', ''cert.pem''), (CHR ''k'', ''key.pem'')] (0, 0, [])"
    by (simp add: main_quits_def dtls_init_openssl_def toy_host_def)
  then show ?thesis
    using main_no_leak [OF toy_resources toy_owns toy_host_resources toy_process toy_main] toy_main
    by (simp add: toy_fds_def toy_noted_def)
qed

text \<open>
  Without an address behind the options the program is undefined, even as a server, which
  needs none: it reads the element of \<open>argv\<close> behind the null pointer that ends it.
\<close>

theorem main_without_address:
  assumes "dtls_init_openssl H w = (ok, w1)" "ok \<noteq> 0" "1 < argc"
    and "main_options opts \<lparr>bindaddr = None, certfile = None, pkeyfile = None, server = False, lport = 0\<rparr> = Done (Some a)"
  shows "example_main L H argc opts [] stack fuel w = Some Undefined"
  using assms by (simp add: example_main_def)

theorem main_without_address_witness:
  "example_main toy_ssl toy_host 2 [(CHR ''s'', [])] [] (replicate 128 0, replicate 128 0) 3 (0, 0, []) = Some Undefined"
  by (rule main_without_address [of _ _ 1 "toy_note (-12) (toy_note (-11) (toy_note (-12) (0, 0, [])))"])
    (simp_all add: dtls_init_openssl_def toy_host_def)

end
