(* ===== verification/Crystal_Prelude.thy ===== *)
theory Crystal_Prelude
  imports Srtp_Prelude
begin

text \<open>
  What the models of the Crystal code share. The language is Crystal 0.23.1 (\<open>Dockerfile\<close>): integers
  have a width, arithmetic keeps the type of its left operand and wraps, conversions between integer
  types truncate, a \<open>Slice\<close> checks its bounds, and an exception ends the computation; here it is the
  left value of a sum. \<open>NotImplemented\<close> stands for the plain \<open>Exception\<close> of the methods "to be
  implemented by subclass".
\<close>

section \<open>Exceptions and slices\<close>

datatype crystal_error = IndexError | NilAssertion | InvalidStunMessage | NoStunAttributes | NotImplemented

type_synonym 'a crystal = "crystal_error + 'a"

fun sbind :: "'a crystal \<Rightarrow> ('a \<Rightarrow> 'b crystal) \<Rightarrow> 'b crystal" where
  "sbind (Inl e) f = Inl e"
| "sbind (Inr x) f = f x"

lemma sbind_InrE [elim!]:
  assumes "sbind r f = Inr y"
  obtains x where "r = Inr x" and "f x = Inr y"
  using assms by (cases r) auto

lemma sbind_cong: "(\<And>x. f x = g x) \<Longrightarrow> sbind r f = sbind r g"
  by (cases r) simp_all

text \<open>\<open>data[a, n]\<close> of a \<open>Slice\<close> raises unless all of it exists.\<close>

definition slice :: "bytes \<Rightarrow> nat \<Rightarrow> nat \<Rightarrow> bytes crystal" where
  "slice data a n = (if a + n \<le> length data then Inr (take n (drop a data)) else Inl IndexError)"

text \<open>\<open>IO::ByteFormat::NetworkEndian\<close> for \<open>UInt16\<close>, both ways.\<close>

fun decode16 :: "bytes \<Rightarrow> u16" where
  "decode16 [a, b] = be_word16 a b"
| "decode16 _ = 0"

definition be_bytes16 :: "u16 \<Rightarrow> bytes" where
  "be_bytes16 w = [ucast (drop_bit 8 w), ucast w]"

section \<open>Bytes\<close>

lemma length_be_bytes16 [simp]: "length (be_bytes16 w) = 2"
  by (simp add: be_bytes16_def)

lemma decode16_be_bytes16 [simp]: "decode16 (be_bytes16 w) = w"
proof (rule bit_word_eqI)
  fix n assume "n < LENGTH(16)"
  then consider "n < 8" | "8 \<le> n" "n < 16" by fastforce
  then show "bit (decode16 (be_bytes16 w)) n = bit w n"
    by cases (auto simp: be_bytes16_def be_word16_def bit_simps)
qed

lemma length_2_cases:
  assumes "length xs = 2"
  obtains a b where "xs = [a, b]"
  using assms by (auto simp: numeral_eq_Suc length_Suc_conv)

lemma be_bytes16_decode16: "length bs = 2 \<Longrightarrow> be_bytes16 (decode16 bs) = bs"
  by (elim length_2_cases) (auto simp: be_bytes16_def be_word16_def bit_eq_iff bit_simps)

lemma slice_prefix [simp]: "slice (xs @ ys @ zs) (length xs) (length ys) = Inr ys"
  by (simp add: slice_def)

lemma slice_at: "a = length xs \<Longrightarrow> n = length ys \<Longrightarrow> slice (xs @ ys @ zs) a n = Inr ys"
  by (simp add: slice_def)

lemma slice_InrD: "slice d a n = Inr v \<Longrightarrow> a + n \<le> length d \<and> v = take n (drop a d) \<and> length v = n"
  by (auto simp: slice_def split: if_splits)

lemma bit_0x80_byte: "bit (0x80 :: byte) n \<longleftrightarrow> n = 7"
proof -
  have "(0x80 :: byte) = 2 ^ 7" by simp
  then show ?thesis by (simp only: bit_exp_iff possible_bit_word) auto
qed

end
