(* ===== verification/Stun.thy ===== *)
theory Stun
  imports Crystal_Prelude
begin

text \<open>
  The STUN messages of \<open>src/src/stun\<close>, by which a web browser checks the connectivity of a media
  path before it starts the DTLS handshake on it: the header (\<open>header.cr\<close>), the attributes and the
  reply (\<open>conv.cr\<close>), and what becomes of a datagram (\<open>stun.cr\<close>). HMAC-SHA1 and CRC-32 are
  parameters.
\<close>

section \<open>The code\<close>

record stun_header =
  msg_type :: u16
  stun_length :: u16
  magic_cookie :: u32
  transaction_id :: bytes

definition BINDING_REQ_VALUE :: u16 where "BINDING_REQ_VALUE = 0x0001"
definition MAGIC_COOKIE :: u32 where "MAGIC_COOKIE = 0x2112a442"
definition STUN_HEADER_LENGTH :: nat where "STUN_HEADER_LENGTH = 20"

definition stun_header_new :: "bytes \<Rightarrow> stun_header crystal" where
  "stun_header_new data =
     sbind (slice data 0 2) (\<lambda>ty. sbind (slice data 2 2) (\<lambda>len.
     sbind (slice data 4 4) (\<lambda>cookie. sbind (slice data 8 12) (\<lambda>tid.
     let h = \<lparr>msg_type = decode16 ty, stun_length = decode16 len, magic_cookie = be_word32 cookie,
              transaction_id = tid\<rparr> in
     if magic_cookie h \<noteq> MAGIC_COOKIE then Inl InvalidStunMessage
     else if msg_type h \<noteq> BINDING_REQ_VALUE then Inl InvalidStunMessage
     else if uint (stun_length h) \<noteq> int (length data) - 20 then Inl InvalidStunMessage
     else Inr h))))"

definition stun_serialize :: "stun_header \<Rightarrow> bytes" where
  "stun_serialize h = be_bytes16 (msg_type h) @ be_bytes16 (stun_length h) @
     be_bytes32 (magic_cookie h) @ transaction_id h"

text \<open>
  The loop of \<open>StunAttributes\<close>, from position \<open>at\<close> on. The distance to the next attribute is
  computed in 16 bits; a later attribute replaces an earlier one of the same type.
\<close>

function stun_attrs_from :: "bytes \<Rightarrow> nat \<Rightarrow> (u16 \<rightharpoonup> bytes) \<Rightarrow> (u16 \<rightharpoonup> bytes) crystal" where
  "stun_attrs_from data at attrs =
     (if at < length data then
        sbind (slice data at 2) (\<lambda>ty. sbind (slice data (at + 2) 2) (\<lambda>len.
        let n = decode16 len in
        sbind (slice data (at + 4) (unat n)) (\<lambda>v.
        stun_attrs_from data (at + 4 + unat ((n + 3) AND NOT 3)) (attrs(decode16 ty \<mapsto> v)))))
      else Inr attrs)"
  by pat_completeness auto

termination by (relation "measure (\<lambda>(data, at, attrs). length data - at)") auto

declare stun_attrs_from.simps [simp del]

definition stun_attributes :: "bytes \<Rightarrow> (u16 \<rightharpoonup> bytes) crystal" where
  "stun_attributes data = stun_attrs_from data 0 Map.empty"

text \<open>A conversation: the request, where it came from, and what the reply needs.\<close>

record stun_conv =
  conv_data :: bytes
  conv_header :: stun_header
  from_port :: u16
  from_addr :: bytes            \<comment> \<open>the IPv4 address, in network order\<close>
  password :: "bytes option"
  software_name :: bytes        \<comment> \<open>ASCII, so that characters are bytes\<close>

definition AttrXorMappedAddress :: u16 where "AttrXorMappedAddress = 0x0020"
definition AttrUsername :: u16 where "AttrUsername = 0x0006"
definition AttrMessageIntegrity :: u16 where "AttrMessageIntegrity = 0x0008"
definition AttrFingerprint :: u16 where "AttrFingerprint = 0x8028"
definition AttrSoftware :: u16 where "AttrSoftware = 0x8022"

definition ascii :: "string \<Rightarrow> bytes" where
  "ascii s = map of_char s"

definition stun_conv_new :: "bytes \<Rightarrow> u16 \<Rightarrow> bytes \<Rightarrow> stun_conv crystal" where
  "stun_conv_new data port addr = sbind (stun_header_new data) (\<lambda>h.
     Inr \<lparr>conv_data = data, conv_header = h, from_port = port, from_addr = addr,
          password = None, software_name = ascii ''Whatever''\<rparr>)"

definition set_software_name :: "stun_conv \<Rightarrow> bytes \<Rightarrow> stun_conv" where
  "set_software_name c v = c\<lparr>software_name := v\<rparr>"

definition conv_attributes :: "stun_conv \<Rightarrow> (u16 \<rightharpoonup> bytes) crystal" where
  "conv_attributes c = (if stun_length (conv_header c) = 0 then Inl NoStunAttributes
     else sbind (slice (conv_data c) STUN_HEADER_LENGTH (unat (stun_length (conv_header c)))) stun_attributes)"

definition conv_username :: "stun_conv \<Rightarrow> bytes option crystal" where
  "conv_username c = sbind (conv_attributes c) (\<lambda>attrs. Inr (attrs AttrUsername))"

definition xor_port :: "stun_conv \<Rightarrow> u16" where
  "xor_port c = from_port c XOR 0x2112"

text \<open>The address is loaded in host order and combined with the cookie backwards.\<close>

definition xor_ipv4_addr :: "stun_conv \<Rightarrow> u32" where
  "xor_ipv4_addr c = u32_load (from_addr c) XOR 0x42a41221"

definition set_length :: "bytes \<Rightarrow> nat \<Rightarrow> bytes" where
  "set_length io n = take 2 io @ be_bytes16 (of_nat n) @ drop 4 io"

definition write_xor_mapped_address_attr :: "stun_conv \<Rightarrow> bytes \<Rightarrow> bytes" where
  "write_xor_mapped_address_attr c io = io @ be_bytes16 AttrXorMappedAddress @ be_bytes16 0x0008 @
     be_bytes16 0x0001 @ be_bytes16 (xor_port c) @ u32_store (xor_ipv4_addr c)"

definition write_software_attribute :: "stun_conv \<Rightarrow> bytes \<Rightarrow> bytes" where
  "write_software_attribute c io =
     (let len = length (software_name c); pad = (4 - len mod 4) mod 4;
          len1 = (if software_name c = ascii ''test vector '' then len - 1 else len) in
      io @ be_bytes16 AttrSoftware @ be_bytes16 (of_nat len1) @ software_name c @ replicate pad 0)"

definition write_message_integrity :: "(bytes \<Rightarrow> bytes \<Rightarrow> bytes) \<Rightarrow> stun_conv \<Rightarrow> bytes \<Rightarrow> bytes" where
  "write_message_integrity hmac c io = (case password c of None \<Rightarrow> io
     | Some pw \<Rightarrow> io @ be_bytes16 AttrMessageIntegrity @ be_bytes16 20 @ hmac pw io)"

definition write_fingerprint :: "(bytes \<Rightarrow> u32) \<Rightarrow> bytes \<Rightarrow> bytes" where
  "write_fingerprint crc io = io @ be_bytes16 AttrFingerprint @ be_bytes16 4 @
     be_bytes32 (crc io XOR 0x5354554e)"

definition stun_reply :: "(bytes \<Rightarrow> bytes \<Rightarrow> bytes) \<Rightarrow> (bytes \<Rightarrow> u32) \<Rightarrow> stun_conv \<Rightarrow> bytes" where
  "stun_reply hmac crc c =
     (let io = stun_serialize ((conv_header c)\<lparr>msg_type := 0x0101, stun_length := 12\<rparr>) in
      if stun_length (conv_header c) = 0
      then let io1 = write_xor_mapped_address_attr c io in set_length io1 12
      else let io1 = write_software_attribute c io;
               io2 = write_xor_mapped_address_attr c io1;
               io3 = set_length io2 (length io2 + 4);
               io4 = write_message_integrity hmac c io3;
               io5 = set_length io4 (length io4 - 12);
               io6 = write_fingerprint crc io5 in
           set_length io6 (length io6 - 20))"

text \<open>
  The calls of the server (\<open>src/src/graph\<close>): \<open>property!\<close> makes a getter that raises on \<open>nil\<close>. Two
  calls are the same if they are the same object.
\<close>

record graph_call =
  call_object :: nat
  call_id :: bytes
  server_userfrag :: "bytes option"
  client_userfrag :: "bytes option"
  server_password :: "bytes option"

fun not_nil :: "'a option \<Rightarrow> 'a crystal" where
  "not_nil None = Inl NilAssertion"
| "not_nil (Some x) = Inr x"

definition formed_username :: "graph_call \<Rightarrow> bytes crystal" where
  "formed_username c = sbind (not_nil (client_userfrag c)) (\<lambda>cuf.
     sbind (not_nil (server_userfrag c)) (\<lambda>suf. Inr (suf @ ascii '':'' @ cuf)))"

definition collection_add :: "graph_call list \<Rightarrow> graph_call \<Rightarrow> graph_call list" where
  "collection_add calls a = calls @ [a]"

fun find_by_username :: "graph_call list \<Rightarrow> bytes \<Rightarrow> graph_call option crystal" where
  "find_by_username [] username = Inr None"
| "find_by_username (s # calls) username = sbind (formed_username s) (\<lambda>u.
     if u = username then Inr (Some s) else find_by_username calls username)"

definition collection_remove :: "graph_call list \<Rightarrow> graph_call \<Rightarrow> graph_call list" where
  "collection_remove calls c = filter (\<lambda>a. call_object a \<noteq> call_object c) calls"

text \<open>The result is the reply that is sent back to where the datagram came from.\<close>

definition handle_stun_payload ::
  "(bytes \<Rightarrow> bytes \<Rightarrow> bytes) \<Rightarrow> (bytes \<Rightarrow> u32) \<Rightarrow> graph_call list \<Rightarrow> bytes \<Rightarrow> u16 \<Rightarrow> bytes \<Rightarrow> bytes crystal" where
  "handle_stun_payload hmac crc calls payload port addr =
     sbind (stun_conv_new payload port addr) (\<lambda>c.
     sbind (conv_username c) (\<lambda>u.
     sbind (case u of None \<Rightarrow> Inr c | Some name \<Rightarrow>
       sbind (find_by_username calls name) (\<lambda>state. case state of None \<Rightarrow> Inr c
         | Some call \<Rightarrow> sbind (not_nil (server_password call)) (\<lambda>pw. Inr (c\<lparr>password := Some pw\<rparr>))))
     (\<lambda>c1. Inr (stun_reply hmac crc c1))))"

section \<open>The calls\<close>

text \<open>A call as \<open>start_track_sip_conv\<close> makes it has both fragments and a password.\<close>

definition call_complete :: "graph_call \<Rightarrow> bool" where
  "call_complete c \<longleftrightarrow> server_userfrag c \<noteq> None \<and> client_userfrag c \<noteq> None \<and> server_password c \<noteq> None"

definition call_name :: "graph_call \<Rightarrow> bytes" where
  "call_name c = the (server_userfrag c) @ ascii '':'' @ the (client_userfrag c)"

definition call_passwords :: "graph_call list \<Rightarrow> bytes \<rightharpoonup> bytes" where
  "call_passwords calls = map_of (map (\<lambda>c. (call_name c, the (server_password c))) calls)"

lemma formed_complete: "call_complete c \<Longrightarrow> formed_username c = Inr (call_name c)"
  by (auto simp: call_complete_def formed_username_def call_name_def)

lemma find_complete:
  assumes "list_all call_complete calls"
  shows "sbind (find_by_username calls name) (\<lambda>state. case state of None \<Rightarrow> Inr c
      | Some call \<Rightarrow> sbind (not_nil (server_password call)) (\<lambda>pw. Inr (c\<lparr>password := Some pw\<rparr>))) =
    Inr (case call_passwords calls name of None \<Rightarrow> c | Some pw \<Rightarrow> c\<lparr>password := Some pw\<rparr>)"
  using assms by (induction calls) (auto simp: formed_complete call_passwords_def call_complete_def)

lemma handle_complete:
  assumes "list_all call_complete calls"
  shows "handle_stun_payload hmac crc calls payload port addr =
    sbind (stun_conv_new payload port addr) (\<lambda>c. sbind (conv_username c) (\<lambda>u.
      Inr (stun_reply hmac crc (case Option.bind u (call_passwords calls) of None \<Rightarrow> c
        | Some pw \<Rightarrow> c\<lparr>password := Some pw\<rparr>))))"
  unfolding handle_stun_payload_def
proof (intro sbind_cong)
  fix c u
  show "sbind (case u of None \<Rightarrow> Inr c | Some name \<Rightarrow>
       sbind (find_by_username calls name) (\<lambda>state. case state of None \<Rightarrow> Inr c
         | Some call \<Rightarrow> sbind (not_nil (server_password call)) (\<lambda>pw. Inr (c\<lparr>password := Some pw\<rparr>))))
     (\<lambda>c1. Inr (stun_reply hmac crc c1)) =
    Inr (stun_reply hmac crc (case Option.bind u (call_passwords calls) of None \<Rightarrow> c
        | Some pw \<Rightarrow> c\<lparr>password := Some pw\<rparr>))"
    by (cases u) (simp_all add: find_complete [OF assms])
qed

lemma collection_removed:
  "distinct (map call_object (collection_add calls c)) \<Longrightarrow> collection_remove (collection_add calls c) c = calls"
  by (simp add: collection_add_def collection_remove_def filter_id_conv) (metis image_eqI)

section \<open>Padding\<close>

text \<open>The distance to the next attribute is the length of the value, rounded up to words.\<close>

lemma padded_length:
  assumes "unat (n :: u16) < 65533"
  shows "unat ((n + 3) AND NOT 3) = (unat n + 3) div 4 * 4"
proof -
  have step: "Suc (Suc (i - 2)) = i" if "2 \<le> i" for i :: nat using that by simp
  have "(n + 3) AND NOT (mask 2) = push_bit 2 (drop_bit 2 (n + 3))"
    by (intro bit_word_eqI) (auto simp: bit_simps step)
  then have "(n + 3) AND NOT 3 = push_bit 2 (drop_bit 2 (n + 3))" by (simp add: mask_eq_exp_minus_1)
  moreover have "unat (n + 3) = unat n + 3"
    using assms by (simp add: unat_word_ariths)
  moreover have "push_bit 2 (drop_bit 2 (n + 3)) = (n + 3) div 4 * 4"
    by (simp add: drop_bit_eq_div push_bit_eq_mult)
  moreover have "unat ((n + 3) div 4 * 4) = unat (n + 3) div 4 * 4 mod 65536"
    by (simp only: unat_word_ariths(2) unat_div_distrib) simp
  moreover have "(unat n + 3) div 4 * 4 < 65536" using assms by linarith
  ultimately show ?thesis by (simp only: mod_less)
qed

section \<open>The grammar of attributes\<close>

text \<open>
  RFC 5389 section 15: type, length, value, padding up to a multiple of four bytes. The padding of
  the last attribute may be short.
\<close>

definition attr_pad :: "nat \<Rightarrow> nat" where
  "attr_pad n = (n + 3) div 4 * 4 - n"

definition attr_bytes :: "u16 \<Rightarrow> bytes \<Rightarrow> bytes \<Rightarrow> bytes" where
  "attr_bytes ty v p = be_bytes16 ty @ be_bytes16 (of_nat (length v)) @ v @ p"

inductive stun_attr_list :: "bytes \<Rightarrow> (u16 \<times> bytes) list \<Rightarrow> bool" where
  none: "stun_attr_list [] []"
| final: "length p < attr_pad (length v) \<Longrightarrow> stun_attr_list (attr_bytes ty v p) [(ty, v)]"
| more: "length p = attr_pad (length v) \<Longrightarrow> stun_attr_list rest ps \<Longrightarrow>
    stun_attr_list (attr_bytes ty v p @ rest) ((ty, v) # ps)"

inductive_cases stun_attr_listE: "stun_attr_list d ps"

lemma attr_pad_less: "attr_pad n < 4"
  unfolding attr_pad_def by linarith

lemma pad_sum: "n + attr_pad n = (n + 3) div 4 * 4"
  unfolding attr_pad_def by linarith

lemma length_attr_bytes [simp]: "length (attr_bytes ty v p) = 4 + length v + length p"
  by (simp add: attr_bytes_def)

text \<open>One round of the loop.\<close>

lemma attrs_round:
  assumes "length v < 65533" and "length p \<le> attr_pad (length v)" and "length p < attr_pad (length v) \<longrightarrow> rest = []"
  shows "stun_attrs_from (pre @ attr_bytes ty v p @ rest) (length pre) m =
    stun_attrs_from (pre @ attr_bytes ty v p @ rest) (length pre + 4 + length v + attr_pad (length v)) (m(ty \<mapsto> v))"
proof -
  let ?d = "pre @ attr_bytes ty v p @ rest" and ?n = "of_nat (length v) :: u16"
  have n: "unat ?n = length v" using assms(1) by (simp add: unat_of_nat)
  have s: "slice ?d (length pre) 2 = Inr (be_bytes16 ty)"
      "slice ?d (Suc (Suc (length pre))) 2 = Inr (be_bytes16 ?n)" "slice ?d (length pre + 4) (length v) = Inr v"
    by (simp_all add: slice_def attr_bytes_def)
  have "unat ((?n + 3) AND NOT 3) = length v + attr_pad (length v)"
    using padded_length [of ?n] assms(1) by (simp add: n pad_sum)
  then show ?thesis by (subst stun_attrs_from.simps) (simp add: s n add.assoc)
qed

lemma attrs_end: "length d \<le> at \<Longrightarrow> stun_attrs_from d at m = Inr m"
  by (subst stun_attrs_from.simps) simp

lemma map_add_later: "m(k \<mapsto> v) ++ map_of (rev ps) = m ++ map_of (rev ((k, v) # ps))"
  by (auto simp: map_add_def split: option.split)

text \<open>The loop accepts what the grammar accepts.\<close>

lemma attrs_complete:
  assumes "stun_attr_list d ps" and "length d < 65533"
  shows "stun_attrs_from (pre @ d) (length pre) m = Inr (m ++ map_of (rev ps))"
  using assms
proof (induction arbitrary: pre m)
  case none
  then show ?case by (simp add: attrs_end)
next
  case (final p v ty)
  then have "stun_attrs_from (pre @ attr_bytes ty v p) (length pre) m = Inr (m(ty \<mapsto> v))"
    using attrs_round [of v p "[]" pre ty m] by (simp add: attrs_end)
  then show ?case by (auto simp: map_add_def)
next
  case (more p v rest ps ty)
  have rest: "length rest < 65533" using more.prems by simp
  have "stun_attrs_from (pre @ attr_bytes ty v p @ rest) (length (pre @ attr_bytes ty v p)) (m(ty \<mapsto> v)) =
      Inr (m(ty \<mapsto> v) ++ map_of (rev ps))" (is "?loop = _")
    using more.IH [of "pre @ attr_bytes ty v p" "m(ty \<mapsto> v)", OF rest] by (simp only: append_assoc)
  also have "m(ty \<mapsto> v) ++ map_of (rev ps) = m ++ map_of (rev ((ty, v) # ps))" by (rule map_add_later)
  finally have "?loop = Inr (m ++ map_of (rev ((ty, v) # ps)))" .
  moreover have "?loop = stun_attrs_from (pre @ attr_bytes ty v p @ rest) (length pre) m"
    using attrs_round [of v p rest pre ty m] more.hyps(1) more.prems by (simp add: add.assoc)
  ultimately show ?case by (simp only:)
qed

lemma drop_split: "drop a d = take n (drop a d) @ drop (a + n) d"
  by (metis add.commute append_take_drop_id drop_drop)

lemma attr_bytes_slices:
  assumes "slice d a 2 = Inr ty" and "slice d (a + 2) 2 = Inr len" and "slice d (a + 4) (unat (decode16 len)) = Inr v"
  shows "drop a d = attr_bytes (decode16 ty) v [] @ drop (a + 4 + length v) d"
    and "a + 4 + length v \<le> length d" and "length v = unat (decode16 len)"
proof -
  note s = slice_InrD [OF assms(1)] slice_InrD [OF assms(2)] slice_InrD [OF assms(3)]
  show l: "length v = unat (decode16 len)" "a + 4 + length v \<le> length d" using s by auto
  have "drop a d = take 2 (drop a d) @ drop (a + 2) d" "drop (a + 2) d = take 2 (drop (a + 2) d) @ drop (a + 4) d"
      "drop (a + 4) d = take (length v) (drop (a + 4) d) @ drop (a + 4 + length v) d"
    using drop_split [of a d 2] drop_split [of "a + 2" d 2] drop_split [of "a + 4" d "length v"]
    by (simp_all only: add.assoc numeral_plus_numeral semiring_norm)
  then have "drop a d = ty @ len @ v @ drop (a + 4 + length v) d" using s l(1) by metis
  moreover have "be_bytes16 (decode16 ty) = ty" "be_bytes16 (of_nat (length v)) = len"
    unfolding l(1) of_nat_unat ucast_id using be_bytes16_decode16 s by blast+
  ultimately show "drop a d = attr_bytes (decode16 ty) v [] @ drop (a + 4 + length v) d"
    by (simp add: attr_bytes_def)
qed

lemma attrs_sound:
  assumes "stun_attrs_from d at m = Inr m'" and "length d < 65533"
  shows "\<exists>ps. stun_attr_list (drop at d) ps \<and> m' = m ++ map_of (rev ps)"
  using assms
proof (induction d at m arbitrary: m' rule: stun_attrs_from.induct)
  case (1 d a m)
  show ?case
  proof (cases "a < length d")
    case False
    then show ?thesis using 1(2) attrs_end [of d a m] stun_attr_list.none
      by (intro exI [of _ "[]"]) simp
  next
    case True
    from 1(2) True obtain ty len v where s: "slice d a 2 = Inr ty" "slice d (a + 2) 2 = Inr len"
        "slice d (a + 4) (unat (decode16 len)) = Inr v"
        "stun_attrs_from d (a + 4 + unat ((decode16 len + 3) AND NOT 3)) (m(decode16 ty \<mapsto> v)) = Inr m'"
      by (subst (asm) stun_attrs_from.simps) (auto simp: Let_def)
    note b = attr_bytes_slices [OF s(1-3)]
    let ?a' = "a + 4 + length v" and ?k = "attr_pad (length v)"
    have skip: "a + 4 + unat ((decode16 len + 3) AND NOT 3) = ?a' + ?k"
      using padded_length [of "decode16 len"] b(2,3) 1(3) pad_sum [of "length v"] by simp
    from 1(1) [OF True refl s(4) 1(3)] obtain ps where
      ps: "stun_attr_list (drop (?a' + ?k) d) ps" "m' = m(decode16 ty \<mapsto> v) ++ map_of (rev ps)"
      unfolding skip by blast
    have m': "m' = m ++ map_of (rev ((decode16 ty, v) # ps))"
      unfolding ps(2) by (rule map_add_later)
    have d: "drop a d = attr_bytes (decode16 ty) v (take ?k (drop ?a' d)) @ drop (?a' + ?k) d"
      using b(1) drop_split [of ?a' d ?k] by (simp add: attr_bytes_def)
    show ?thesis
    proof (cases "?a' + ?k \<le> length d")
      case True
      then have "stun_attr_list (drop a d) ((decode16 ty, v) # ps)"
        unfolding d by (intro stun_attr_list.more ps(1)) simp
      then show ?thesis using m' by blast
    next
      case False
      then have "ps = []" using ps(1) by (auto elim: stun_attr_list.cases simp: attr_bytes_def be_bytes16_def)
      moreover have "stun_attr_list (drop a d) [(decode16 ty, v)]"
        unfolding d using False b(2) by (simp add: stun_attr_list.final)
      ultimately show ?thesis using m' by blast
    qed
  qed
qed

section \<open>The header\<close>

lemma length_stun_serialize [simp]: "length (stun_serialize h) = 8 + length (transaction_id h)"
  by (simp add: stun_serialize_def)

lemma serialize_parts:
  assumes "20 \<le> length data"
  shows "stun_serialize \<lparr>msg_type = decode16 (take 2 data), stun_length = decode16 (take 2 (drop 2 data)),
    magic_cookie = be_word32 (take 4 (drop 4 data)), transaction_id = take 12 (drop 8 data)\<rparr> = take 20 data"
proof -
  have "take 20 data = take 2 data @ take 2 (drop 2 data) @ take 4 (drop 4 data) @ take 12 (drop 8 data)"
    using take_add [of 2 18 data] take_add [of 2 16 "drop 2 data"] take_add [of 4 12 "drop 4 data"] by simp
  then show ?thesis using assms
    by (simp add: stun_serialize_def be_bytes16_decode16 be_bytes32_word)
qed

lemma serialize_parse:
  assumes "length (transaction_id h) = 12" and "data = stun_serialize h @ body"
  shows "take 2 data = be_bytes16 (msg_type h)" "take 2 (drop 2 data) = be_bytes16 (stun_length h)"
    "take 4 (drop 4 data) = be_bytes32 (magic_cookie h)" "take 12 (drop 8 data) = transaction_id h"
  using assms by (simp_all add: stun_serialize_def)

lemma header_new_iff:
  "stun_header_new data = Inr h \<longleftrightarrow> length (transaction_id h) = 12 \<and> data = stun_serialize h @ drop 20 data \<and>
     magic_cookie h = MAGIC_COOKIE \<and> msg_type h = BINDING_REQ_VALUE \<and>
     20 + unat (stun_length h) = length data" (is "?new \<longleftrightarrow> ?ok")
proof
  assume ?new
  then have l: "20 \<le> length data" and h: "h = \<lparr>msg_type = decode16 (take 2 data),
      stun_length = decode16 (take 2 (drop 2 data)), magic_cookie = be_word32 (take 4 (drop 4 data)),
      transaction_id = take 12 (drop 8 data)\<rparr>"
    and rest: "magic_cookie h = MAGIC_COOKIE" "msg_type h = BINDING_REQ_VALUE"
      "uint (stun_length h) = int (length data) - 20"
    by (auto simp: stun_header_new_def slice_def Let_def split: if_splits)
  have "20 + unat (stun_length h) = length data" using rest(3) unfolding uint_nat by linarith
  moreover have "data = stun_serialize h @ drop 20 data" unfolding h serialize_parts [OF l] by simp
  ultimately show ?ok using l rest(1,2) by (simp add: h)
next
  assume ok: ?ok
  then have l: "20 \<le> length data" by simp
  note p = serialize_parse [of h data, OF _ conjunct1 [OF conjunct2 [OF ok]]]
  have "uint (stun_length h) = int (length data) - 20" using ok unfolding uint_nat by linarith
  then show ?new using ok l p by (simp add: stun_header_new_def slice_def Let_def)
qed

section \<open>The reply\<close>

text \<open>
  Specification: the success response of RFC 5389, part by part, with the type codes of that standard
  (section 18.2), not those of the code.
\<close>

definition rfc_header :: "stun_conv \<Rightarrow> nat \<Rightarrow> bytes" where
  "rfc_header c n = be_bytes16 0x0101 @ be_bytes16 (of_nat n) @ be_bytes32 (magic_cookie (conv_header c)) @
     transaction_id (conv_header c)"

definition rfc_xor_address :: "stun_conv \<Rightarrow> bytes" where
  "rfc_xor_address c = be_bytes16 1 @ be_bytes16 (from_port c XOR 0x2112) @
     xor_bytes (from_addr c) [0x21, 0x12, 0xa4, 0x42]"

definition rfc_software :: "stun_conv \<Rightarrow> bytes" where
  "rfc_software c = (if software_name c = ascii ''test vector ''
     then attr_bytes 0x8022 (butlast (software_name c)) [last (software_name c)]
     else attr_bytes 0x8022 (software_name c) (replicate (attr_pad (length (software_name c))) 0))"

definition rfc_integrity :: "(bytes \<Rightarrow> bytes \<Rightarrow> bytes) \<Rightarrow> stun_conv \<Rightarrow> bytes \<Rightarrow> bytes" where
  "rfc_integrity hmac c body = (case password c of None \<Rightarrow> []
     | Some pw \<Rightarrow> attr_bytes 0x0008 (hmac pw (rfc_header c (length body + 24) @ body)) [])"

definition rfc_fingerprint :: "(bytes \<Rightarrow> u32) \<Rightarrow> stun_conv \<Rightarrow> bytes \<Rightarrow> bytes" where
  "rfc_fingerprint crc c body = attr_bytes 0x8028
     (be_bytes32 (crc (rfc_header c (length body + 8) @ body) XOR 0x5354554e)) []"

definition rfc_reply :: "(bytes \<Rightarrow> bytes \<Rightarrow> bytes) \<Rightarrow> (bytes \<Rightarrow> u32) \<Rightarrow> stun_conv \<Rightarrow> bytes" where
  "rfc_reply hmac crc c =
     (let addr = attr_bytes 0x0020 (rfc_xor_address c) [];
          b1 = rfc_software c @ addr; b2 = b1 @ rfc_integrity hmac c b1;
          b3 = b2 @ rfc_fingerprint crc c b2 in
      if stun_length (conv_header c) = 0 then rfc_header c (length addr) @ addr
      else rfc_header c (length b3) @ b3)"

lemma length_rfc_header [simp]: "length (rfc_header c n) = 8 + length (transaction_id (conv_header c))"
  by (simp add: rfc_header_def)

lemma set_length_header: "set_length (rfc_header c k @ body) n = rfc_header c n @ body"
  by (simp add: set_length_def rfc_header_def)

lemma be_bytes16_8: "be_bytes16 8 = be_bytes16 (of_nat 8)" by simp

lemma write_xor_address:
  assumes "length (from_addr c) = 4"
  shows "write_xor_mapped_address_attr c io = io @ attr_bytes 0x0020 (rfc_xor_address c) []"
proof -
  have "u32_store 0x42a41221 = [0x21, 0x12, 0xa4, 0x42]" by (simp add: u32_store_def)
  then have "u32_store (xor_ipv4_addr c) = xor_bytes (from_addr c) [0x21, 0x12, 0xa4, 0x42]"
    using assms by (simp add: xor_ipv4_addr_def u32_store_xor u32_store_load)
  moreover have "length (rfc_xor_address c) = 8" using assms by (simp add: rfc_xor_address_def)
  ultimately show ?thesis
    by (simp add: write_xor_mapped_address_attr_def AttrXorMappedAddress_def attr_bytes_def rfc_xor_address_def xor_port_def)
qed

lemma write_software: "write_software_attribute c io = io @ rfc_software c"
proof -
  have pad: "(4 - n mod 4) mod 4 = attr_pad n" for n :: nat
  proof -
    have "n mod 4 = 0 \<or> n mod 4 = 1 \<or> n mod 4 = 2 \<or> n mod 4 = 3" by linarith
    then show ?thesis unfolding attr_pad_def by (elim disjE; simp) presburger+
  qed
  show ?thesis
  proof (cases "software_name c = ascii ''test vector ''")
    case True
    then have n: "software_name c \<noteq> []" "length (software_name c) = 12" by (simp_all add: ascii_def)
    then show ?thesis using True append_butlast_last_id [OF n(1)]
      by (simp add: write_software_attribute_def AttrSoftware_def rfc_software_def attr_bytes_def Let_def)
  next
    case False
    then show ?thesis by (simp add: write_software_attribute_def AttrSoftware_def rfc_software_def attr_bytes_def Let_def pad)
  qed
qed

lemma write_integrity:
  assumes "\<forall>k d. length (hmac k d) = 20"
  shows "write_message_integrity hmac c (rfc_header c (length body + 24) @ body) =
    rfc_header c (length body + 24) @ body @ rfc_integrity hmac c body"
  using assms by (simp add: write_message_integrity_def AttrMessageIntegrity_def rfc_integrity_def attr_bytes_def split: option.split)

lemma write_crc:
  "write_fingerprint crc (rfc_header c (length body + 8) @ body) =
    rfc_header c (length body + 8) @ body @ rfc_fingerprint crc c body"
  by (simp add: write_fingerprint_def AttrFingerprint_def rfc_fingerprint_def attr_bytes_def)

lemma reply_header: "stun_serialize ((conv_header c)\<lparr>msg_type := 0x0101, stun_length := 12\<rparr>) = rfc_header c 12"
  by (simp add: stun_serialize_def rfc_header_def)

lemma length_rfc_xor_address: "length (from_addr c) = 4 \<Longrightarrow> length (rfc_xor_address c) = 8"
  by (simp add: rfc_xor_address_def)

lemma reply_extended:
  assumes "stun_length (conv_header c) \<noteq> 0" and "length (from_addr c) = 4"
    and "length (transaction_id (conv_header c)) = 12" and "\<forall>k d. length (hmac k d) = 20"
  shows "stun_reply hmac crc c = rfc_reply hmac crc c"
proof -
  define b1 where "b1 = rfc_software c @ attr_bytes 0x0020 (rfc_xor_address c) []"
  define b2 where "b2 = b1 @ rfc_integrity hmac c b1"
  define b3 where "b3 = b2 @ rfc_fingerprint crc c b2"
  have l: "length (rfc_header c n @ b) = 20 + length b" for n b using assms(3) by simp
  have io2: "write_xor_mapped_address_attr c (write_software_attribute c (rfc_header c 12)) = rfc_header c 12 @ b1"
    by (simp add: write_software write_xor_address assms(2) b1_def)
  have io3: "set_length (rfc_header c 12 @ b1) (length (rfc_header c 12 @ b1) + 4) =
      rfc_header c (length b1 + 24) @ b1"
    unfolding set_length_header l by (simp add: add.commute)
  have io4: "write_message_integrity hmac c (rfc_header c (length b1 + 24) @ b1) =
      rfc_header c (length b1 + 24) @ b2"
    unfolding b2_def by (rule write_integrity) (rule assms(4))
  have io5: "set_length (rfc_header c (length b1 + 24) @ b2)
      (length (rfc_header c (length b1 + 24) @ b2) - 12) = rfc_header c (length b2 + 8) @ b2"
    unfolding set_length_header l by (simp add: add.commute)
  have io6: "write_fingerprint crc (rfc_header c (length b2 + 8) @ b2) = rfc_header c (length b2 + 8) @ b3"
    unfolding b3_def by (rule write_crc)
  have io7: "set_length (rfc_header c (length b2 + 8) @ b3)
      (length (rfc_header c (length b2 + 8) @ b3) - 20) = rfc_header c (length b3) @ b3"
    unfolding set_length_header l by simp
  have "stun_reply hmac crc c = rfc_header c (length b3) @ b3"
    using assms(1) by (simp only: stun_reply_def Let_def reply_header if_False io2 io3 io4 io5 io6 io7)
  moreover have "rfc_reply hmac crc c = rfc_header c (length b3) @ b3"
    using assms(1) by (simp only: rfc_reply_def Let_def if_False b1_def b2_def b3_def)
  ultimately show ?thesis by simp
qed

lemma reply_bare:
  assumes "stun_length (conv_header c) = 0" and "length (from_addr c) = 4"
  shows "stun_reply hmac crc c = rfc_reply hmac crc c"
  using assms
  by (simp add: stun_reply_def rfc_reply_def Let_def reply_header write_xor_address set_length_header
      length_rfc_xor_address)

text \<open>The attributes of a reply, by the grammar.\<close>

definition reply_software :: "stun_conv \<Rightarrow> bytes" where
  "reply_software c = (if software_name c = ascii ''test vector '' then butlast (software_name c)
     else software_name c)"

lemma attr_list_one:
  assumes "length p = attr_pad (length v)"
  shows "stun_attr_list (attr_bytes ty v p) [(ty, v)]"
  using stun_attr_list.more [OF assms stun_attr_list.none] by simp

lemma software_attr:
  "\<exists>p. rfc_software c = attr_bytes 0x8022 (reply_software c) p \<and>
    length p = attr_pad (length (reply_software c))"
  by (auto simp: rfc_software_def reply_software_def ascii_def attr_pad_def)

definition integrity_attrs :: "(bytes \<Rightarrow> bytes \<Rightarrow> bytes) \<Rightarrow> stun_conv \<Rightarrow> bytes \<Rightarrow> (u16 \<times> bytes) list" where
  "integrity_attrs hmac c body = (case password c of None \<Rightarrow> []
     | Some pw \<Rightarrow> [(0x0008, hmac pw (rfc_header c (length body + 24) @ body))])"

lemma integrity_list:
  assumes "\<forall>k d. length (hmac k d) = 20" and "stun_attr_list b ps"
  shows "stun_attr_list (rfc_integrity hmac c body @ b) (integrity_attrs hmac c body @ ps)"
  using assms stun_attr_list.more [OF _ assms(2), of "[]"]
  by (auto simp: rfc_integrity_def integrity_attrs_def attr_pad_def split: option.split)

definition reply_attrs ::
  "(bytes \<Rightarrow> bytes \<Rightarrow> bytes) \<Rightarrow> (bytes \<Rightarrow> u32) \<Rightarrow> stun_conv \<Rightarrow> (u16 \<times> bytes) list" where
  "reply_attrs hmac crc c =
     (let b1 = rfc_software c @ attr_bytes 0x0020 (rfc_xor_address c) [];
          b2 = b1 @ rfc_integrity hmac c b1 in
      [(0x8022, reply_software c), (0x0020, rfc_xor_address c)] @
      integrity_attrs hmac c b1 @
      [(0x8028, be_bytes32 (crc (rfc_header c (length b2 + 8) @ b2) XOR 0x5354554e))])"

lemma reply_body:
  assumes "stun_length (conv_header c) \<noteq> 0" and "length (from_addr c) = 4"
    and "length (transaction_id (conv_header c)) = 12" and "\<forall>k d. length (hmac k d) = 20"
  shows "stun_attr_list (drop 20 (rfc_reply hmac crc c)) (reply_attrs hmac crc c)"
proof -
  obtain p where sw: "rfc_software c = attr_bytes 0x8022 (reply_software c) p"
      and p: "length p = attr_pad (length (reply_software c))"
    using software_attr by blast
  define b1 where "b1 = rfc_software c @ attr_bytes 0x0020 (rfc_xor_address c) []"
  define b2 where "b2 = b1 @ rfc_integrity hmac c b1"
  let ?crc = "be_bytes32 (crc (rfc_header c (length b2 + 8) @ b2) XOR 0x5354554e)"
  have "stun_attr_list (rfc_fingerprint crc c b2) [(0x8028, ?crc)]"
    unfolding rfc_fingerprint_def by (rule attr_list_one) (simp add: attr_pad_def)
  then have "stun_attr_list (rfc_integrity hmac c b1 @ rfc_fingerprint crc c b2)
      (integrity_attrs hmac c b1 @ [(0x8028, ?crc)])"
    by (rule integrity_list [OF assms(4)])
  from stun_attr_list.more [OF _ this, of "[]" "rfc_xor_address c" "0x0020"]
  have "stun_attr_list (attr_bytes 0x0020 (rfc_xor_address c) [] @ rfc_integrity hmac c b1 @
      rfc_fingerprint crc c b2)
      ((0x0020, rfc_xor_address c) # integrity_attrs hmac c b1 @ [(0x8028, ?crc)])"
    by (simp add: length_rfc_xor_address assms(2) attr_pad_def)
  from stun_attr_list.more [OF p this, of "0x8022"]
  have "stun_attr_list (b2 @ rfc_fingerprint crc c b2) (reply_attrs hmac crc c)"
    by (simp add: reply_attrs_def Let_def b2_def b1_def sw)
  moreover have "drop 20 (rfc_reply hmac crc c) = b2 @ rfc_fingerprint crc c b2"
    using assms(1,3) by (simp add: rfc_reply_def Let_def b2_def b1_def)
  ultimately show ?thesis by simp
qed

lemma length_reply_body:
  assumes "stun_length (conv_header c) \<noteq> 0" and "length (from_addr c) = 4"
    and "length (transaction_id (conv_header c)) = 12" and "\<forall>k d. length (hmac k d) = 20"
  shows "length (rfc_reply hmac crc c) \<le> length (software_name c) + 75"
proof -
  have "length (rfc_software c) \<le> length (software_name c) + 7"
    using attr_pad_less [of "length (software_name c)"] by (auto simp: rfc_software_def ascii_def)
  moreover have "length (rfc_integrity hmac c b) \<le> 24" for b
    using assms(4) by (simp add: rfc_integrity_def split: option.split)
  from add_mono [OF calculation this] show ?thesis using assms
    by (fastforce simp: rfc_reply_def Let_def length_rfc_xor_address rfc_fingerprint_def intro: le_trans)
qed

lemma attributes_of_list: "stun_attr_list d ps \<Longrightarrow> length d < 65533 \<Longrightarrow> stun_attributes d = Inr (map_of (rev ps))"
  using attrs_complete [of d ps "[]" Map.empty] by (simp add: stun_attributes_def)

lemma attributes_grammar:
  assumes "length d < 65533"
  shows "stun_attributes d = Inr m \<longleftrightarrow> (\<exists>ps. stun_attr_list d ps \<and> m = map_of (rev ps))"
proof
  assume "stun_attributes d = Inr m"
  from attrs_sound [OF this [unfolded stun_attributes_def] assms]
  show "\<exists>ps. stun_attr_list d ps \<and> m = map_of (rev ps)" by simp
qed (auto simp: attributes_of_list assms)

section \<open>What is answered\<close>

lemma conv_attributes_new:
  assumes "stun_conv_new payload port addr = Inr c"
  shows "stun_header_new payload = Inr (conv_header c)"
    and "conv_attributes c = (if length payload = 20 then Inl NoStunAttributes else stun_attributes (drop 20 payload))"
proof -
  from assms show h: "stun_header_new payload = Inr (conv_header c)"
    by (auto simp: stun_conv_new_def)
  then have n: "20 + unat (stun_length (conv_header c)) = length payload" by (simp only: header_new_iff)
  then have "length payload = 20 \<longleftrightarrow> stun_length (conv_header c) = 0" by (auto simp: unat_eq_zero)
  moreover have "conv_data c = payload" using assms by (auto simp: stun_conv_new_def)
  moreover have "slice payload 20 (unat (stun_length (conv_header c))) = Inr (drop 20 payload)"
    using n by (simp add: slice_def)
  ultimately show "conv_attributes c =
      (if length payload = 20 then Inl NoStunAttributes else stun_attributes (drop 20 payload))"
    by (simp add: conv_attributes_def STUN_HEADER_LENGTH_def)
qed

lemma sbind_Inr_iff: "(\<exists>y. sbind r f = Inr y) \<longleftrightarrow> (\<exists>x. r = Inr x \<and> (\<exists>y. f x = Inr y))"
  by (cases r) auto

lemma payload_answered_raw:
  assumes "list_all call_complete calls"
  shows "(\<exists>r. handle_stun_payload hmac crc calls payload port addr = Inr r) \<longleftrightarrow>
     (\<exists>h. stun_header_new payload = Inr h) \<and> length payload \<noteq> 20 \<and> (\<exists>m. stun_attributes (drop 20 payload) = Inr m)"
  (is "?l \<longleftrightarrow> ?r")
proof -
  have "?l \<longleftrightarrow> (\<exists>c. stun_conv_new payload port addr = Inr c \<and> (\<exists>m. conv_attributes c = Inr m))"
    by (simp add: handle_complete [OF assms] conv_username_def sbind_Inr_iff)
  also have "\<dots> \<longleftrightarrow> (\<exists>c. stun_conv_new payload port addr = Inr c) \<and> length payload \<noteq> 20 \<and>
      (\<exists>m. stun_attributes (drop 20 payload) = Inr m)"
    by (auto simp: conv_attributes_new(2) split: if_splits)
  also have "(\<exists>c. stun_conv_new payload port addr = Inr c) \<longleftrightarrow> (\<exists>h. stun_header_new payload = Inr h)"
    by (simp add: stun_conv_new_def sbind_Inr_iff)
  finally show ?thesis .
qed

text \<open>
  (C25) The loop that reads the attributes of a STUN message decides the grammar of RFC 5389, section 15:
  it succeeds exactly on the well-formed lists of type, length, value and padding (the padding of the
  last attribute may be missing), and then returns the value of the last attribute of each type. All
  else is an \<open>IndexError\<close>, never a read outside of the message.
\<close>

theorem stun_attributes_grammar:
  assumes "length d < 65533"
  shows "stun_attributes d = Inr m \<longleftrightarrow> (\<exists>ps. stun_attr_list d ps \<and> m = map_of (rev ps))"
  using assms by (rule attributes_grammar)

theorem stun_attributes_grammar_witness:
  "stun_attributes (be_bytes16 6 @ be_bytes16 3 @ [97, 98, 99, 0]) = Inr [6 \<mapsto> [97, 98, 99]] \<and>
   \<not> (\<exists>ps. stun_attr_list [0, 6, 0, 9, 1] ps \<and> Map.empty = map_of (rev ps))"
proof
  have "stun_attr_list (attr_bytes 6 [97, 98, 99] [0]) [(6, [97, 98, 99])]"
    by (rule attr_list_one) (simp add: attr_pad_def)
  then show "stun_attributes (be_bytes16 6 @ be_bytes16 3 @ [97, 98, 99, 0]) = Inr [6 \<mapsto> [97, 98, 99]]"
    by (subst stun_attributes_grammar) (auto simp: attr_bytes_def intro!: exI [of _ "[(6, [97, 98, 99])]"])
  have "stun_attributes [0, 6, 0, 9, 1] \<noteq> Inr Map.empty"
    by (simp add: stun_attributes_def stun_attrs_from.simps [of _ 0] slice_def be_word16_def)
  then show "\<not> (\<exists>ps. stun_attr_list [0, 6, 0, 9, 1] ps \<and> Map.empty = map_of (rev ps))"
    by (subst (asm) stun_attributes_grammar) simp_all
qed

text \<open>
  Parsing and serialising a STUN header are inverse to each other, and the parser accepts nothing
  but complete binding requests: a datagram is accepted with header \<open>h\<close> if and only if it starts with
  the serialised \<open>h\<close>, \<open>h\<close> has the magic cookie and the type of a binding request, and the length field
  counts exactly the bytes that follow the header.
\<close>

theorem stun_header_iff:
  "stun_header_new data = Inr h \<longleftrightarrow> length (transaction_id h) = 12 \<and> data = stun_serialize h @ drop 20 data \<and>
     magic_cookie h = MAGIC_COOKIE \<and> msg_type h = BINDING_REQ_VALUE \<and> 20 + unat (stun_length h) = length data"
  by (rule header_new_iff)

text \<open>
  (C27) Which datagrams are answered: those with the header of a binding request, a body that is not
  empty, and a body that the grammar of attributes accepts, as long as every call has its user fragments
  and password. So a bare binding request, 20 bytes and no attribute, is never answered, although the
  reply has a branch for it, and neither the sender nor which calls there are decides whether there is an
  answer.
\<close>

theorem stun_payload_answered:
  assumes "length payload < 65553" and "list_all call_complete calls"
  shows "(\<exists>r. handle_stun_payload hmac crc calls payload port addr = Inr r) \<longleftrightarrow>
    (\<exists>h ps. stun_header_new payload = Inr h \<and> 20 < length payload \<and> stun_attr_list (drop 20 payload) ps)"
proof -
  have "20 \<le> length payload" if "stun_header_new payload = Inr h" for h
    using that unfolding header_new_iff by simp
  moreover have "length (drop 20 payload) < 65533" using assms(1) by simp
  ultimately show ?thesis unfolding payload_answered_raw [OF assms(2)]
    using attributes_grammar [of "drop 20 payload"] by (metis le_neq_implies_less less_irrefl)
qed

theorem stun_payload_answered_witness:
  "(\<exists>r. handle_stun_payload (\<lambda>_ _. replicate 20 0) (\<lambda>_. 0) []
     (stun_serialize \<lparr>msg_type = 1, stun_length = 4, magic_cookie = 0x2112a442, transaction_id = replicate 12 7\<rparr> @
      attr_bytes 0x0006 [] []) 5004 [127, 0, 0, 1] = Inr r) \<and>
   \<not> (\<exists>r. handle_stun_payload (\<lambda>_ _. replicate 20 0) (\<lambda>_. 0) []
     (stun_serialize \<lparr>msg_type = 1, stun_length = 0, magic_cookie = 0x2112a442, transaction_id = replicate 12 7\<rparr>)
     5004 [127, 0, 0, 1] = Inr r)"
proof
  have "stun_attr_list (attr_bytes 0x0006 [] []) [(6, [])]"
    by (rule attr_list_one) (simp add: attr_pad_def)
  then show "\<exists>r. handle_stun_payload (\<lambda>_ _. replicate 20 0) (\<lambda>_. 0) []
     (stun_serialize \<lparr>msg_type = 1, stun_length = 4, magic_cookie = 0x2112a442, transaction_id = replicate 12 7\<rparr> @
      attr_bytes 0x0006 [] []) 5004 [127, 0, 0, 1] = Inr r"
    by (subst stun_payload_answered)
      (auto simp: header_new_iff MAGIC_COOKIE_def BINDING_REQ_VALUE_def intro!: exI)
qed (subst stun_payload_answered, simp_all)

lemma reply_rfc:
  assumes "length (from_addr c) = 4" and "length (transaction_id (conv_header c)) = 12"
    and "\<forall>k d. length (hmac k d) = 20"
  shows "stun_reply hmac crc c = rfc_reply hmac crc c"
  using reply_bare [OF _ assms(1)] reply_extended [OF _ assms] by blast

text \<open>
  (C24) The connectivity check of a browser is answered with a success response in the format of
  RFC 5389. A binding request with a well-formed list of attributes, whose USERNAME names a call,
  gets, whatever else it contains, the success response with the same transaction id: software name,
  mapped address, message integrity under the password of that call and fingerprint, the length field
  that the hash covers counting up to the end of the hash, the one that the checksum covers up to the
  end of the checksum, and the one that is sent the whole body. Type codes and magic cookie are those
  of the standard. The MESSAGE-INTEGRITY of the request is never looked at: where it is missing or
  forged, and section 10.1.2 of the standard asks for an error response (400 or 401), the answer is
  the same success.
\<close>

theorem stun_check_answered:
  assumes "stun_header_new payload = Inr h" and "20 < length payload" and "length payload < 65553"
    and "stun_attr_list (drop 20 payload) ps" and "map_of (rev ps) 0x0006 = Some name"
    and "list_all call_complete calls" and "call_passwords calls name = Some pw" and "length addr = 4"
    and "\<forall>k d. length (hmac k d) = 20"
  shows "magic_cookie h = 0x2112a442 \<and>
    handle_stun_payload hmac crc calls payload port addr = Inr (rfc_reply hmac crc
      \<lparr>conv_data = payload, conv_header = h, from_port = port, from_addr = addr, password = Some pw,
       software_name = ascii ''Whatever''\<rparr>)"
proof -
  have new: "stun_conv_new payload port addr = Inr \<lparr>conv_data = payload, conv_header = h, from_port = port,
      from_addr = addr, password = None, software_name = ascii ''Whatever''\<rparr>"
    using assms(1) by (simp add: stun_conv_new_def)
  have "stun_attributes (drop 20 payload) = Inr (map_of (rev ps))"
    by (rule attributes_of_list) (use assms(3,4) in auto)
  moreover have "length (transaction_id h) = 12" "magic_cookie h = 0x2112a442"
    using assms(1) by (simp_all add: header_new_iff MAGIC_COOKIE_def)
  ultimately show ?thesis using assms(2,5,7-9)
    by (simp add: handle_complete [OF assms(6)] new conv_username_def AttrUsername_def conv_attributes_new(2) [OF new] reply_rfc)
qed

theorem stun_check_answered_witness:
  "handle_stun_payload (\<lambda>_ _. replicate 20 9) (\<lambda>_. 3) 
     [\<lparr>call_object = 1, call_id = [], server_userfrag = Some [97], client_userfrag = Some [98],
      server_password = Some [112, 119]\<rparr>]
     (stun_serialize \<lparr>msg_type = 1, stun_length = 8, magic_cookie = 0x2112a442, transaction_id = replicate 12 7\<rparr> @
      attr_bytes 0x0006 [97, 58, 98] [0]) 5004 [127, 0, 0, 1] =
   Inr (rfc_reply (\<lambda>_ _. replicate 20 9) (\<lambda>_. 3)
    \<lparr>conv_data = stun_serialize \<lparr>msg_type = 1, stun_length = 8, magic_cookie = 0x2112a442,
        transaction_id = replicate 12 7\<rparr> @ attr_bytes 0x0006 [97, 58, 98] [0],
     conv_header = \<lparr>msg_type = 1, stun_length = 8, magic_cookie = 0x2112a442, transaction_id = replicate 12 7\<rparr>,
     from_port = 5004, from_addr = [127, 0, 0, 1], password = Some [112, 119], software_name = ascii ''Whatever''\<rparr>)"
proof (rule conjunct2 [OF stun_check_answered [where ps = "[(0x0006, [97, 58, 98])]" and name = "[97, 58, 98]"]])
  show "stun_attr_list (drop 20 (stun_serialize \<lparr>msg_type = 1, stun_length = 8, magic_cookie = 0x2112a442,
      transaction_id = replicate 12 7\<rparr> @ attr_bytes 0x0006 [97, 58, 98] [0])) [(0x0006, [97, 58, 98])]"
    by (simp add: attr_list_one attr_pad_def)
qed (simp_all add: header_new_iff MAGIC_COOKIE_def BINDING_REQ_VALUE_def call_complete_def
    call_passwords_def call_name_def ascii_def)

text \<open>
  (C26) What the peer reads in an answer: the body parses by the same grammar, it holds the software name,
  message integrity if and only if a password is known, and a mapped address from which the peer gets
  its own port and IPv4 address back.
\<close>

theorem stun_reply_parses:
  assumes "stun_length (conv_header c) \<noteq> 0" and "length (from_addr c) = 4"
    and "length (transaction_id (conv_header c)) = 12" and "\<forall>k d. length (hmac k d) = 20"
    and "length (software_name c) < 65000"
  shows "\<exists>m v. stun_attributes (drop 20 (stun_reply hmac crc c)) = Inr m \<and>
    m 0x8022 = Some (reply_software c) \<and> (m 0x0008 = None \<longleftrightarrow> password c = None) \<and>
    m 0x0020 = Some v \<and> decode16 (take 2 (drop 2 v)) XOR 0x2112 = from_port c \<and>
    xor_bytes (drop 4 v) [0x21, 0x12, 0xa4, 0x42] = from_addr c"
proof -
  have "length (drop 20 (rfc_reply hmac crc c)) < 65533"
    using length_reply_body [OF assms(1-4), of crc] assms(5) by simp
  from attributes_of_list [OF reply_body [OF assms(1-4)] this]
  have "stun_attributes (drop 20 (stun_reply hmac crc c)) = Inr (map_of (rev (reply_attrs hmac crc c)))"
    unfolding reply_rfc [OF assms(2-4)] .
  moreover have "map_of (rev (reply_attrs hmac crc c)) 0x8022 = Some (reply_software c)"
      "map_of (rev (reply_attrs hmac crc c)) 0x0008 = None \<longleftrightarrow> password c = None"
      "map_of (rev (reply_attrs hmac crc c)) 0x0020 = Some (rfc_xor_address c)"
    by (auto simp: reply_attrs_def integrity_attrs_def Let_def split: option.split)
  moreover have "decode16 (take 2 (drop 2 (rfc_xor_address c))) XOR 0x2112 = from_port c"
    by (simp add: rfc_xor_address_def xor.assoc)
  moreover have "xor_bytes (drop 4 (rfc_xor_address c)) [0x21, 0x12, 0xa4, 0x42] = from_addr c"
    using assms(2) by (simp add: rfc_xor_address_def xor_bytes_cancel)
  ultimately show ?thesis
    by (intro exI [of _ "map_of (rev (reply_attrs hmac crc c))"] exI [of _ "rfc_xor_address c"] conjI)
qed

theorem stun_reply_parses_witness:
  "\<exists>m v. stun_attributes (drop 20 (stun_reply (\<lambda>_ _. replicate 20 9) (\<lambda>_. 3)
      \<lparr>conv_data = [], conv_header = \<lparr>msg_type = 1, stun_length = 8, magic_cookie = 0x2112a442,
        transaction_id = replicate 12 7\<rparr>,
       from_port = 5004, from_addr = [127, 0, 0, 1], password = None, software_name = ascii ''Whatever''\<rparr>)) = Inr m \<and>
    m 0x8022 = Some (ascii ''Whatever'') \<and> m 0x0008 = None \<and>
    m 0x0020 = Some v \<and> decode16 (take 2 (drop 2 v)) XOR 0x2112 = 5004 \<and>
    xor_bytes (drop 4 v) [0x21, 0x12, 0xa4, 0x42] = [127, 0, 0, 1]"
  using stun_reply_parses [of "\<lparr>conv_data = [], conv_header = \<lparr>msg_type = 1, stun_length = 8,
        magic_cookie = 0x2112a442, transaction_id = replicate 12 7\<rparr>,
       from_port = 5004, from_addr = [127, 0, 0, 1], password = None, software_name = ascii ''Whatever''\<rparr>"
      "\<lambda>_ _. replicate 20 9" "\<lambda>_. 3"]
  by (simp add: reply_software_def ascii_def)

end
