(* ===== verification/Codec_Mulaw.thy ===== *)
theory Codec_Mulaw
  imports Crystal_Prelude
begin

text \<open>
  The samples of the G.711 mu-law codec of \<open>src/src/codec/mu_law.cr\<close>: \<open>encode_sample\<close> and
  \<open>decode_sample\<close>, at the width the Crystal code computes each step in (sums, negations and
  shifts wrap), against a reference decoder on integers. \<open>EXP_LUT\<close> and \<open>TABLE\<close> are the tables of the
  code; resampling is left to libsamplerate and not modelled.
\<close>

section \<open>The code\<close>

definition EXP_LUT :: "int list" where
  "EXP_LUT = [0, 132, 396, 924, 1980, 4092, 8316, 16764]"

text \<open>The entries 0 to 255 that the class writes; the last one lies behind the 255 bytes allocated.\<close>

definition TABLE :: "byte list" where
  "TABLE = replicate 2 0 @ replicate 2 1 @ replicate 4 2 @ replicate 8 3 @ replicate 16 4 @
     replicate 32 5 @ replicate 64 6 @ replicate 128 7"

definition CBIAS :: u16 where "CBIAS = 0x84"
definition CCLIP :: u16 where "CCLIP = 32635"

definition encode_sample :: "u16 \<Rightarrow> byte" where
  "encode_sample sample =
     (let sign = signed_drop_bit 8 sample AND 0x80;
          magnitude = (if sign \<noteq> 0 then - sample else sample);
          clipped = (if sint magnitude > uint CCLIP then CCLIP else magnitude);
          biased = clipped + CBIAS;
          exponent = TABLE ! unat (signed_drop_bit 7 biased AND 0xFF);
          mantissa = signed_drop_bit (unat exponent + 3) biased AND 0x0F in
      ucast (NOT (sign OR ucast (push_bit 4 exponent) OR mantissa)))"

text \<open>The mantissa is a byte, and so is the shifted mantissa.\<close>

definition decode_sample :: "byte \<Rightarrow> u16" where
  "decode_sample ulawbyte =
     (let u = NOT ulawbyte; sign = u AND 0x80; exponent = drop_bit 4 u AND 0x07; mantissa = u AND 0x0F;
          sample = word_of_int (EXP_LUT ! unat exponent + uint (push_bit (unat exponent + 3) mantissa)) in
      if sign \<noteq> 0 then - sample else sample)"

section \<open>Reference decoder\<close>

text \<open>G.711: sign, exponent and mantissa of the complemented byte.\<close>

definition ulaw_sign :: "byte \<Rightarrow> bool" where
  "ulaw_sign b \<longleftrightarrow> \<not> bit b 7"

definition ulaw_exp :: "byte \<Rightarrow> nat" where
  "ulaw_exp b = unat (drop_bit 4 (NOT b) AND 7)"

definition ulaw_man :: "byte \<Rightarrow> nat" where
  "ulaw_man b = unat (NOT b AND 15)"

definition ulaw_ref :: "byte \<Rightarrow> int" where
  "ulaw_ref b = (let m = (2 * int (ulaw_man b) + 33) * 2 ^ (ulaw_exp b + 2) - 132 in
     if ulaw_sign b then - m else m)"

definition clip :: "int \<Rightarrow> int" where
  "clip s = max (- 32635) (min 32635 s)"

section \<open>Fields\<close>

lemma bit_0x80: "bit (0x80 :: u16) n \<longleftrightarrow> n = 7"
proof -
  have "(0x80 :: u16) = 2 ^ 7" by simp
  then show ?thesis by (simp only: bit_exp_iff possible_bit_word) auto
qed

lemma sign_bit: "signed_drop_bit 8 (s :: u16) AND 0x80 = (if bit s 15 then 0x80 else 0)"
  by (rule bit_word_eqI) (auto simp: bit_and_iff bit_0x80 bit_signed_drop_bit_iff simp del: bit_numeral_word_iff)

lemma sint_small: "b < 32768 \<Longrightarrow> sint (of_nat b :: u16) = int b"
  by (simp add: signed_of_nat signed_take_bit_int_eq_self)

lemma small_shift:
  assumes "b < 32768"
  shows "signed_drop_bit k (of_nat b :: u16) = of_nat (b div 2 ^ k)"
proof (rule signed_word_eqI)
  have "b div 2 ^ k < 32768" using assms by (meson div_le_dividend le_less_trans)
  then show "sint (signed_drop_bit k (of_nat b :: u16)) = sint (of_nat (b div 2 ^ k) :: u16)"
    using assms by (simp add: sint_signed_drop_bit_eq sint_small drop_bit_eq_div zdiv_int)
qed

lemma and_mask_16: "w AND 0xFF = take_bit 8 w" "w AND 15 = take_bit 4 w" for w :: u16
  by (simp_all add: take_bit_eq_mask mask_eq_exp_minus_1)

lemma and_mask_byte: "w AND 7 = take_bit 3 w" "w AND 15 = take_bit 4 w" for w :: byte
  by (simp_all add: take_bit_eq_mask mask_eq_exp_minus_1)

text \<open>A byte put together from sign, exponent and mantissa has these fields.\<close>

definition ulaw_byte :: "bool \<Rightarrow> nat \<Rightarrow> nat \<Rightarrow> byte" where
  "ulaw_byte s e m = NOT (of_nat ((if s then 128 else 0) + 16 * e + m))"

lemma unat_field:
  assumes "n < 256"
  shows "unat (drop_bit k (of_nat n :: byte) AND mask j) = n div 2 ^ k mod 2 ^ j"
proof -
  have n: "unat (of_nat n :: byte) = n" using assms by (simp add: unat_of_nat)
  then have "unat (take_bit j (drop_bit k (of_nat n :: byte))) = take_bit j (drop_bit k n)"
    unfolding unsigned_take_bit_eq unsigned_drop_bit_eq n using assms
    by (simp add: take_bit_nat_eq_self)
  then show ?thesis unfolding take_bit_eq_mask [symmetric] by (simp add: drop_bit_eq_div take_bit_eq_mod)
qed

lemma bit_7_of_nat: "n < 256 \<Longrightarrow> bit (of_nat n :: byte) 7 \<longleftrightarrow> 128 \<le> n"
proof -
  assume n: "n < 256"
  have "bit (of_nat n :: byte) 7 \<longleftrightarrow> bit (unat (of_nat n :: byte)) 7" by (simp add: bit_unsigned_iff)
  also have "unat (of_nat n :: byte) = n" using n by (simp add: unat_of_nat)
  also have "bit n 7 \<longleftrightarrow> 128 \<le> n" using n div_nat_eqI [of 128 1 n] by (cases "128 \<le> n") (simp_all add: bit_iff_odd)
  finally show ?thesis .
qed

lemma ulaw_fields:
  assumes "e < 8" and "m < 16"
  shows "ulaw_sign (ulaw_byte s e m) = s" "ulaw_exp (ulaw_byte s e m) = e" "ulaw_man (ulaw_byte s e m) = m"
proof -
  let ?n = "(if s then 128 else 0) + 16 * e + m"
  have n: "?n < 256" using assms by simp
  show "ulaw_sign (ulaw_byte s e m) = s"
    using bit_7_of_nat [OF n] assms by (auto simp: ulaw_sign_def ulaw_byte_def bit_simps simp del: of_nat_add)
  have "?n div 16 mod 8 = e"
  proof (cases s)
    case True
    then have "?n = (8 + e) * 16 + m" by simp
    then show ?thesis using assms by (simp only: div_mult_self3) simp
  qed (use assms in simp)
  then show "ulaw_exp (ulaw_byte s e m) = e"
    using unat_field [OF n, of 4 3] unfolding ulaw_exp_def ulaw_byte_def by (simp add: mask_eq_exp_minus_1)
  have "?n mod 16 = m"
  proof (cases s)
    case True
    then have "?n = (8 + e) * 16 + m" by simp
    then show ?thesis using assms by (simp only: mod_mult_self3) simp
  qed (use assms in simp)
  then show "ulaw_man (ulaw_byte s e m) = m"
    using unat_field [OF n, of 0 4] unfolding ulaw_man_def ulaw_byte_def by (simp add: mask_eq_exp_minus_1)
qed

lemma ucast_minus_1 [simp]: "ucast (- 1 :: u16) = (- 1 :: byte)"
  by (simp add: bit_eq_iff bit_simps)

lemma take_bit_4_of_nat: "take_bit 4 (of_nat n :: u16) = of_nat (n mod 16)"
  by transfer (simp add: take_bit_eq_mod zmod_int mod_mod_cancel)

lemma ulaw_assemble_all:
  "list_all (\<lambda>e. list_all (\<lambda>m. list_all (\<lambda>s.
     ucast (NOT ((if s then 0x80 else 0) OR ucast (push_bit 4 (of_nat e :: byte)) OR of_nat m :: u16)) =
     ulaw_byte s e m) [True, False]) [0..<16]) [0..<8]"
  by (simp add: upt_rec ulaw_byte_def)

lemma table_entry:
  assumes "2 ^ e \<le> k" and "k < 2 * 2 ^ e" and "e < 8"
  shows "TABLE ! k = of_nat e"
proof -
  consider "e = 0" | "e = 1" | "e = 2" | "e = 3" | "e = 4" | "e = 5" | "e = 6" | "e = 7" using assms(3) by linarith
  then show ?thesis using assms(1,2) by cases (auto simp: TABLE_def nth_append)
qed

lemma exponent_exists:
  assumes "128 \<le> b" and "b < 32768"
  shows "\<exists>e < 8. 2 ^ e \<le> b div 128 \<and> b div 128 < 2 * (2 :: nat) ^ e"
proof -
  have k: "1 \<le> b div 128" "b div 128 < 256" using assms by auto
  obtain e where e: "2 ^ e \<le> b div 128" "b div 128 < 2 ^ (e + 1)"
    using ex_power_ivl1 [of 2 "b div 128"] k(1) by auto
  have "(2 :: nat) ^ e < 2 ^ 8" using e(1) k(2) by simp
  then have "e < 8" by (simp only: power_strict_increasing_iff)
  then show ?thesis using e by auto
qed

lemma ulaw_assemble:
  assumes "e < 8" and "m < 16"
  shows "ucast (NOT ((if s then 0x80 else 0) OR ucast (push_bit 4 (of_nat e :: byte)) OR of_nat m :: u16)) =
    ulaw_byte s e m"
proof -
  have "e \<in> set [0..<8]" "m \<in> set [0..<16]" "s \<in> set [True, False]" using assms by auto
  then show ?thesis using ulaw_assemble_all unfolding list_all_iff by blast
qed

section \<open>The encoder\<close>

definition magnitude :: "u16 \<Rightarrow> nat" where
  "magnitude s = nat (min 32635 \<bar>sint s\<bar>)"

lemma sint_range: "- 32768 \<le> sint (s :: u16)" "sint (s :: u16) \<le> 32767"
  using sint_greater_eq [of s] sint_less [of s] by simp_all

lemma bit_15: "bit (s :: u16) 15 \<longleftrightarrow> sint s < 0"
  by (simp add: bit_last_iff [of s, simplified])

lemma negated: "sint s \<noteq> - 32768 \<Longrightarrow> sint (- s) = - sint (s :: u16)"
  using sint_range [of s] by (simp add: sint_word_ariths signed_take_bit_int_eq_self)

lemma biased_sample:
  assumes "sint s \<noteq> - 32768"
  shows "(let m = (if sint s < 0 then - s else s) in
    (if sint m > uint CCLIP then CCLIP else m) + CBIAS) = of_nat (magnitude s + 132)"
proof -
  define m where "m = (if sint s < 0 then - s else s)"
  define c where "c = (if sint m > uint CCLIP then CCLIP else m)"
  have "sint m = \<bar>sint s\<bar>" using negated [OF assms] by (auto simp: m_def)
  then have "sint c = int (magnitude s)" by (auto simp: c_def magnitude_def CCLIP_def)
  moreover have "magnitude s < 32768" by (simp add: magnitude_def)
  ultimately have "sint c = sint (of_nat (magnitude s) :: u16)" by (simp only: sint_small)
  then have "c = of_nat (magnitude s)" by (rule injD [OF inj_signed])
  then have "c + CBIAS = of_nat (magnitude s + 132)" by (simp add: CBIAS_def)
  then show ?thesis by (simp only: Let_def m_def [symmetric] c_def [symmetric])
qed

lemma encode_fields:
  assumes "sint s \<noteq> - 32768" and "e < 8"
    and "2 ^ e \<le> (magnitude s + 132) div 128" and "(magnitude s + 132) div 128 < 2 * 2 ^ e"
  shows "encode_sample s = ulaw_byte (sint s < 0) e ((magnitude s + 132) div 2 ^ (e + 3) mod 16)"
proof -
  let ?b = "magnitude s + 132"
  have b: "?b < 32768" by (simp add: magnitude_def)
  have sign: "signed_drop_bit 8 s AND 0x80 = (if sint s < 0 then 0x80 else 0)"
    by (simp only: sign_bit bit_15)
  have nonzero: "(if P then 0x80 else 0 :: u16) \<noteq> 0 \<longleftrightarrow> P" for P by simp
  have "signed_drop_bit 7 (of_nat ?b :: u16) AND 0xFF = of_nat (?b div 128)"
    unfolding and_mask_16 using small_shift [OF b, of 7] b
    by (simp add: take_bit_of_nat of_nat_take_bit take_bit_nat_eq_self del: of_nat_add)
  then have "unat (signed_drop_bit 7 (of_nat ?b :: u16) AND 0xFF) = ?b div 128"
    using b by (simp add: unat_of_nat del: of_nat_add)
  then have exp: "TABLE ! unat (signed_drop_bit 7 (of_nat ?b :: u16) AND 0xFF) = of_nat e"
    using table_entry [OF assms(3,4,2)] by simp
  have e: "unat (of_nat e :: byte) = e" using assms(2) by (simp add: unat_of_nat)
  have man: "signed_drop_bit (e + 3) (of_nat ?b :: u16) AND 0x0F = of_nat (?b div 2 ^ (e + 3) mod 16)"
    unfolding and_mask_16 small_shift [OF b] by (rule take_bit_4_of_nat)
  have "encode_sample s = ucast (NOT ((if sint s < 0 then 0x80 else 0) OR
      ucast (push_bit 4 (of_nat e :: byte)) OR of_nat (?b div 2 ^ (e + 3) mod 16) :: u16))"
    by (simp only: encode_sample_def Let_def sign nonzero biased_sample [OF assms(1), unfolded Let_def] exp e man)
  also have "\<dots> = ulaw_byte (sint s < 0) e (?b div 2 ^ (e + 3) mod 16)"
    by (rule ulaw_assemble) (simp_all add: assms(2))
  finally show ?thesis .
qed

lemma ulaw_ref_byte:
  assumes "e < 8" and "m < 16"
  shows "ulaw_ref (ulaw_byte s e m) =
    (if s then - ((2 * int m + 33) * 2 ^ (e + 2) - 132) else (2 * int m + 33) * 2 ^ (e + 2) - 132)"
  using assms by (simp add: ulaw_ref_def ulaw_fields Let_def)

lemma ulaw_byte_fields: "ulaw_byte (ulaw_sign b) (ulaw_exp b) (ulaw_man b) = b"
  "ulaw_exp b < 8" "ulaw_man b < 16"
proof -
  let ?u = "unat (NOT b)"
  have u: "?u < 256" using unsigned_less [where 'a = nat, of "NOT b"] by simp
  then have "take_bit 8 ?u = ?u" by (simp add: take_bit_nat_eq_self)
  then have "unat (take_bit 3 (drop_bit 4 (NOT b))) = take_bit 3 (drop_bit 4 ?u)"
      "unat (take_bit 4 (NOT b)) = take_bit 4 ?u"
    by (simp_all only: unsigned_take_bit_eq unsigned_drop_bit_eq len_of_numeral_defs) simp_all
  then have e: "ulaw_exp b = ?u div 16 mod 8" and m: "ulaw_man b = ?u mod 16"
    unfolding ulaw_exp_def ulaw_man_def and_mask_byte
    by (simp_all only: take_bit_eq_mod drop_bit_eq_div) simp_all
  have "bit (NOT b) 7 \<longleftrightarrow> ulaw_sign b" by (simp add: ulaw_sign_def bit_simps)
  then have s: "ulaw_sign b \<longleftrightarrow> 128 \<le> ?u" using bit_7_of_nat [OF u] by simp
  have "(if ulaw_sign b then 128 else 0) + 16 * ulaw_exp b + ulaw_man b = ?u"
  proof -
    have "?u div 128 = (if 128 \<le> ?u then 1 else 0)" using u div_nat_eqI [of 128 1 ?u] by simp
    moreover have "?u div 128 * 8 + ?u div 16 mod 8 = ?u div 16"
      using div_mult_mod_eq [of "?u div 16" 8] by (simp add: div_mult2_eq [symmetric])
    then have "(?u div 128 * 8 + ?u div 16 mod 8) * 16 + ?u mod 16 = ?u" by (simp only: div_mult_mod_eq)
    ultimately show ?thesis unfolding e m s by (simp only: split: if_splits) simp_all
  qed
  then show "ulaw_byte (ulaw_sign b) (ulaw_exp b) (ulaw_man b) = b"
    by (simp only: ulaw_byte_def) simp
  show "ulaw_exp b < 8" "ulaw_man b < 16" by (simp_all add: e m)
qed

text \<open>The step of the encoder around a biased magnitude.\<close>

lemma quantise:
  assumes "(2 :: nat) ^ e \<le> b div 128" and "b div 128 < 2 * 2 ^ e"
  shows "\<bar>(2 * int (b div 2 ^ (e + 3) mod 16) + 33) * 2 ^ (e + 2) - int b\<bar> \<le> 2 ^ (e + 2)"
    and "32 * 2 ^ (e + 2) \<le> int b"
proof -
  let ?q = "b div 2 ^ (e + 3)" and ?s = "2 ^ (e + 2) :: nat"
  have lo: "32 * ?s \<le> b" and hi: "b < 64 * ?s"
    using assms by (simp_all add: less_eq_div_iff_mult_less_eq div_less_iff_less_mult)
  have p: "2 ^ (e + 3) = 2 * ?s" by (simp add: power_add)
  have q: "16 \<le> ?q" "?q < 32" unfolding p using lo hi
    by (simp_all add: less_eq_div_iff_mult_less_eq div_less_iff_less_mult)
  then have "?q mod 16 = ?q - 16" by (simp add: mod_nat_eqI)
  then have m: "2 * int (?q mod 16) + 33 = 2 * int ?q + 1" using q(1) by simp
  have b: "b = ?q * (2 * ?s) + b mod (2 * ?s)" and r: "b mod (2 * ?s) < 2 * ?s"
    unfolding p by (simp_all only: div_mult_mod_eq) simp
  have "(2 * int ?q + 1) * int ?s - int b = int ?s - int (b mod (2 * ?s))"
    by (subst (2) b) (simp add: algebra_simps)
  then show "\<bar>(2 * int (?q mod 16) + 33) * 2 ^ (e + 2) - int b\<bar> \<le> 2 ^ (e + 2)"
    unfolding m using of_nat_less_iff [where 'a = int, THEN iffD2, OF r] by simp
  show "32 * 2 ^ (e + 2) \<le> int b" using of_nat_le_iff [where 'a = int, THEN iffD2, OF lo] by simp
qed

lemma encode_cases:
  assumes "sint s \<noteq> - 32768"
  obtains e where "e < 8" and "2 ^ e \<le> (magnitude s + 132) div 128" and "(magnitude s + 132) div 128 < 2 * 2 ^ e"
    and "encode_sample s = ulaw_byte (sint s < 0) e ((magnitude s + 132) div 2 ^ (e + 3) mod 16)"
proof -
  have "magnitude s + 132 < 32768" by (simp add: magnitude_def)
  then obtain e where e: "e < 8" "2 ^ e \<le> (magnitude s + 132) div 128" "(magnitude s + 132) div 128 < 2 * 2 ^ e"
    using exponent_exists [of "magnitude s + 132"] by auto
  show ?thesis by (rule that [OF e encode_fields [OF assms e]])
qed

lemma clip_magnitude: "clip (sint (s :: u16)) = (if sint s < 0 then - int (magnitude s) else int (magnitude s))"
  by (auto simp: clip_def magnitude_def)

text \<open>Half a step of the segment of the code word, around the clipped sample.\<close>

lemma half_step:
  assumes "sint s \<noteq> - 32768"
  shows "\<bar>ulaw_ref (encode_sample s) - clip (sint s)\<bar> \<le> 2 ^ (ulaw_exp (encode_sample s) + 2)"
proof -
  obtain e where e: "e < 8" "2 ^ e \<le> (magnitude s + 132) div 128" "(magnitude s + 132) div 128 < 2 * 2 ^ e"
    and enc: "encode_sample s = ulaw_byte (sint s < 0) e ((magnitude s + 132) div 2 ^ (e + 3) mod 16)"
    using encode_cases [OF assms] by blast
  define r :: int where "r = (2 * int ((magnitude s + 132) div 2 ^ (e + 3) mod 16) + 33) * 2 ^ (e + 2) - 132"
  have ref: "ulaw_ref (encode_sample s) = (if sint s < 0 then - r else r)"
    unfolding enc r_def by (rule ulaw_ref_byte) (simp_all add: e(1))
  have exp: "ulaw_exp (encode_sample s) = e" unfolding enc by (rule ulaw_fields(2) [OF e(1)]) simp
  have "\<bar>r - int (magnitude s)\<bar> \<le> 2 ^ (e + 2)"
    using quantise(1) [OF e(2,3)] by (simp add: r_def del: power_add)
  then show ?thesis unfolding ref exp clip_magnitude by (auto simp: abs_if split: if_splits)
qed

lemma encode_loud:
  assumes "sint s \<noteq> - 32768" and "32635 \<le> \<bar>sint s\<bar>"
  shows "encode_sample s = ulaw_byte (sint s < 0) 7 15"
proof -
  have "magnitude s = 32635" using assms(2) by (simp add: magnitude_def)
  then show ?thesis using encode_fields [OF assms(1), of 7] by simp
qed

lemma loud_error:
  assumes "sint s \<noteq> - 32768" and "32636 < \<bar>sint s\<bar>"
  shows "2 ^ (ulaw_exp (encode_sample s) + 2) < \<bar>ulaw_ref (encode_sample s) - sint s\<bar>"
proof -
  have "encode_sample s = ulaw_byte (sint s < 0) 7 15" using assms by (intro encode_loud) simp_all
  then show ?thesis using assms(2) by (auto simp: ulaw_ref_byte ulaw_fields abs_if split: if_splits)
qed

lemma encode_min: "encode_sample 0x8000 = 0x7F"
  by (simp add: encode_sample_def CCLIP_def CBIAS_def TABLE_def nth_append Let_def)

lemma ref_0x7F: "ulaw_ref 0x7F = 0"
  by (simp add: ulaw_ref_def ulaw_man_def ulaw_exp_def)

lemma ref_magnitude:
  fixes m e :: nat
  assumes "e < 8" and "m < 16"
  shows "0 \<le> (2 * int m + 33) * 2 ^ (e + 2) - 132" "(2 * int m + 33) * 2 ^ (e + 2) - 132 \<le> 32635"
    "(2 * int m + 33) * 2 ^ (e + 2) = 132 \<longleftrightarrow> e = 0 \<and> m = 0"
proof -
  have "e = 0 \<or> e = 1 \<or> e = 2 \<or> e = 3 \<or> e = 4 \<or> e = 5 \<or> e = 6 \<or> e = 7" using assms(1) by linarith
  then show "0 \<le> (2 * int m + 33) * 2 ^ (e + 2) - 132" "(2 * int m + 33) * 2 ^ (e + 2) - 132 \<le> 32635"
    "(2 * int m + 33) * 2 ^ (e + 2) = 132 \<longleftrightarrow> e = 0 \<and> m = 0"
    using assms(2) by (elim disjE; simp; arith)+
qed

lemma encode_ref:
  "encode_sample (word_of_int (ulaw_ref b)) = (if b = 0x7F then 0xFF else b)"
proof -
  let ?e = "ulaw_exp b" and ?m = "ulaw_man b"
  define r where "r = (2 * int ?m + 33) * 2 ^ (?e + 2) - 132"
  define s :: u16 where "s = word_of_int (ulaw_ref b)"
  note f = ulaw_byte_fields [of b]
  have r: "0 \<le> r" "r \<le> 32635" "r = 0 \<longleftrightarrow> ?e = 0 \<and> ?m = 0"
    using ref_magnitude [OF f(2,3)] by (simp_all add: r_def)
  have ref: "ulaw_ref b = (if ulaw_sign b then - r else r)" by (simp add: ulaw_ref_def r_def Let_def)
  have s: "sint s = ulaw_ref b" using r by (simp add: s_def ref signed_of_int signed_take_bit_int_eq_self)
  then have mag: "int (magnitude s) = r" using r by (simp add: magnitude_def ref)
  have b: "int (magnitude s + 132) = int ((2 * ?m + 33) * 2 ^ (?e + 2))" by (simp add: mag r_def)
  then have b: "magnitude s + 132 = (2 * ?m + 33) * 2 ^ (?e + 2)" by (simp only: of_nat_eq_iff)
  have "(2 * ?m + 33) * 2 ^ (?e + 2) div 2 ^ (?e + 3) = ?m + 16"
    by (simp add: power_add div_mult2_eq [symmetric] mult.commute [of _ "2 ^ ?e"]) 
  then have man: "(magnitude s + 132) div 2 ^ (?e + 3) mod 16 = ?m" using f(3) by (simp add: b)
  have "2 ^ ?e \<le> (magnitude s + 132) div 128" "(magnitude s + 132) div 128 < 2 * 2 ^ ?e"
    using f(3) by (simp_all add: b less_eq_div_iff_mult_less_eq div_less_iff_less_mult)
  from encode_fields [OF _ f(2) this] have enc: "encode_sample s = ulaw_byte (ulaw_ref b < 0) ?e ?m"
    using r by (simp add: man s ref)
  show ?thesis
  proof (cases "ulaw_sign b \<and> r = 0")
    case True
    then have "b = ulaw_byte True 0 0" using f(1) r(3) by metis
    then have "b = 0x7F" by (simp add: ulaw_byte_def)
    moreover have "ulaw_byte False 0 0 = 0xFF" by (simp add: ulaw_byte_def)
    ultimately show ?thesis using enc True r(3) ref_0x7F by (simp add: s_def)
  next
    case False
    have "ulaw_sign 0x7F" by (simp add: ulaw_sign_def)
    then have "b \<noteq> 0x7F" using False ref ref_0x7F by auto
    moreover have "ulaw_ref b < 0 \<longleftrightarrow> ulaw_sign b" using False r(1) by (auto simp: ref)
    ultimately show ?thesis using enc f(1) by (simp add: s_def)
  qed
qed

lemma EXP_LUT_nth: "e < 8 \<Longrightarrow> EXP_LUT ! e = 132 * 2 ^ e - 132"
proof -
  assume "e < 8"
  then have "e = 0 \<or> e = 1 \<or> e = 2 \<or> e = 3 \<or> e = 4 \<or> e = 5 \<or> e = 6 \<or> e = 7" by linarith
  then show ?thesis by (elim disjE) (simp_all add: EXP_LUT_def)
qed

lemma decode_value:
  "sint (decode_sample b) = (if ulaw_sign b then - 1 else 1) *
     (\<bar>ulaw_ref b\<bar> - 256 * (int (ulaw_man b * 2 ^ (ulaw_exp b + 3)) div 256))"
proof -
  let ?e = "ulaw_exp b" and ?m = "ulaw_man b"
  note f = ulaw_byte_fields [of b]
  define t where "t = int (?m * 2 ^ (?e + 3))"
  define d where "d = EXP_LUT ! ?e + t mod 256"
  have "bit (NOT b AND 0x80) n \<longleftrightarrow> n = 7 \<and> ulaw_sign b" for n
    using bit_0x80_byte [of n] by (auto simp: bit_and_iff bit_not_iff_eq ulaw_sign_def simp del: bit_numeral_word_iff)
  then have sign: "NOT b AND 0x80 \<noteq> 0 \<longleftrightarrow> ulaw_sign b" by (metis bit_eq_iff bit_0_eq bot_apply bot_bool_def)
  have "uint (push_bit (?e + 3) (NOT b AND 0x0F)) = take_bit 8 (push_bit (?e + 3) (uint (NOT b AND 0x0F)))"
    unfolding unsigned_push_bit_eq by simp
  also have "\<dots> = t mod 256"
    by (simp only: ulaw_man_def t_def push_bit_eq_mult take_bit_eq_mod uint_nat) simp
  finally have dec: "decode_sample b = (if ulaw_sign b then - word_of_int d else word_of_int d)"
    by (simp only: decode_sample_def Let_def sign d_def ulaw_exp_def and.commute)
  have "?e \<le> 7" using f(2) by simp
  then have "(2 :: int) ^ ?e \<le> 2 ^ 7" by (rule power_increasing) simp
  then have d: "d = 132 * 2 ^ ?e - 132 + t mod 256" "0 \<le> d" "d < 32768"
    using EXP_LUT_nth [OF f(2)] by (simp_all add: d_def)
  have "sint (word_of_int d :: u16) = d" using d(2,3) by (simp add: signed_of_int signed_take_bit_int_eq_self)
  then have "sint (decode_sample b) = (if ulaw_sign b then - 1 else 1) * d"
    using negated [of "word_of_int d"] d(2) by (simp add: dec)
  moreover have "\<bar>ulaw_ref b\<bar> = t + (132 * 2 ^ ?e - 132)"
    using ref_magnitude(1) [OF f(2,3)] by (simp add: ulaw_ref_def Let_def t_def power_add algebra_simps)
  moreover have "t mod 256 = t - 256 * (t div 256)" by (rule minus_mult_div_eq_mod [symmetric])
  ultimately show ?thesis unfolding t_def [symmetric] d(1) by simp
qed

lemma int_div_256: "int n div 256 = 0 \<longleftrightarrow> n < 256"
  by linarith

section \<open>What the codec does\<close>

text \<open>
  (C29) The encoder quantises to half a step: what the reference decoder makes of the code word is at
  most half a step of the code word's segment (\<open>2 ^ (e + 2)\<close> in segment \<open>e\<close>) away from the sample,
  exactly for the samples of magnitude at most 32636. Louder ones are clipped to 32635 first, and are
  within half a step of that. The one exception is the most negative sample, whose negation wraps: it
  is sent as the code word of negative zero.
\<close>

theorem mulaw_quantisation:
  "(\<bar>ulaw_ref (encode_sample s) - sint s\<bar> \<le> 2 ^ (ulaw_exp (encode_sample s) + 2) \<longleftrightarrow> \<bar>sint s\<bar> \<le> 32636) \<and>
   (\<bar>ulaw_ref (encode_sample s) - clip (sint s)\<bar> \<le> 2 ^ (ulaw_exp (encode_sample s) + 2) \<longleftrightarrow> s \<noteq> 0x8000) \<and>
   encode_sample 0x8000 = 0x7F"
proof (cases "s = 0x8000")
  case True
  then show ?thesis by (simp add: encode_min ref_0x7F clip_def ulaw_exp_def)
next
  case False
  then have s: "sint s \<noteq> - 32768" using injD [OF inj_signed, of s "0x8000"] by auto
  note h = half_step [OF s]
  have "\<bar>ulaw_ref (encode_sample s) - sint s\<bar> \<le> 2 ^ (ulaw_exp (encode_sample s) + 2)" if "\<bar>sint s\<bar> \<le> 32636"
  proof (cases "\<bar>sint s\<bar> \<le> 32635")
    case True
    then have "clip (sint s) = sint s" by (auto simp: clip_def)
    then show ?thesis using h by simp
  next
    case loud: False
    then have "encode_sample s = ulaw_byte (sint s < 0) 7 15" using s by (intro encode_loud) simp_all
    then show ?thesis using loud that by (auto simp: ulaw_ref_byte ulaw_fields abs_if split: if_splits)
  qed
  then show ?thesis using h loud_error [OF s] False by (auto simp: encode_min not_le [symmetric])
qed

text \<open>
  Encoding inverts the reference decoder: every code word but one is the encoding of the sample it
  stands for, and negative zero becomes positive zero.
\<close>

theorem mulaw_encode_inverse:
  "encode_sample (word_of_int (ulaw_ref b)) = (if b = 0x7F then 0xFF else b)"
  by (rule encode_ref)

text \<open>
  (C30) The decoder of the code is the reference decoder only on the code words whose shifted mantissa
  fits into a byte, for the shift is a shift of a byte: it loses a multiple of 256 of the magnitude on
  the others, nearly all of the four loudest segments.
\<close>

theorem mulaw_decode_truncates:
  "sint (decode_sample b) = (if ulaw_sign b then - 1 else 1) *
     (\<bar>ulaw_ref b\<bar> - 256 * (int (ulaw_man b * 2 ^ (ulaw_exp b + 3)) div 256)) \<and>
   (sint (decode_sample b) = ulaw_ref b \<longleftrightarrow> ulaw_man b * 2 ^ (ulaw_exp b + 3) < 256)"
proof
  let ?t = "ulaw_man b * 2 ^ (ulaw_exp b + 3)" and ?sg = "if ulaw_sign b then - 1 else 1 :: int"
  show v: "sint (decode_sample b) = ?sg * (\<bar>ulaw_ref b\<bar> - 256 * (int ?t div 256))" by (rule decode_value)
  have "ulaw_ref b = ?sg * \<bar>ulaw_ref b\<bar>"
    using ref_magnitude(1) [OF ulaw_byte_fields(2,3) [of b]] by (simp add: ulaw_ref_def Let_def)
  then have "sint (decode_sample b) = ulaw_ref b \<longleftrightarrow> int ?t div 256 = 0"
    unfolding v by (auto split: if_splits)
  also have "\<dots> \<longleftrightarrow> ?t < 256" by (rule int_div_256)
  finally show "sint (decode_sample b) = ulaw_ref b \<longleftrightarrow> ?t < 256" .
qed

text \<open>The loudest sample comes back at half its size, as the test of the repository expects of 0x2e.\<close>

lemma decode_examples:
  "sint (decode_sample (encode_sample 32635)) = 16764" "ulaw_ref (encode_sample 32635) = 32124"
  "sint (decode_sample 0x2e) = - 4092" "ulaw_ref 0x2e = - 4348"
  by (simp_all add: decode_sample_def encode_sample_def EXP_LUT_def TABLE_def CCLIP_def CBIAS_def nth_append
      Let_def ulaw_ref_def ulaw_sign_def ulaw_exp_def ulaw_man_def)

end
