(* ===== verification/Rtp_Transport.thy ===== *)
theory Rtp_Transport
  imports Codec_Mulaw Srtp_Packet
begin

text \<open>
  The plain RTP transport of the application: forming and taking apart packets
  (\<open>src/src/transport/generic.cr\<close>, which \<open>Transport::RTP\<close> uses as it is) and the jitter buffer of
  received payloads (\<open>src/src/transport/jitter_buffer.cr\<close>) with its callback, the decoder of the codec
  (\<open>src/src/codec\<close>). A packet formed here is also read with the header functions of \<open>srtp.c\<close>.
\<close>

section \<open>The jitter buffer\<close>

record jitter_buffer =
  jb_buffer :: "(int \<times> bytes) list"
  room :: nat

definition jitter_new :: "nat \<Rightarrow> jitter_buffer" where
  "jitter_new n = \<lparr>jb_buffer = [], room = n\<rparr>"

text \<open>\<open>check\<close> only prints; its result here is whether it does.\<close>

fun check_from :: "int \<Rightarrow> (int \<times> bytes) list \<Rightarrow> bool" where
  "check_from order [] = False"
| "check_from order (a # as) = (if fst a \<noteq> order + 1 then True else check_from (fst a) as)"

definition jb_check :: "jitter_buffer \<Rightarrow> bool crystal" where
  "jb_check j = (case jb_buffer j of [] \<Rightarrow> Inl IndexError | a # as \<Rightarrow> Inr (check_from (fst a) as))"

definition ready :: "jitter_buffer \<Rightarrow> bool" where
  "ready j \<longleftrightarrow> length (jb_buffer j) > room j"

definition pull :: "jitter_buffer \<Rightarrow> (bytes option \<times> jitter_buffer) crystal" where
  "pull j = (if ready j then (case jb_buffer j of [] \<Rightarrow> Inl IndexError
       | a # as \<Rightarrow> Inr (Some (snd a), j\<lparr>jb_buffer := as\<rparr>))
     else Inr (None, j))"

text \<open>
  The codecs a transport is made with, and their \<open>decode\<close>: \<open>Codec::Opus\<close> defines none, so that the one
  of \<open>Codec::Generic\<close> runs, which raises.
\<close>

datatype codec = MuLaw | Opus

fun decode :: "codec \<Rightarrow> bytes \<Rightarrow> u16 list crystal" where
  "decode MuLaw encoded = Inr (map decode_sample encoded)"
| "decode Opus encoded = Inl NotImplemented"

text \<open>
  \<open>Array#sort\<close> with a block returns a sorted copy (\<open>sort!\<close> sorts in place); \<open>feed\<close> drops the copy. The
  transport always sets the callback, which decodes what \<open>pull\<close> returns and drops the samples. The
  result says what it was called with.
\<close>

definition feed :: "codec \<Rightarrow> jitter_buffer \<Rightarrow> bytes \<Rightarrow> int \<Rightarrow> (bytes option \<times> jitter_buffer) crystal" where
  "feed c j data seq =
     (let j1 = j\<lparr>jb_buffer := jb_buffer j @ [(seq, data)]\<rparr> in
      sbind (jb_check j1) (\<lambda>printed.
      let copy = sort_key fst (jb_buffer j1) in
      sbind (pull j1) (\<lambda>(something_to_pump, j2).
      case something_to_pump of None \<Rightarrow> Inr (None, j2)
      | Some d \<Rightarrow> sbind (decode c d) (\<lambda>raw. Inr (Some d, j2)))))"

section \<open>RTP packets\<close>

text \<open>\<open>@seq_no\<close> and the timestamp are \<open>Int32\<close>.\<close>

definition form_rtp :: "u32 \<Rightarrow> u32 \<Rightarrow> u32 \<Rightarrow> bytes \<Rightarrow> bytes" where
  "form_rtp seq_no samples_per_frame media_profile_pt payload =
     (let pt = ucast media_profile_pt :: byte; timestamp = seq_no * samples_per_frame in
      [0x80, if seq_no = 1 then pt OR 0x80 else pt,
       ucast (signed_drop_bit 8 (seq_no AND 0xff00)), ucast (seq_no AND 0x00ff),
       ucast (signed_drop_bit 24 (timestamp AND 0xff000000)), ucast (signed_drop_bit 16 (timestamp AND 0x00ff0000)),
       ucast (signed_drop_bit 8 (timestamp AND 0x0000ff00)), ucast (timestamp AND 0x000000ff),
       0x01, 0x02, 0x03, 0x04] @ payload)"

definition handle_rtp :: "codec \<Rightarrow> jitter_buffer \<Rightarrow> bytes \<Rightarrow> (bytes option \<times> jitter_buffer) crystal" where
  "handle_rtp c j payload =
     sbind (slice payload 0 12) (\<lambda>header.
     sbind (slice header 2 2) (\<lambda>s.
     sbind (slice payload 12 (length payload - 12)) (\<lambda>data. feed c j data (uint (decode16 s)))))"

text \<open>
  The datagrams of a session, one after the other, and the payloads the decoder gets. \<open>listen\<close> rescues
  only \<open>Errno\<close>, so that an exception ends the reception.
\<close>

fun receive_all :: "codec \<Rightarrow> jitter_buffer \<Rightarrow> bytes list \<Rightarrow> (bytes list \<times> jitter_buffer) crystal" where
  "receive_all c j [] = Inr ([], j)"
| "receive_all c j (p # ps) = sbind (handle_rtp c j p) (\<lambda>(out, j1).
     sbind (receive_all c j1 ps) (\<lambda>(outs, j2). Inr ((case out of None \<Rightarrow> outs | Some d \<Rightarrow> d # outs), j2)))"


section \<open>The buffer is a queue\<close>

lemma feed_queue:
  "feed c j data seq = (if length (jb_buffer j) < room j then Inr (None, j\<lparr>jb_buffer := jb_buffer j @ [(seq, data)]\<rparr>)
     else if c = Opus then Inl NotImplemented
     else Inr (Some (snd (hd (jb_buffer j @ [(seq, data)]))), j\<lparr>jb_buffer := tl (jb_buffer j @ [(seq, data)])\<rparr>))"
  by (cases "jb_buffer j"; cases c) (auto simp: feed_def jb_check_def pull_def ready_def Let_def)

definition rtp_entry :: "bytes \<Rightarrow> int \<times> bytes" where
  "rtp_entry p = (uint (decode16 (take 2 (drop 2 p))), drop 12 p)"

lemma handle_rtp_feed:
  "handle_rtp c j p = (if length p < 12 then Inl IndexError else feed c j (drop 12 p) (fst (rtp_entry p)))"
  by (simp add: handle_rtp_def slice_def rtp_entry_def drop_take)

lemma receive_all_short:
  "\<exists>p \<in> set ps. length p < 12 \<Longrightarrow> receive_all MuLaw j ps = Inl IndexError"
proof (induction ps arbitrary: j)
  case (Cons p ps)
  show ?case
  proof (cases "length p < 12")
    case False
    then have "receive_all MuLaw j' ps = Inl IndexError" for j' using Cons by auto
    then show ?thesis using False by (simp add: handle_rtp_feed feed_queue)
  qed (simp add: handle_rtp_feed)
qed simp

lemma receive_all_queue:
  assumes "list_all (\<lambda>p. 12 \<le> length p) ps" and "length (jb_buffer j) \<le> room j"
  shows "receive_all MuLaw j ps = Inr (
    let q = jb_buffer j @ map rtp_entry ps; n = length q - room j in
    (map snd (take n q), j\<lparr>jb_buffer := drop n q\<rparr>))"
  using assms
proof (induction ps arbitrary: j)
  case (Cons p ps)
  let ?q = "jb_buffer j @ [rtp_entry p]"
  have e: "(fst (rtp_entry p), drop 12 p) = rtp_entry p" by (simp add: rtp_entry_def)
  show ?case
  proof (cases "length (jb_buffer j) < room j")
    case True
    then show ?thesis using Cons.prems Cons.IH [of "j\<lparr>jb_buffer := ?q\<rparr>"]
      by (simp add: handle_rtp_feed feed_queue e Let_def)
  next
    case False
    then have full: "length (jb_buffer j) = room j" using Cons.prems(2) by simp
    then have "length ?q = Suc (room j)" by simp
    then obtain a as where q: "?q = a # as" "length as = room j" unfolding length_Suc_conv by blast
    define Y where "Y = as @ map rtp_entry ps"
    have whole: "jb_buffer j @ map rtp_entry (p # ps) = a # Y"
      using q(1) unfolding Y_def by (metis append_Cons append_Nil append_assoc list.simps(9))
    have n: "length Y - room j = length ps" "length (a # Y) - room j = Suc (length ps)" using q(2) by (simp_all add: Y_def)
    have "receive_all MuLaw (j\<lparr>jb_buffer := as\<rparr>) ps =
        Inr (map snd (take (length ps) Y), j\<lparr>jb_buffer := drop (length ps) Y\<rparr>)"
      using Cons.IH [of "j\<lparr>jb_buffer := as\<rparr>"] Cons.prems(1) q(2) n(1) by (simp add: Y_def Let_def)
    moreover have "handle_rtp MuLaw j p = Inr (Some (snd a), j\<lparr>jb_buffer := as\<rparr>)"
      using Cons.prems(1) False q(1) by (simp add: handle_rtp_feed feed_queue e)
    ultimately show ?thesis unfolding whole Let_def n(2) by simp
  qed
qed (simp add: Let_def)

text \<open>With the other codec the first payload that leaves the buffer ends the reception.\<close>

lemma receive_all_opus:
  assumes "length (jb_buffer j) \<le> room j"
  shows "receive_all Opus j ps =
    (if room j - length (jb_buffer j) < length (takeWhile (\<lambda>p. 12 \<le> length p) ps) then Inl NotImplemented
     else receive_all MuLaw j ps)"
  using assms
proof (induction ps arbitrary: j)
  case (Cons p ps)
  show ?case
  proof (cases "length (jb_buffer j) < room j")
    case True
    then show ?thesis using Cons.IH [of "j\<lparr>jb_buffer := jb_buffer j @ [(fst (rtp_entry p), drop 12 p)]\<rparr>"]
      by (auto simp: handle_rtp_feed feed_queue)
  next
    case False
    then show ?thesis using Cons.prems by (simp add: handle_rtp_feed feed_queue)
  qed
qed simp

text \<open>
  (C28) The jitter buffer puts nothing in order. Whatever the sequence numbers, the payloads reach the
  decoder in the order in which the datagrams arrived, each \<open>n\<close> datagrams late, and the last \<open>n\<close> never;
  a datagram that is too short for a header raises. That is so with mu-law; with opus, which has no
  decoder, reception ends with an exception as soon as the first payload leaves the buffer, at the
  datagram after the first \<open>n\<close>.
\<close>

theorem jitter_is_queue:
  "receive_all c (jitter_new n) ps =
    (if c = Opus \<and> n < length (takeWhile (\<lambda>p. 12 \<le> length p) ps) then Inl NotImplemented
     else if list_all (\<lambda>p. 12 \<le> length p) ps
     then Inr (map (drop 12) (take (length ps - n) ps),
       \<lparr>jb_buffer = map rtp_entry (drop (length ps - n) ps), room = n\<rparr>)
     else Inl IndexError)"
proof -
  have mu: "receive_all MuLaw (jitter_new n) ps = (if list_all (\<lambda>p. 12 \<le> length p) ps
      then Inr (map (drop 12) (take (length ps - n) ps),
        \<lparr>jb_buffer = map rtp_entry (drop (length ps - n) ps), room = n\<rparr>)
      else Inl IndexError)"
  proof (cases "list_all (\<lambda>p. 12 \<le> length p) ps")
    case True
    have "map snd (map rtp_entry qs) = map (drop 12) qs" for qs by (simp add: rtp_entry_def)
    then show ?thesis using True receive_all_queue [OF True, of "jitter_new n"]
      by (simp add: jitter_new_def Let_def take_map drop_map)
  next
    case False
    then show ?thesis using receive_all_short [of ps] by (auto simp: list_all_iff not_le)
  qed
  show ?thesis
  proof (cases c)
    case Opus
    have "receive_all Opus (jitter_new n) ps =
        (if n < length (takeWhile (\<lambda>p. 12 \<le> length p) ps) then Inl NotImplemented
         else receive_all MuLaw (jitter_new n) ps)"
      using receive_all_opus [of "jitter_new n" ps] by (simp add: jitter_new_def)
    then show ?thesis unfolding mu using Opus by simp
  qed (simp add: mu)
qed

lemma jitter_reorder_example:
  "receive_all MuLaw (jitter_new 1) [form_rtp 3 160 0 [3], form_rtp 2 160 0 [2], form_rtp 4 160 0 [4]] =
   Inr ([[3], [2]], \<lparr>jb_buffer = [(4, [4])], room = 1\<rparr>)"
  by (simp add: form_rtp_def handle_rtp_def slice_def feed_queue jitter_new_def be_word16_def)

section \<open>Headers\<close>







section \<open>What a session sends\<close>




end
