(* ===== verification/Spec2Isabelle.thy ===== *)
theory Spec2Isabelle
  imports Srtp_Machine Srtp_Network Dtls_Threads Example_Main Stun Codec_Mulaw Rtp_Transport
begin

text \<open>
  A verification of the \<open>contest\<close> repository, a telephone robot: all of its C code, two libraries and a
  demonstration program, and those parts of the Crystal program around it that handle the media path.

  \<^bold>\<open>The program.\<close> \<open>src/libsrtp_decrypt/srtp.c\<close> protects and unprotects media packets: a session holds
  ciphers, keys, a roll-over counter and a replay window for RTP and for RTCP. The library
  \<open>src/libdtlssrtp\<close> makes the keys for it: \<open>dtls_srtp.c\<close> and \<open>dtls_srtp.h\<close> run a DTLS handshake over a
  data sink (\<open>data_sink.h\<close>, \<open>dsink_udp.c\<close>) and export key material, which is split by direction.
  \<open>example.c\<close> is an endpoint built on it. An application tells DTLS packets from media with
  \<open>packet_is_dtls\<close>, feeds the former to a DTLS session, and keys one SRTP session for each direction
  with the parts of the exported material. In the Crystal program, \<open>src/src/transport\<close> carries the audio
  of a call in RTP packets, \<open>src/src/codec/mu_law.cr\<close> makes bytes of samples and samples of bytes, and
  \<open>src/src/stun\<close> answers the connectivity checks of browsers, with the password of the call that
  \<open>src/src/graph\<close> finds for the user name in the check.

  \<^bold>\<open>Conventions.\<close> Machine integers are words of their width, wherever wrap-around can matter; C
  \<open>int\<close>s that only carry error codes are \<open>int\<close>. Every C function returns an \<open>outcome\<close>: \<open>Done\<close> with its
  results, \<open>Aborted\<close> for a failed assertion, \<open>Undefined\<close> where C leaves the behaviour undefined
  (shifts by too much, null dereferences, arrays of length zero, reads outside arrays, misuse of a
  mutex). In some places that C or Crystal leaves open, the model has the value that compiled code
  gives, because ordinary packets reach them and little would be left to prove otherwise:
  shifts into the sign bit of an \<open>int\<close> (\<open>htonl (seq << 16)\<close> at \<open>srtp.c\<close>:401 in \<open>rtp_counter\<close>,
  \<open>~(1 << 31)\<close> at \<open>srtp.c\<close>:733 in \<open>srtcp_crypt\<close>), the read of up to 15 bytes behind the payload
  (\<open>srtp.c\<close>:223 in \<open>do_ctr_crypt\<close>, a read of flat memory), the order of evaluation at \<open>example.c\<close>:100,
  and the last entry of \<open>TABLE\<close>, written behind its 255 bytes (\<open>mu_law.cr\<close>:14-23). They are all
  findings, and no theorem on undefined behaviour speaks about them. Pointers that may be null are options, memory that the code overruns or reads beyond is a
  function from addresses to bytes. Code outside the repository is a parameter: libgcrypt is the
  record \<open>gcrypt\<close>, OpenSSL and the allocator the record \<open>openssl\<close>, the operating system the record
  \<open>host\<close>. What theorems use of them are predicates that state documented behaviour (\<open>ctr_cipher\<close>,
  \<open>hmac_md\<close>, \<open>resource_count\<close>, \<open>ssl_roles\<close>, \<open>ssl_resources\<close>, \<open>bio_reads\<close>, \<open>bio_empty\<close>, and so on), each shown to hold of
  a small implementation (\<open>stub_gcrypt\<close>, \<open>toy_ssl\<close>, \<open>toy_host\<close>), on which the witnesses run.

  \<^bold>\<open>SRTP.\<close>
  \<^item> \<open>Srtp_Prelude\<close>: outcomes, words, byte order, memory; collections shared by the proofs.
  \<^item> \<open>Gcrypt\<close>: the interface of libgcrypt and the laws it documents.
  \<^item> \<open>Srtp_Session\<close>: \<open>srtp_session_t\<close>, \<open>srtp_create\<close>, \<open>srtp_destroy\<close>, \<open>srtp_setrcc_rate\<close>. Sessions are
    well formed, every error path frees what it took.
  \<^item> \<open>Srtp_Cipher\<close>: \<open>do_ctr_crypt\<close>, \<open>rtp_crypt\<close>, \<open>rtcp_crypt\<close>. The payload is XORed with the key stream of
    RFC 3711, the last block reads behind the buffer.
  \<^item> \<open>Srtp_Replay\<close>: \<open>srtp_compute_roc\<close> and the window update of \<open>srtp_crypt\<close>. The locale
    \<open>replay_filter\<close> is the contract of a replay window; the code refines a set of accepted indices.
  \<^item> \<open>Srtp_Keys\<close>: \<open>do_derive\<close>, \<open>srtp_setkey\<close>, \<open>hexstring\<close>, \<open>srtp_setkeystring\<close>.
  \<^item> \<open>Srtp_Packet\<close>: \<open>rtp_digest\<close>, \<open>srtp_crypt\<close>, \<open>srtp_send\<close>, \<open>srtp_recv\<close>, and the ways through them.
  \<^item> \<open>Srtp_Channel\<close>, \<open>Srtp_Guarantees\<close>: sender and receiver together. Delivery of packets and streams,
    authenticity, no replay, bounds, error behaviour, where the undefined shift of the window is
    reachable. Delivery of streams and the harmlessness of refused packets hold without counter carry
    (no RCC mode); with it they fail, as the findings say.
  \<^item> \<open>Srtp_Network\<close>: any number of packets over a network that loses, repeats and reorders.
    Without counter carry, \<open>srtp_recv\<close> refines an ideal window over unbounded indices; every packet is
    delivered at most once, and exactly once if none of the run is too late.
  \<^item> \<open>Srtcp\<close>: \<open>srtcp_crypt\<close>, \<open>srtcp_send\<close>, \<open>srtcp_recv\<close>, which do not fit together.
  \<^item> \<open>Srtp_Machine\<close>: the public functions as a step relation, invariants of reachable sessions.

  \<^bold>\<open>DTLS.\<close>
  \<^item> \<open>Openssl\<close>: the interface of OpenSSL and the laws it documents.
  \<^item> \<open>Dtls_Context\<close>: \<open>dtls_ctx_init\<close>. It frees what it took on every error path; it never verifies.
  \<^item> \<open>Data_Sink\<close>: \<open>dsink\<close> and the UDP sink.
  \<^item> \<open>Dtls_Session\<close>: \<open>dtls_sess\<close> and every function on it. The locale \<open>session_calls\<close> is the contract all
    calls share; \<open>ssl_inv\<close> lifts invariants of the \<open>SSL\<close> to runs of calls. The calls are those of the
    type \<open>dtls_api\<close>: the raw setters \<open>dtls_sess_set_state\<close> and \<open>dtls_sess_set_sink\<close> are not among them, and
    the first breaks the agreement of roles (\<open>set_state_breaks_role\<close>).
  \<^item> \<open>Dtls_Guarantees\<close>: roles, progress (locale \<open>live_calls\<close>), sending, ownership over any run.
  \<^item> \<open>Dtls_Keys\<close>: \<open>packet_is_dtls\<close>, \<open>srtp_get_key_material\<close>, \<open>key_material_free\<close>,
    \<open>srtp_key_material_extract\<close>, which refines the key block of RFC 5764.
  \<^item> \<open>Dtls_Threads\<close>: \<open>dtls_do_handshake\<close>, \<open>dtls_sess_put_packet\<close> and \<open>dtls_sess_handle_timeout\<close>, and
    \<open>dtls_sess_send_pending\<close> inside them, cut into their accesses to the shared session, for any number
    of interleaved threads. Alone, a thread computes what the functions of \<open>Dtls_Session\<close> compute (lemmas
    \<open>thread_alone\<close>). Together (locale \<open>bounded_steps\<close>) they exclude each other from the mutex and never
    dead lock; all return, unless one sends the -1 of a \<open>BIO_read\<close> that found nothing, which an
    interleaving reaches; a fixed role survives, an open one has a race.
  \<^item> \<open>Dtls_Srtp\<close>: the two libraries together. Media is never taken for DTLS; two endpoints that run
    the handshake and key their sessions from the exported material understand each other, from
    the creation of the DTLS sessions to the last packet of the stream.

  \<^bold>\<open>The demonstration program.\<close>
  \<^item> \<open>Example_Tools\<close>: printing, socket errors, socket addresses.
  \<^item> \<open>Example_Loop\<close>: \<open>prepare_udp_socket\<close> and \<open>mainloop\<close>. It ends when the signal has come, without
    undefined behaviour, and leaves nothing behind.
  \<^item> \<open>Example_Main\<close>: \<open>main\<close>, which frees its objects and closes its socket on every path, and unloads
    the tables of OpenSSL on all but three early exits.

  \<^bold>\<open>The Crystal program.\<close>
  \<^item> \<open>Crystal_Prelude\<close>: exceptions as the left value of a sum, slices with checked bounds, integers in
    network order. The version is 0.23.1 (\<open>Dockerfile\<close>), whose integers wrap.
  \<^item> \<open>Stun\<close>: \<open>StunHeader\<close>, \<open>Conv\<close>, \<open>handle_stun_payload\<close> and the collection of calls. The attribute loop
    decides the grammar of RFC 5389, the reply is a success response of that standard, part by part, and
    parses again; requests without attributes are not answered, and their integrity is not verified.
  \<^item> \<open>Codec_Mulaw\<close>: \<open>encode_sample\<close> and \<open>decode_sample\<close> against a reference decoder of G.711. The encoder is
    within half a step but for the loudest samples, the decoder loses part of the loud samples.
  \<^item> \<open>Rtp_Transport\<close>: \<open>form_rtp\<close>, \<open>handle_rtp\<close> and the jitter buffer, which is a queue in front of the
    decoder of the codec; opus has none, and the exception ends the reception. Packets have the header of
    RFC 3550, and the C library reads the same header. What the decoder makes is dropped by the program.

  \<^bold>\<open>Bounds and fuel.\<close> Only \<open>mainloop\<close> may run forever. Its fuel counts rounds of the loop; \<open>mainloop_ends\<close>
  shows that one more than the rounds before the signal is enough. Packets are shorter than
  \<open>2^31\<close> bytes where a theorem says so, because the code computes with \<open>int\<close> there; headers are
  below 65536 bytes, because the code counts them in 16 bits, and lists of STUN attributes below 65533,
  because the code rounds the length of an attribute up in 16 bits.

  \<^bold>\<open>Not modelled.\<close> The rest of the Crystal code: SIP and SDP, which are text processing with regular
  expressions and sockets, resampling, opus, the robot itself and its external services, the secured
  transport, whose constructor does not fit its base class, and the declarations of the C functions.
  In C, libgcrypt, OpenSSL, \<open>getopt\<close> and the kernel, which are parameters; messages on
  \<open>stderr\<close>; the memory model of C, in which unsynchronised accesses of threads are data races (the
  steps of \<open>Dtls_Threads\<close> are atomic), and threads in the other functions of a session; the branch of
  \<open>dtls_ctx_init\<close> under \<open>HAVE_OPENSSL_ECDH_AUTO\<close> and that of \<open>makesockaddr\<close> for systems whose addresses
  have a length field, which the build does not select.
\<close>

end
